(* ===== verification/Prelude.thy ===== *)
theory Prelude
  imports Main "HOL-Library.Sublist" "HOL-Library.List_Lexorder" "HOL-Library.Char_ord"
begin

text \<open>
  Shared vocabulary of the development: the Go types the source uses (byte strings, instants,
  durations, fallible results), the functions of Go's \<open>strings\<close> and \<open>time\<close> packages
  that the components call, and the generic lemmas on lists and association lists that the
  component proofs share.

  A Go \<open>string\<close> or \<open>[]byte\<close> is a list of 8-bit characters, so \<open>length\<close> counts
  bytes. An instant is the number of nanoseconds since Go's zero \<open>time.Time\<close>; a duration is
  a number of nanoseconds. A fallible call returns a sum, \<open>Inl\<close> holding the error.
\<close>

section \<open>Types and collections\<close>

type_synonym bytes = string
type_synonym time = int
type_synonym duration = int
type_synonym ('e, 'a) result = "'e + 'a"

named_theorems go_str \<open>definitions of the modelled functions of package strings\<close>
named_theorems inv_step \<open>preservation of a component's invariant by one operation\<close>

section \<open>Package time\<close>

definition Second :: duration where
  "Second = 1000000000"

definition Minute :: duration where
  "Minute = 60 * Second"

definition maxDuration :: duration where
  "maxDuration = 2 ^ 63 - 1"

definition minDuration :: duration where
  "minDuration = - (2 ^ 63)"

text \<open>\<open>time.Time.Sub\<close> saturates at the extreme durations.\<close>

definition time_Sub :: "time \<Rightarrow> time \<Rightarrow> duration" where
  "time_Sub t u = max minDuration (min maxDuration (t - u))"

lemma time_Sub_ge_iff: "minDuration < d \<Longrightarrow> d \<le> maxDuration \<Longrightarrow> d \<le> time_Sub t u \<longleftrightarrow> d \<le> t - u"
  by (auto simp: time_Sub_def)

lemma time_Sub_gt_iff: "minDuration \<le> d \<Longrightarrow> d < maxDuration \<Longrightarrow> d < time_Sub t u \<longleftrightarrow> d < t - u"
  by (auto simp: time_Sub_def)

lemma time_Sub_mono: "t \<le> t' \<Longrightarrow> time_Sub t u \<le> time_Sub t' u"
  by (auto simp: time_Sub_def)

section \<open>Package strings\<close>

definition hasPrefix :: "string \<Rightarrow> string \<Rightarrow> bool" where
  [go_str]: "hasPrefix s p = (take (length p) s = p)"

definition hasSuffix :: "string \<Rightarrow> string \<Rightarrow> bool" where
  [go_str]: "hasSuffix s p = (length p \<le> length s \<and> drop (length s - length p) s = p)"

definition trimPrefix :: "string \<Rightarrow> string \<Rightarrow> string" where
  [go_str]: "trimPrefix s p = (if hasPrefix s p then drop (length p) s else s)"

definition trimSuffix :: "string \<Rightarrow> string \<Rightarrow> string" where
  [go_str]: "trimSuffix s p = (if hasSuffix s p then take (length s - length p) s else s)"

text \<open>\<open>strings.TrimRight\<close> with a cutset of one ASCII byte.\<close>

definition trimRight :: "string \<Rightarrow> char \<Rightarrow> string" where
  [go_str]: "trimRight s c = rev (dropWhile (\<lambda>x. x = c) (rev s))"

text \<open>\<open>strings.Split\<close> with a separator of one byte; it never returns an empty slice.\<close>

fun split_on :: "char \<Rightarrow> string \<Rightarrow> string list" where
  "split_on c [] = [[]]"
| "split_on c (x # xs) =
     (if x = c then [] # split_on c xs
      else (case split_on c xs of [] \<Rightarrow> [[x]] | w # ws \<Rightarrow> (x # w) # ws))"

text \<open>
  The UTF-8 encodings of the runes for which \<open>unicode.IsSpace\<close> holds. \<open>strings.TrimSpace\<close>
  removes them from both ends.
\<close>

definition space_runes :: "string list" where
  "space_runes = map (map char_of)
     ([[9], [10], [11], [12], [13], [32], [194, 133], [194, 160], [225, 154, 128]]
      @ map (\<lambda>i. [226, 128, 128 + i]) [0, 1, 2, 3, 4, 5, 6, 7, 8, 9, 10, 40, 41, 47]
      @ [[226, 129, 159], [227, 128, 128::nat]])"

function trim_runes :: "string list \<Rightarrow> string \<Rightarrow> string" where
  "trim_runes rs s =
     (case find (\<lambda>r. r \<noteq> [] \<and> take (length r) s = r) rs of
        None \<Rightarrow> s
      | Some r \<Rightarrow> trim_runes rs (drop (length r) s))"
  by pat_completeness auto
termination
proof (relation "measure (\<lambda>(rs, s). length s)")
  fix rs :: "string list" and s r :: string
  assume "find (\<lambda>r. r \<noteq> [] \<and> take (length r) s = r) rs = Some r"
  then have "r \<noteq> []" and "take (length r) s = r"
    by (auto simp: find_Some_iff)
  then have "s \<noteq> []" by auto
  with \<open>r \<noteq> []\<close> show "((rs, drop (length r) s), rs, s) \<in> measure (\<lambda>(rs, s). length s)"
    by simp
qed simp

declare trim_runes.simps [simp del]

definition trimSpace :: "string \<Rightarrow> string" where
  "trimSpace s = rev (trim_runes (map rev space_runes) (rev (trim_runes space_runes s)))"

lemma trim_runes_id:
  assumes "\<forall>r \<in> set rs. r \<noteq> [] \<longrightarrow> take 1 r \<noteq> take 1 s"
  shows "trim_runes rs s = s"
proof -
  have "take (length r) s \<noteq> r" if "r \<in> set rs" "r \<noteq> []" for r
  proof
    assume "take (length r) s = r"
    then have "take 1 r = take 1 (take (length r) s)" by simp
    also have "\<dots> = take 1 s" using that(2) by (cases r; cases s) auto
    finally show False using assms that by blast
  qed
  then have "find (\<lambda>r. r \<noteq> [] \<and> take (length r) s = r) rs = None" by (auto simp: find_None_iff)
  then show ?thesis by (simp add: trim_runes.simps)
qed

lemma trimSpace_id:
  assumes "take 1 s \<notin> take 1 ` set space_runes" and "take 1 (rev s) \<notin> (\<lambda>r. take 1 (rev r)) ` set space_runes"
  shows "trimSpace s = s"
proof -
  have "trim_runes space_runes s = s" by (rule trim_runes_id) (metis assms(1) image_eqI)
  moreover have "take 1 q \<noteq> take 1 (rev s)" if q: "q \<in> set (map rev space_runes)" for q
  proof -
    from q obtain r where "r \<in> set space_runes" "q = rev r" unfolding set_map by (rule imageE)
    with assms(2) show ?thesis by (metis image_eqI)
  qed
  then have "trim_runes (map rev space_runes) (rev s) = rev s" by (intro trim_runes_id ballI impI)
  ultimately show ?thesis by (simp add: trimSpace_def)
qed

lemma hasPrefix_append [simp]: "hasPrefix (p @ s) p"
  by (simp add: hasPrefix_def)

lemma hasPrefixE:
  assumes "hasPrefix s p"
  obtains r where "s = p @ r"
  using assms append_take_drop_id [of "length p" s] that
  unfolding hasPrefix_def by metis

lemma split_on_nonempty [simp]: "split_on c s \<noteq> []"
  by (induction s) (auto split: list.splits)

lemma split_on_no_sep: "w \<in> set (split_on c s) \<Longrightarrow> c \<notin> set w"
  by (induction s arbitrary: w) (auto split: if_splits list.splits)

lemma length_trimRight: "length (trimRight s c) \<le> length s"
  using length_dropWhile_le [of "\<lambda>x. x = c" "rev s"] by (simp add: trimRight_def)

lemma trimRight_last: "trimRight s c = [] \<or> last (trimRight s c) \<noteq> c"
proof (cases "dropWhile (\<lambda>x. x = c) (rev s)")
  case (Cons y ys)
  with hd_dropWhile [of "\<lambda>x. x = c" "rev s"] have "y \<noteq> c" by simp
  with Cons show ?thesis by (simp add: trimRight_def)
qed (simp add: trimRight_def)

section \<open>Association lists\<close>

text \<open>
  A Go map value is an association list with distinct keys: the order of the list is the order in
  which one \<open>range\<close> over the map visits it, which Go leaves open. Two lists stand for the same
  map when they agree as functions.
\<close>

definition map_keys :: "('k \<times> 'v) list \<Rightarrow> 'k list" where
  [simp]: "map_keys m = map fst m"

definition go_map :: "('k \<times> 'v) list \<Rightarrow> bool" where
  "go_map m = distinct (map fst m)"

text \<open>\<open>m[k] = v\<close>: in place when the key is present, a new entry otherwise.\<close>

fun map_put :: "('k \<times> 'v) list \<Rightarrow> 'k \<Rightarrow> 'v \<Rightarrow> ('k \<times> 'v) list" where
  "map_put [] k v = [(k, v)]"
| "map_put ((k', v') # m) k v = (if k' = k then (k', v) # m else (k', v') # map_put m k v)"

lemma map_of_map_put [simp]: "map_of (map_put m k v) = (map_of m)(k \<mapsto> v)"
  by (induction m k v rule: map_put.induct) (auto simp: fun_eq_iff)

lemma keys_map_put [simp]: "fst ` set (map_put m k v) = insert k (fst ` set m)"
  by (induction m k v rule: map_put.induct) auto

lemma go_map_put [simp]: "go_map m \<Longrightarrow> go_map (map_put m k v)"
  by (induction m k v rule: map_put.induct) (auto simp: go_map_def)

lemma go_map_Nil [simp]: "go_map []"
  by (simp add: go_map_def)

lemma go_map_Cons [simp]: "go_map ((k, v) # m) \<longleftrightarrow> k \<notin> fst ` set m \<and> go_map m"
  by (simp add: go_map_def)

lemma go_map_in_iff: "go_map m \<Longrightarrow> (k, v) \<in> set m \<longleftrightarrow> map_of m k = Some v"
  by (simp add: go_map_def)

text \<open>Sorting the keys of a map makes its presentation independent of the iteration order.\<close>

lemma sorted_keys_unique:
  fixes m m' :: "('k::linorder \<times> 'v) list"
  assumes "go_map m" and "go_map m'" and "fst ` set m = fst ` set m'"
  shows "sort (map fst m) = sort (map fst m')"
  using assms by (intro sorted_distinct_set_unique) (auto simp: go_map_def)

section \<open>Integers from text\<close>

definition digit_val :: "char \<Rightarrow> int option" where
  "digit_val c = (let n = of_char c in if 48 \<le> n \<and> n \<le> 57 then Some (n - 48) else None)"

fun digits_val :: "int \<Rightarrow> string \<Rightarrow> int option" where
  "digits_val acc [] = Some acc"
| "digits_val acc (c # s) =
     (case digit_val c of None \<Rightarrow> None | Some d \<Rightarrow> digits_val (10 * acc + d) s)"

text \<open>\<open>strconv.Atoi\<close> on a 64-bit platform; \<open>None\<close> is its error.\<close>

definition atoi :: "string \<Rightarrow> int option" where
  "atoi s =
     (let neg = (s \<noteq> [] \<and> hd s = CHR ''-'');
          body = (if s \<noteq> [] \<and> (hd s = CHR ''-'' \<or> hd s = CHR ''+'') then tl s else s)
      in if body = [] then None
         else case digits_val 0 body of
           None \<Rightarrow> None
         | Some n \<Rightarrow>
             (let v = (if neg then - n else n) in
              if - (2 ^ 63) \<le> v \<and> v < 2 ^ 63 then Some v else None))"

end
