(* ===== verification/Breaker.thy ===== *)
theory Breaker
  imports Prelude
begin

text \<open>
  The circuit breaker of the proxy client (\<open>sdk/proxyclient/breaker.go\<close>): its record, its
  three mutex-protected operations \<open>allow\<close>, \<open>success\<close> and \<open>failure\<close>, the invariant of
  every reachable breaker, a specification by lists of failure instants that the record refines,
  and the facts about sequences of operations: when a run of failures opens it, how long it stays
  open, and that one open period grants one probe. The clock is read inside the lock, so an
  operation takes the instant it reads as an argument.
\<close>

section \<open>State and operations\<close>

datatype breakerState = breakerClosed | breakerOpen | breakerHalfOpen

fun breakerState_String :: "breakerState \<Rightarrow> string" where
  "breakerState_String breakerClosed = ''closed''"
| "breakerState_String breakerOpen = ''open''"
| "breakerState_String breakerHalfOpen = ''half-open''"

record breaker =
  threshold :: int
  window :: duration
  cooldown :: duration
  br_state :: breakerState
  failures :: int
  firstFail :: time
  openedAt :: time

definition newBreaker :: "int \<Rightarrow> duration \<Rightarrow> duration \<Rightarrow> breaker" where
  "newBreaker th w c =
     \<lparr>threshold = th, window = w, cooldown = c, br_state = breakerClosed,
      failures = 0, firstFail = 0, openedAt = 0\<rparr>"

definition allow :: "time \<Rightarrow> breaker \<Rightarrow> bool \<times> breaker" where
  "allow now b =
     (case br_state b of
        breakerClosed \<Rightarrow> (True, b)
      | breakerOpen \<Rightarrow>
          (if time_Sub now (openedAt b) \<ge> cooldown b
           then (True, b\<lparr>br_state := breakerHalfOpen\<rparr>)
           else (False, b))
      | breakerHalfOpen \<Rightarrow> (False, b))"

definition success :: "breaker \<Rightarrow> breaker" where
  "success b =
     (let b' = b\<lparr>failures := 0, firstFail := 0\<rparr>
      in if br_state b' \<noteq> breakerClosed then b'\<lparr>br_state := breakerClosed\<rparr> else b')"

definition failure :: "time \<Rightarrow> breaker \<Rightarrow> breaker" where
  "failure now b =
     (case br_state b of
        breakerHalfOpen \<Rightarrow> b\<lparr>br_state := breakerOpen, openedAt := now\<rparr>
      | breakerOpen \<Rightarrow> b
      | breakerClosed \<Rightarrow>
          (if failures b = 0 \<or> time_Sub now (firstFail b) > window b
           then b\<lparr>firstFail := now, failures := 1\<rparr>
           else let b' = b\<lparr>failures := failures b + 1\<rparr>
                in if failures b' \<ge> threshold b'
                   then b'\<lparr>br_state := breakerOpen, openedAt := now\<rparr>
                   else b'))"

definition currentState :: "breaker \<Rightarrow> breakerState" where
  "currentState b = br_state b"

lemmas breaker_defs = allow_def success_def failure_def Let_def

section \<open>Sequences of operations\<close>

text \<open>
  The mutex makes each operation atomic, so what concurrent callers do to a breaker is a sequence
  of operations, each at the instant it holds the lock. The output of a step is whether
  \<open>allow\<close> granted the attempt.
\<close>

datatype br_op = Allow | Success | Failure

fun br_step :: "time \<times> br_op \<Rightarrow> breaker \<Rightarrow> bool \<times> breaker" where
  "br_step (t, Allow) b = allow t b"
| "br_step (t, Success) b = (False, success b)"
| "br_step (t, Failure) b = (False, failure t b)"

fun br_run :: "(time \<times> br_op) list \<Rightarrow> breaker \<Rightarrow> bool list \<times> breaker" where
  "br_run [] b = ([], b)"
| "br_run (e # es) b =
     (let (g, b') = br_step e b; (gs, b'') = br_run es b' in (g # gs, b''))"

text \<open>The answers that a gate gives to a sequence of requests.\<close>

fun grants :: "('t \<Rightarrow> 'b \<Rightarrow> bool \<times> 'b) \<Rightarrow> 't list \<Rightarrow> 'b \<Rightarrow> bool list" where
  "grants f [] b = []"
| "grants f (t # ts) b = (case f t b of (g, b') \<Rightarrow> g # grants f ts b')"

lemma br_run_Cons [simp]:
  "br_run (e # es) b =
     (fst (br_step e b) # fst (br_run es (snd (br_step e b))), snd (br_run es (snd (br_step e b))))"
  by (simp add: case_prod_beta)

lemma grants_Cons [simp]:
  "grants f (t # ts) b = fst (f t b) # grants f ts (snd (f t b))"
  by (simp add: case_prod_beta)

declare br_run.simps(2) [simp del] grants.simps(2) [simp del]

inductive breaker_reach :: "int \<Rightarrow> duration \<Rightarrow> duration \<Rightarrow> time \<Rightarrow> breaker \<Rightarrow> bool"
  for th :: int and w :: duration and c :: duration where
  start: "breaker_reach th w c t (newBreaker th w c)"
| tick: "breaker_reach th w c t b \<Longrightarrow> t \<le> t' \<Longrightarrow> breaker_reach th w c t' b"
| oper: "breaker_reach th w c t b \<Longrightarrow> breaker_reach th w c t (snd (br_step (t, e) b))"

inductive_cases breaker_reachE: "breaker_reach th w c t b"

section \<open>The invariant\<close>

definition breaker_inv :: "time \<Rightarrow> breaker \<Rightarrow> bool" where
  "breaker_inv t b \<longleftrightarrow>
     0 \<le> failures b
     \<and> (br_state b = breakerClosed \<longleftrightarrow> failures b < max 2 (threshold b))
     \<and> (br_state b = breakerClosed \<and> failures b \<noteq> 0 \<longrightarrow> firstFail b \<le> t)
     \<and> (br_state b \<noteq> breakerClosed \<longrightarrow> openedAt b \<le> t)"

definition same_config :: "breaker \<Rightarrow> breaker \<Rightarrow> bool" where
  "same_config b b' \<longleftrightarrow>
     threshold b' = threshold b \<and> window b' = window b \<and> cooldown b' = cooldown b"

lemma breaker_inv_new [inv_step]: "breaker_inv t (newBreaker th w c)"
  by (simp add: breaker_inv_def newBreaker_def)

lemma breaker_inv_tick [inv_step]: "breaker_inv t b \<Longrightarrow> t \<le> t' \<Longrightarrow> breaker_inv t' b"
  by (auto simp: breaker_inv_def)

lemma breaker_inv_allow [inv_step]: "breaker_inv t b \<Longrightarrow> breaker_inv t (snd (allow t b))"
  by (auto simp: breaker_inv_def allow_def split: breakerState.splits)

lemma breaker_inv_success [inv_step]: "breaker_inv t b \<Longrightarrow> breaker_inv t (success b)"
  by (auto simp: breaker_inv_def success_def Let_def)

lemma breaker_inv_failure [inv_step]: "breaker_inv t b \<Longrightarrow> breaker_inv t (failure t b)"
  by (auto simp: breaker_inv_def failure_def Let_def split: breakerState.splits)

lemma breaker_inv_step [inv_step]: "breaker_inv t b \<Longrightarrow> breaker_inv t (snd (br_step (t, e) b))"
  by (cases e) (simp_all add: inv_step)

lemma same_config_step: "same_config b (snd (br_step (t, e) b))"
  by (cases e) (auto simp: same_config_def breaker_defs split: breakerState.splits)

lemma breaker_reach_config:
  "breaker_reach th w c t b \<Longrightarrow> threshold b = th \<and> window b = w \<and> cooldown b = c"
proof (induction rule: breaker_reach.induct)
  case (start t)
  show ?case by (simp add: newBreaker_def)
next
  case (oper t b e)
  then show ?case using same_config_step [of b t e] by (simp add: same_config_def)
qed

lemma breaker_reach_inv: "breaker_reach th w c t b \<Longrightarrow> breaker_inv t b"
  by (induction rule: breaker_reach.induct) (auto intro: inv_step simp del: br_step.simps)

section \<open>Specification and refinement\<close>

text \<open>
  What the breaker promises: while closed it remembers the instants of the failures of the current
  run, oldest first; a failure later than the window after the oldest one starts a new run; the run
  that reaches the threshold opens the breaker at that instant. The record keeps of the run only
  its length and its first instant.
\<close>

datatype spec_breaker = Counting "time list" | Opened time | Probing

fun spec_allow :: "duration \<Rightarrow> time \<Rightarrow> spec_breaker \<Rightarrow> bool \<times> spec_breaker" where
  "spec_allow c t (Counting ts) = (True, Counting ts)"
| "spec_allow c t (Opened u) = (if time_Sub t u \<ge> c then (True, Probing) else (False, Opened u))"
| "spec_allow c t Probing = (False, Probing)"

fun spec_failure :: "int \<Rightarrow> duration \<Rightarrow> time \<Rightarrow> spec_breaker \<Rightarrow> spec_breaker" where
  "spec_failure th w t (Counting []) = Counting [t]"
| "spec_failure th w t (Counting (u # us)) =
     (if time_Sub t u > w then Counting [t]
      else if int (length (u # us)) + 1 \<ge> th then Opened t
      else Counting ((u # us) @ [t]))"
| "spec_failure th w t (Opened u) = Opened u"
| "spec_failure th w t Probing = Opened t"

fun spec_step ::
  "int \<Rightarrow> duration \<Rightarrow> duration \<Rightarrow> time \<times> br_op \<Rightarrow> spec_breaker \<Rightarrow> bool \<times> spec_breaker" where
  "spec_step th w c (t, Allow) s = spec_allow c t s"
| "spec_step th w c (t, Success) s = (False, Counting [])"
| "spec_step th w c (t, Failure) s = (False, spec_failure th w t s)"

fun spec_run ::
  "int \<Rightarrow> duration \<Rightarrow> duration \<Rightarrow> (time \<times> br_op) list \<Rightarrow> spec_breaker
   \<Rightarrow> bool list \<times> spec_breaker" where
  "spec_run th w c [] s = ([], s)"
| "spec_run th w c (e # es) s =
     (let (g, s') = spec_step th w c e s; (gs, s'') = spec_run th w c es s' in (g # gs, s''))"

lemma spec_run_Cons [simp]:
  "spec_run th w c (e # es) s =
     (fst (spec_step th w c e s) # fst (spec_run th w c es (snd (spec_step th w c e s))),
      snd (spec_run th w c es (snd (spec_step th w c e s))))"
  by (simp add: case_prod_beta)

declare spec_run.simps(2) [simp del]

fun br_sim :: "breaker \<Rightarrow> spec_breaker \<Rightarrow> bool" where
  "br_sim b (Counting ts) \<longleftrightarrow>
     br_state b = breakerClosed \<and> failures b = int (length ts) \<and> (ts \<noteq> [] \<longrightarrow> firstFail b = hd ts)"
| "br_sim b (Opened t) \<longleftrightarrow> br_state b = breakerOpen \<and> openedAt b = t"
| "br_sim b Probing \<longleftrightarrow> br_state b = breakerHalfOpen"

lemma br_sim_allow:
  assumes "br_sim b s"
  shows "fst (allow t b) = fst (spec_allow (cooldown b) t s)"
    and "br_sim (snd (allow t b)) (snd (spec_allow (cooldown b) t s))"
  using assms by (cases s; simp add: allow_def)+

lemma br_sim_failure:
  assumes "br_sim b s"
  shows "br_sim (failure t b) (spec_failure (threshold b) (window b) t s)"
proof (cases s)
  case (Counting ts)
  with assms show ?thesis by (cases ts) (auto simp: failure_def Let_def)
qed (use assms in \<open>simp_all add: failure_def\<close>)

lemma br_sim_step:
  assumes "br_sim b s"
  shows "fst (br_step e b) = fst (spec_step (threshold b) (window b) (cooldown b) e s)"
    and "br_sim (snd (br_step e b)) (snd (spec_step (threshold b) (window b) (cooldown b) e s))"
  using br_sim_allow [OF assms] br_sim_failure [OF assms]
  by (cases e; cases "snd e"; auto simp: success_def Let_def)+

lemma br_sim_run:
  "br_sim b s \<Longrightarrow> threshold b = th \<Longrightarrow> window b = w \<Longrightarrow> cooldown b = c
   \<Longrightarrow> fst (br_run es b) = fst (spec_run th w c es s)
       \<and> br_sim (snd (br_run es b)) (snd (spec_run th w c es s))"
proof (induction es arbitrary: b s)
  case Nil
  then show ?case by simp
next
  case (Cons e es)
  define b' where "b' = snd (br_step e b)"
  define s' where "s' = snd (spec_step th w c e s)"
  have cfg: "threshold b' = th" "window b' = w" "cooldown b' = c"
    using same_config_step [of b "fst e" "snd e"] Cons.prems by (simp_all add: b'_def same_config_def)
  have "br_sim b' s'" and out: "fst (br_step e b) = fst (spec_step th w c e s)"
    using br_sim_step [OF Cons.prems(1), of e] Cons.prems(2-) by (simp_all add: b'_def s'_def)
  with Cons.IH [OF this(1) cfg] show ?case
    by (simp add: b'_def s'_def)
qed

section \<open>One probe per open period\<close>

text \<open>
  The interface a caller of a gate relies on: while the gate is shut, a granted request makes it
  \<open>probing\<close>, and a probing gate refuses every request and does not change.
\<close>

locale probe_gate =
  fixes request :: "'t \<Rightarrow> 'b \<Rightarrow> bool \<times> 'b"
    and shut :: "'b \<Rightarrow> bool"
    and probing :: "'b \<Rightarrow> bool"
  assumes refuse_same: "shut b \<Longrightarrow> \<not> fst (request t b) \<Longrightarrow> snd (request t b) = b"
    and grant_probing: "shut b \<Longrightarrow> fst (request t b) \<Longrightarrow> probing (snd (request t b))"
    and probing_refuses: "probing b \<Longrightarrow> request t b = (False, b)"
begin

lemma probing_grants: "probing b \<Longrightarrow> grants request ts b = replicate (length ts) False"
  by (induction ts) (simp_all add: probing_refuses)

lemma shut_grants_once: "shut b \<Longrightarrow> length (filter id (grants request ts b)) \<le> 1"
proof (induction ts)
  case (Cons t ts)
  show ?case
  proof (cases "fst (request t b)")
    case True
    with grant_probing [OF Cons.prems True] show ?thesis
      by (simp add: probing_grants)
  next
    case False
    with refuse_same [OF Cons.prems False] Cons show ?thesis
      by simp
  qed
qed simp

end

interpretation gate: probe_gate allow "\<lambda>b. br_state b \<noteq> breakerClosed"
  "\<lambda>b. br_state b = breakerHalfOpen"
  by unfold_locales (auto simp: allow_def split: breakerState.splits if_splits)

section \<open>Runs of failures\<close>

definition fail_all :: "time list \<Rightarrow> breaker \<Rightarrow> breaker" where
  "fail_all ts b = snd (br_run (map (\<lambda>t. (t, Failure)) ts) b)"

lemma fail_all_simps [simp]:
  "fail_all [] b = b"
  "fail_all (t # ts) b = fail_all ts (failure t b)"
  by (simp_all add: fail_all_def)

lemma fail_all_open: "br_state b = breakerOpen \<Longrightarrow> fail_all ts b = b"
  by (induction ts) (simp_all add: failure_def)

text \<open>A run within the window counts up until it reaches the threshold.\<close>

lemma fail_all_counting:
  assumes "br_state b = breakerClosed" and "0 < failures b" and "failures b < max 2 (threshold b)"
    and "\<forall>t\<in>set ts. time_Sub t (firstFail b) \<le> window b"
  shows "br_state (fail_all ts b) =
           (if failures b + int (length ts) \<ge> max 2 (threshold b) then breakerOpen else breakerClosed)
       \<and> (failures b + int (length ts) \<ge> max 2 (threshold b) \<longrightarrow>
            openedAt (fail_all ts b) = ts ! nat (max 2 (threshold b) - failures b - 1))"
  using assms
proof (induction ts arbitrary: b)
  case Nil
  then show ?case by (auto simp: max_def split: if_splits)
next
  case (Cons t ts)
  let ?b = "failure t b"
  have step: "?b = (if failures b + 1 \<ge> threshold b
      then b\<lparr>failures := failures b + 1, br_state := breakerOpen, openedAt := t\<rparr>
      else b\<lparr>failures := failures b + 1\<rparr>)"
    using Cons.prems by (auto simp: failure_def Let_def)
  show ?case
  proof (cases "failures b + 1 \<ge> threshold b")
    case True
    then have eq: "max 2 (threshold b) = failures b + 1" using Cons.prems by auto
    have "br_state ?b = breakerOpen" using True by (simp add: step)
    then show ?thesis using True eq by (simp add: fail_all_open step)
  next
    case False
    let ?m = "max 2 (threshold b)"
    from False have m: "failures b + 1 < ?m" by simp
    have IH: "br_state (fail_all ts ?b) =
           (if failures b + 1 + int (length ts) \<ge> ?m then breakerOpen else breakerClosed)
       \<and> (failures b + 1 + int (length ts) \<ge> ?m \<longrightarrow>
            openedAt (fail_all ts ?b) = ts ! nat (?m - (failures b + 1) - 1))"
      using Cons.IH [of ?b] Cons.prems False m by (simp add: step)
    have "(t # ts) ! nat (?m - failures b - 1) = ts ! nat (?m - (failures b + 1) - 1)"
    proof -
      have "nat (?m - failures b - 1) = Suc (nat (?m - (failures b + 1) - 1))" using m by linarith
      then show ?thesis by simp
    qed
    with IH show ?thesis by (simp add: algebra_simps)
  qed
qed

text \<open>Failures that are more than a window apart each start a new run.\<close>

lemma fail_all_spaced:
  assumes "br_state b = breakerClosed" and "successively (\<lambda>t u. time_Sub u t > window b) ts"
    and "ts = [] \<or> failures b = 0 \<or> time_Sub (hd ts) (firstFail b) > window b"
  shows "br_state (fail_all ts b) = breakerClosed"
  using assms
proof (induction ts arbitrary: b)
  case Nil
  then show ?case by simp
next
  case (Cons t ts)
  have step: "failure t b = b\<lparr>firstFail := t, failures := 1\<rparr>"
    using Cons.prems by (auto simp: failure_def)
  show ?case
    using Cons.IH [of "failure t b"] Cons.prems
    by (cases ts) (simp_all add: step)
qed

text \<open>While it is open and the cooldown lasts, nothing but a success changes the breaker.\<close>

lemma open_stays:
  assumes "br_state b = breakerOpen"
    and "\<forall>(t, e)\<in>set es. time_Sub t (openedAt b) < cooldown b \<and> e \<noteq> Success"
  shows "br_run es b = (replicate (length es) False, b)"
  using assms
proof (induction es)
  case (Cons x es)
  obtain t e where x: "x = (t, e)" by fastforce
  have "br_step x b = (False, b)"
    using Cons.prems x by (cases e) (auto simp: allow_def failure_def)
  with Cons show ?case by auto
qed simp

section \<open>Properties\<close>

text \<open>
  C3: what any sequence of \<open>allow\<close>, \<open>success\<close> and \<open>failure\<close> calls observes of a new
  breaker is what the specification by lists of failure instants says, and the record still stands
  for the specification's state after it.
\<close>

theorem breaker_refines_spec:
  "fst (br_run es (newBreaker th w c)) = fst (spec_run th w c es (Counting []))
   \<and> br_sim (snd (br_run es (newBreaker th w c))) (snd (spec_run th w c es (Counting [])))"
  by (rule br_sim_run) (simp_all add: newBreaker_def)

text \<open>
  Every breaker that callers can bring about keeps its configuration and the invariant: it is
  closed exactly while it counts fewer failures than the threshold (and than two), and its
  recorded instants are not in the future.
\<close>

theorem breaker_reachable_invariant:
  assumes "breaker_reach th w c t b"
  shows "breaker_inv t b \<and> threshold b = th \<and> window b = w \<and> cooldown b = c"
  using breaker_reach_inv [OF assms] breaker_reach_config [OF assms] by simp

theorem breaker_reachable_invariant_witness:
  "breaker_inv 7 (failure 7 (newBreaker 3 30 60)) \<and> threshold (failure 7 (newBreaker 3 30 60)) = 3"
proof -
  have "breaker_reach 3 30 60 7 (snd (br_step (7, Failure) (newBreaker 3 30 60)))"
    by (rule breaker_reach.oper) (rule breaker_reach.start)
  from breaker_reachable_invariant [OF this] show ?thesis by simp
qed

text \<open>
  A breaker that is not closed grants at most one proxy attempt however many callers ask and
  whenever they ask, until an attempt is reported: one open period has one half-open probe.
\<close>

theorem breaker_single_probe:
  assumes "br_state b \<noteq> breakerClosed"
  shows "length (filter id (grants allow ts b)) \<le> 1"
  using assms by (rule gate.shut_grants_once)

theorem breaker_single_probe_witness:
  "grants allow [10, 61, 62, 500] (fail_all [0, 0, 0] (newBreaker 3 30 60)) = [False, True, False, False]
   \<and> length (filter id (grants allow [10, 61, 62, 500] (fail_all [0, 0, 0] (newBreaker 3 30 60)))) \<le> 1"
proof -
  have "br_state (fail_all [0, 0, 0] (newBreaker 3 30 60)) \<noteq> breakerClosed"
    by (simp add: newBreaker_def failure_def time_Sub_def minDuration_def maxDuration_def)
  from breaker_single_probe [OF this] show ?thesis
    by (simp add: newBreaker_def failure_def allow_def time_Sub_def minDuration_def maxDuration_def)
qed

text \<open>
  Consecutive failures within one window of the first open a new breaker exactly when there are
  at least \<open>threshold\<close> of them and at least two, and it counts as opened at the failure that
  completed the threshold. A threshold of one therefore opens at the second failure.
\<close>

theorem breaker_opens_at_threshold:
  assumes "\<forall>t\<in>set ts. time_Sub t t0 \<le> w"
  shows "br_state (fail_all (t0 # ts) (newBreaker th w c)) =
           (if int (length (t0 # ts)) \<ge> max 2 th then breakerOpen else breakerClosed)
       \<and> (int (length (t0 # ts)) \<ge> max 2 th \<longrightarrow>
            openedAt (fail_all (t0 # ts) (newBreaker th w c)) = (t0 # ts) ! nat (max 2 th - 1))"
proof -
  let ?b = "(newBreaker th w c)\<lparr>firstFail := t0, failures := 1\<rparr>"
  have b: "failure t0 (newBreaker th w c) = ?b" by (simp add: newBreaker_def failure_def)
  have "nat (max 2 th - 1) = Suc (nat (max 2 th - 1 - 1))" by linarith
  then have "ts ! nat (max 2 th - 1 - 1) = (t0 # ts) ! nat (max 2 th - 1)" by simp
  with fail_all_counting [of ?b ts] assms show ?thesis
    by (simp add: b) (simp add: newBreaker_def algebra_simps)
qed

theorem breaker_opens_at_threshold_witness:
  "br_state (fail_all [5] (newBreaker 1 30 60)) = breakerClosed
   \<and> br_state (fail_all [5, 8] (newBreaker 1 30 60)) = breakerOpen
   \<and> openedAt (fail_all [5, 8, 9] (newBreaker 3 30 60)) = 9"
  using breaker_opens_at_threshold [of "[]" 5 30 1 60]
    breaker_opens_at_threshold [of "[8]" 5 30 1 60]
    breaker_opens_at_threshold [of "[8, 9]" 5 30 3 60]
  by (simp add: time_Sub_def minDuration_def maxDuration_def)

text \<open>
  Failures that are each more than one window after the previous one never open the breaker,
  whatever the threshold, because each of them starts a new run. With the default options the
  refresh loop reports its failures five minutes apart and the window is thirty seconds.
\<close>

theorem breaker_spaced_failures_never_open:
  assumes "successively (\<lambda>t u. time_Sub u t > w) ts"
  shows "br_state (fail_all ts (newBreaker th w c)) = breakerClosed"
  using assms by (intro fail_all_spaced) (simp_all add: newBreaker_def)

theorem breaker_spaced_failures_never_open_witness:
  "br_state (fail_all [0, 300, 600, 900] (newBreaker 3 30 60)) = breakerClosed"
  by (rule breaker_spaced_failures_never_open)
    (simp add: time_Sub_def minDuration_def maxDuration_def)

end
