(* ===== verification/Json_Value.thy ===== *)
theory Json_Value
  imports Prelude "HOL-Library.Multiset"
begin

text \<open>
  Dynamic values (Go's \<open>any\<close> as the SDK uses it) and the part of package \<open>encoding/json\<close>
  the source calls on them: \<open>json.Marshal\<close> with its string escaping, its key sorting and its
  failures. A map is an association list in one iteration order; \<open>same_val\<close> relates two
  presentations of the same value. Marshalling does not depend on the presentation.
\<close>

section \<open>Dynamic values\<close>

text \<open>
  \<open>GMap\<close> is \<open>map[string]any\<close> and \<open>GList\<close> is \<open>[]any\<close>. \<open>GFloat\<close> carries the text
  that \<open>encoding/json\<close> prints for a finite float64. \<open>GTyped\<close> is a value of another Go type
  (a \<open>[]string\<close>, a \<open>map[string]string\<close>, a struct), given by its generic JSON view.
  \<open>GBad\<close> is a value \<open>encoding/json\<close> refuses (NaN, an infinity, a channel, a function).
\<close>

datatype gval =
    GNil
  | GBool bool
  | GInt int
  | GFloat string
  | GStr string
  | GList "gval list"
  | GMap "(string \<times> gval) list"
  | GTyped gval
  | GBad

text \<open>Two presentations of one value: maps are equal as functions, slices element by element.\<close>

inductive same_val :: "gval \<Rightarrow> gval \<Rightarrow> bool" where
  same_refl: "same_val v v"
| same_list: "list_all2 same_val vs ws \<Longrightarrow> same_val (GList vs) (GList ws)"
| same_map: "go_map m \<Longrightarrow> go_map m' \<Longrightarrow> fst ` set m = fst ` set m' \<Longrightarrow>
    (\<And>k v w. map_of m k = Some v \<Longrightarrow> map_of m' k = Some w \<Longrightarrow> same_val v w) \<Longrightarrow>
    same_val (GMap m) (GMap m')"
| same_typed: "same_val v w \<Longrightarrow> same_val (GTyped v) (GTyped w)"

section \<open>Strings\<close>

text \<open>
  \<open>utf8.DecodeRune\<close>: the number of bytes of the rune at the head of a byte string, 0 when the
  head is not a valid encoding of a rune beyond ASCII.
\<close>

definition in_range :: "nat \<Rightarrow> nat \<Rightarrow> char \<Rightarrow> bool" where
  "in_range lo hi c \<longleftrightarrow> lo \<le> of_char c \<and> of_char c \<le> hi"

abbreviation cont :: "char \<Rightarrow> bool" where
  "cont \<equiv> in_range 128 191"

definition utf8_len :: "string \<Rightarrow> nat" where
  "utf8_len s =
     (case s of
        a # b # r \<Rightarrow>
          (if in_range 194 223 a \<and> cont b then 2
           else (case r of
             c # r' \<Rightarrow>
               (if (in_range 224 224 a \<and> in_range 160 191 b \<or> in_range 225 236 a \<and> cont b
                    \<or> in_range 237 237 a \<and> in_range 128 159 b \<or> in_range 238 239 a \<and> cont b)
                   \<and> cont c then 3
                else (case r' of
                  d # _ \<Rightarrow>
                    (if (in_range 240 240 a \<and> in_range 144 191 b \<or> in_range 241 243 a \<and> cont b
                         \<or> in_range 244 244 a \<and> in_range 128 143 b)
                        \<and> cont c \<and> cont d then 4 else 0)
                | [] \<Rightarrow> 0))
           | [] \<Rightarrow> 0))
      | _ \<Rightarrow> 0)"

definition hex_digit :: "nat \<Rightarrow> char" where
  "hex_digit n = ''0123456789abcdef'' ! (n mod 16)"

definition backslash :: char where
  "backslash = CHR 0x5C"

definition quote :: char where
  "quote = CHR 0x22"

text \<open>The escape of one ASCII byte, HTML characters included.\<close>

definition esc_ascii :: "char \<Rightarrow> string" where
  "esc_ascii c =
     (if c = backslash \<or> c = quote then [backslash, c]
      else if c = CHR 0x08 then [backslash, CHR ''b'']
      else if c = CHR 0x0C then [backslash, CHR ''f'']
      else if c = CHR 0x0A then [backslash, CHR ''n'']
      else if c = CHR 0x0D then [backslash, CHR ''r'']
      else if c = CHR 0x09 then [backslash, CHR ''t'']
      else if of_char c < (32::nat) \<or> c \<in> set ''<>&''
      then backslash # ''u00'' @ [hex_digit (of_char c div 16), hex_digit (of_char c)]
      else [c])"

definition line_sep :: "string list" where
  "line_sep = [map char_of [226, 128, 168::nat], map char_of [226, 128, 169::nat]]"

function json_chars :: "string \<Rightarrow> string" where
  "json_chars [] = []"
| "json_chars (c # s) =
     (if of_char c < (128::nat) then esc_ascii c @ json_chars s
      else let n = utf8_len (c # s) in
        if n = 0 then backslash # ''ufffd'' @ json_chars s
        else if take n (c # s) = line_sep ! 0 then backslash # ''u2028'' @ json_chars (drop n (c # s))
        else if take n (c # s) = line_sep ! 1 then backslash # ''u2029'' @ json_chars (drop n (c # s))
        else take n (c # s) @ json_chars (drop n (c # s)))"
  by pat_completeness auto
termination
  by (relation "measure length") (auto simp: Let_def)

declare json_chars.simps(2) [simp del]

definition json_string :: "string \<Rightarrow> string" where
  "json_string s = quote # json_chars s @ [quote]"

section \<open>Numbers, arrays and objects\<close>

text \<open>\<open>strconv.AppendInt\<close> in base ten.\<close>

fun dec_nat :: "nat \<Rightarrow> string" where
  "dec_nat n = (if n < 10 then [char_of (48 + n)] else dec_nat (n div 10) @ [char_of (48 + n mod 10)])"

declare dec_nat.simps [simp del]

definition dec_int :: "int \<Rightarrow> string" where
  "dec_int i = (if i < 0 then CHR ''-'' # dec_nat (nat (- i)) else dec_nat (nat i))"

fun join_with :: "char \<Rightarrow> string list \<Rightarrow> string" where
  "join_with c [] = []"
| "join_with c [x] = x"
| "join_with c (x # xs) = x @ c # join_with c xs"

definition json_array :: "string list \<Rightarrow> string" where
  "json_array xs = CHR ''['' # join_with (CHR '','') xs @ '']''"

definition json_object :: "(string \<times> string) list \<Rightarrow> string" where
  "json_object ms =
     CHR ''{'' # join_with (CHR '','') (map (\<lambda>(k, v). json_string k @ CHR '':'' # v) ms) @ ''}''"

text \<open>The value of every member, or the failure of the first that fails.\<close>

fun members :: "(string \<times> string option) list \<Rightarrow> (string \<times> string) list option" where
  "members [] = Some []"
| "members ((k, v) # ms) =
     (case v of None \<Rightarrow> None | Some s \<Rightarrow> map_option ((#) (k, s)) (members ms))"

fun all_some :: "'a option list \<Rightarrow> 'a list option" where
  "all_some [] = Some []"
| "all_some (x # xs) = (case x of None \<Rightarrow> None | Some a \<Rightarrow> map_option ((#) a) (all_some xs))"

text \<open>\<open>json.Marshal\<close>; \<open>None\<close> is its error. A map is printed with its keys sorted.\<close>

fun marshal :: "gval \<Rightarrow> string option" where
  "marshal GNil = Some ''null''"
| "marshal (GBool b) = Some (if b then ''true'' else ''false'')"
| "marshal (GInt i) = Some (dec_int i)"
| "marshal (GFloat t) = Some t"
| "marshal (GStr s) = Some (json_string s)"
| "marshal (GList vs) = map_option json_array (all_some (map marshal vs))"
| "marshal (GMap m) =
     map_option json_object (members (sort_key fst (map (\<lambda>kv. (fst kv, marshal (snd kv))) m)))"
| "marshal (GTyped v) = marshal v"
| "marshal GBad = None"

section \<open>Marshalling does not depend on the presentation of a map\<close>

text \<open>Every map inside the value has distinct keys, as a Go map has.\<close>

fun wf_val :: "gval \<Rightarrow> bool" where
  "wf_val (GList vs) = list_all wf_val vs"
| "wf_val (GMap m) = (go_map m \<and> list_all (\<lambda>kv. wf_val (snd kv)) m)"
| "wf_val (GTyped v) = wf_val v"
| "wf_val _ = True"

lemma map_fst_sort_key: "map fst (sort_key fst m) = sort (map fst (m :: ('k::linorder \<times> 'v) list))"
  by (rule properties_for_sort [symmetric]) (simp_all add: mset_map)

lemma map_lookup_keys:
  assumes "go_map m" and "set xs \<subseteq> set m"
  shows "map (\<lambda>k. (k, the (map_of m k))) (map fst xs) = xs"
  using assms by (induction xs) (auto simp: go_map_def)

text \<open>The sorted entries of a map are its sorted keys, each looked up.\<close>

lemma sort_key_fst_eq:
  fixes m :: "('k::linorder \<times> 'v) list"
  assumes "go_map m"
  shows "sort_key fst m = map (\<lambda>k. (k, the (map_of m k))) (sort (map fst m))"
  using map_lookup_keys [OF assms, of "sort_key fst m"] by (simp add: map_fst_sort_key)

lemma go_map_map_snd [simp]: "go_map (map (\<lambda>kv. (fst kv, f (snd kv))) m) = go_map m"
  by (simp add: go_map_def o_def)

lemma map_of_map_snd: "map_of (map (\<lambda>kv. (fst kv, f (snd kv))) m) k = map_option f (map_of m k)"
  by (induction m) auto

lemma keys_map_snd [simp]: "map fst (map (\<lambda>kv. (fst kv, f (snd kv))) m) = map fst m"
  by simp

lemma sort_key_map_snd:
  fixes m :: "(string \<times> 'a) list"
  shows "map (\<lambda>kv. (fst kv, f (snd kv))) (sort_key fst m) = sort_key fst (map (\<lambda>kv. (fst kv, f (snd kv))) m)"
proof (induction m)
  case (Cons kv m)
  have "map (\<lambda>kv. (fst kv, f (snd kv))) (insort_key fst kv xs)
      = insort_key fst (fst kv, f (snd kv)) (map (\<lambda>kv. (fst kv, f (snd kv))) xs)" for xs
    by (induction xs) auto
  with Cons show ?case by simp
qed simp

lemma map_of_key: "k \<in> fst ` set m \<Longrightarrow> \<exists>v. map_of m k = Some v"
  using map_of_eq_None_iff [of m k] by (cases "map_of m k") auto

lemma sorted_members_cong:
  fixes m m' :: "(string \<times> gval) list"
  assumes "go_map m" and "go_map m'" and keys: "fst ` set m = fst ` set m'"
    and vals: "\<And>k v w. map_of m k = Some v \<Longrightarrow> map_of m' k = Some w \<Longrightarrow> f v = g w"
  shows "sort_key fst (map (\<lambda>kv. (fst kv, f (snd kv))) m)
    = sort_key fst (map (\<lambda>kv. (fst kv, g (snd kv))) m')"
proof -
  have lookup: "map_option f (map_of m k) = map_option g (map_of m' k)" if key: "k \<in> fst ` set m" for k
  proof -
    obtain v where v: "map_of m k = Some v" using map_of_key [OF key] by blast
    obtain w where w: "map_of m' k = Some w" using map_of_key [OF key [unfolded keys]] by blast
    show ?thesis using vals [OF v w] by (simp add: v w)
  qed
  have "sort_key fst (map (\<lambda>kv. (fst kv, f (snd kv))) m)
      = map (\<lambda>k. (k, the (map_option f (map_of m k)))) (sort (map fst m))"
    using assms(1) sort_key_fst_eq [of "map (\<lambda>kv. (fst kv, f (snd kv))) m"]
    by (simp add: map_of_map_snd o_def)
  also have "\<dots> = map (\<lambda>k. (k, the (map_option g (map_of m' k)))) (sort (map fst m'))"
    by (rule map_cong [OF sorted_keys_unique [OF assms(1,2) keys]]) (simp add: lookup keys)
  also have "\<dots> = sort_key fst (map (\<lambda>kv. (fst kv, g (snd kv))) m')"
    using assms(2) sort_key_fst_eq [of "map (\<lambda>kv. (fst kv, g (snd kv))) m'"]
    by (simp add: map_of_map_snd o_def)
  finally show ?thesis .
qed

lemma marshal_same_val: "same_val v w \<Longrightarrow> marshal v = marshal w"
proof (induction rule: same_val.induct)
  case (same_list vs ws)
  then have "map marshal vs = map marshal ws"
    by (auto simp: list_all2_conv_all_nth intro: nth_equalityI)
  then show ?case by simp
next
  case (same_map m m')
  then show ?case using sorted_members_cong [of m m' marshal marshal] by auto
qed simp_all

end
