(* ===== verification/Tool.thy ===== *)
theory Tool
  imports Json_Value
begin

text \<open>
  The wire types of the SDK (worker/tool.go, worker/jobargs.go): assets, findings, jobs, results,
  health reports and the job arguments of the queue, and the error classes a tool returns with the
  classifiers the runtime applies to them. A \<open>uuid\<close> is represented by its canonical text.
  A \<open>map[string]any\<close> that may be nil is an optional association list.
\<close>

section \<open>Data\<close>

type_synonym uuid = string
type_synonym gmap = "(string \<times> gval) list"
type_synonym severity = string

definition SeverityInfo :: severity where "SeverityInfo = ''info''"
definition SeverityLow :: severity where "SeverityLow = ''low''"
definition SeverityMedium :: severity where "SeverityMedium = ''medium''"
definition SeverityHigh :: severity where "SeverityHigh = ''high''"
definition SeverityCritical :: severity where "SeverityCritical = ''critical''"

record asset =
  as_ID :: string
  as_ScopeID :: string
  as_Kind :: string
  as_Value :: string
  as_ParentID :: string
  as_Attrs :: "gmap option"
  as_State :: string

record finding =
  fi_Kind :: string
  fi_Severity :: severity
  fi_Title :: string
  fi_Data :: "gmap option"

record healthReport =
  hr_Status :: string
  hr_Class :: string
  hr_Message :: string
  hr_Extra :: "gmap option"

record secretFeedback =
  sf_ExpiresAt :: "time option"
  sf_QuotaRemaining :: "int option"
  sf_QuotaLimit :: "int option"

record job =
  jb_ID :: int
  jb_RunID :: string
  jb_ScopeID :: string
  jb_Phase :: string
  jb_Asset :: asset
  jb_Priority :: int
  jb_Deadline :: time
  jb_TraceID :: string
  jb_ForceFresh :: bool
  jb_APIKey :: string
  jb_APIKeyID :: string

record tool_result =
  re_NewAssets :: "asset list"
  re_Findings :: "finding list"
  re_AssetUpdate :: "gmap option"
  re_Stats :: "gmap option"
  re_SecretFeedback :: "secretFeedback option"

definition JobKind :: string where
  "JobKind = ''reconmesh.cascade.v1''"

record cascadeArgs =
  ca_ScopeID :: uuid
  ca_AssetID :: uuid
  ca_Phase :: string
  ca_RunID :: uuid
  ca_EventType :: string
  ca_ForceFresh :: bool
  ca_APIKeyID :: "uuid option"

definition cascadeArgs_Kind :: "cascadeArgs \<Rightarrow> string" where
  "cascadeArgs_Kind a = JobKind"

section \<open>Errors\<close>

text \<open>
  A Go error value, by what the runtime can observe of it: the SDK's own error types, an error of
  \<open>fmt.Errorf\<close> or \<open>errors.New\<close> with its text and the error it wraps (\<open>%w\<close>), and an
  error type of a tool, with the marker methods it has.
\<close>

datatype go_error =
    TransientErr
  | FatalErr
  | HealthError string string
  | ErrorText string "go_error option"
  | ToolError string bool bool "go_error option"

definition NewHealthError :: "string \<Rightarrow> string \<Rightarrow> go_error" where
  "NewHealthError class message = HealthError class message"

definition HealthError_Error :: "string \<Rightarrow> string \<Rightarrow> string" where
  "HealthError_Error class message = (if class = [] then message else class @ '': '' @ message)"

fun error_Error :: "go_error \<Rightarrow> string" where
  "error_Error TransientErr = ''transient''"
| "error_Error FatalErr = ''fatal''"
| "error_Error (HealthError c m) = HealthError_Error c m"
| "error_Error (ErrorText t _) = t"
| "error_Error (ToolError t _ _ _) = t"

fun IsTransient :: "go_error option \<Rightarrow> bool" where
  "IsTransient (Some TransientErr) = True"
| "IsTransient (Some (ToolError _ tr _ _)) = tr"
| "IsTransient _ = False"

fun IsFatal :: "go_error option \<Rightarrow> bool" where
  "IsFatal (Some FatalErr) = True"
| "IsFatal (Some (ToolError _ _ fa _)) = fa"
| "IsFatal _ = False"

text \<open>\<open>errors.Unwrap\<close>, and \<open>errors.As\<close> with a \<open>*HealthError\<close> target.\<close>

fun unwrap :: "go_error \<Rightarrow> go_error option" where
  "unwrap (ErrorText _ e) = e"
| "unwrap (ToolError _ _ _ e) = e"
| "unwrap _ = None"

fun as_HealthError :: "go_error \<Rightarrow> (string \<times> string) option" where
  "as_HealthError (HealthError c m) = Some (c, m)"
| "as_HealthError (ErrorText _ (Some e)) = as_HealthError e"
| "as_HealthError (ToolError _ _ _ (Some e)) = as_HealthError e"
| "as_HealthError _ = None"

text \<open>\<open>fmt.Errorf (p + ": %w", e)\<close>.\<close>

definition errorf_w :: "string \<Rightarrow> go_error \<Rightarrow> go_error" where
  "errorf_w p e = ErrorText (p @ '': '' @ error_Error e) (Some e)"

inductive error_chain :: "go_error \<Rightarrow> go_error \<Rightarrow> bool" where
  chain_refl: "error_chain e e"
| chain_step: "unwrap e = Some e' \<Longrightarrow> error_chain e' e'' \<Longrightarrow> error_chain e e''"

lemma as_HealthError_unwrap:
  "(\<nexists>c m. e = HealthError c m) \<Longrightarrow> unwrap e = Some e' \<Longrightarrow> as_HealthError e = as_HealthError e'"
  by (cases e) auto

lemma as_HealthError_chain:
  "as_HealthError e = Some (c, m) \<Longrightarrow> error_chain e (HealthError c m)"
proof (induction e rule: as_HealthError.induct)
  case (2 t e)
  then show ?case by (auto intro: chain_step)
next
  case (3 t tr fa e)
  then show ?case by (auto intro: chain_step)
qed (auto intro: chain_refl)

lemma chain_as_HealthError:
  "error_chain e e' \<Longrightarrow> e' = HealthError c m \<Longrightarrow> as_HealthError e \<noteq> None"
proof (induction rule: error_chain.induct)
  case (chain_step e e1 e2)
  then show ?case using as_HealthError_unwrap [of e e1] by (cases "\<exists>c m. e = HealthError c m") auto
qed simp

text \<open>The runtime finds a health error anywhere in the chain of wrapped errors, and only there.\<close>

theorem health_error_found_iff_in_chain:
  "as_HealthError e \<noteq> None \<longleftrightarrow> (\<exists>c m. error_chain e (HealthError c m))"
  using as_HealthError_chain [of e] chain_as_HealthError [of e] by (cases "as_HealthError e") fastforce+

end
