(* ===== verification/Sha256.thy ===== *)
theory Sha256
  imports Prelude "HOL-Library.Word"
begin

text \<open>
  Package \<open>crypto/sha256\<close> as the source calls it: the compression function, the padding and
  the digest of a byte string, over 32-bit words. \<open>be32\<close> and \<open>be64\<close> are the big-endian
  encodings of \<open>encoding/binary\<close>; that they lose nothing is what length framing relies on.
\<close>

unbundle bit_operations_syntax

type_synonym u32 = "32 word"

text \<open>
  The constants: the first 32 bits of the fractional parts of the cube roots of the first 64 primes, and
  of the square roots of the first eight. \<open>root_bits\<close> finds an integer root bit by bit.
\<close>

fun root_bits :: "nat \<Rightarrow> nat \<Rightarrow> nat \<Rightarrow> nat \<Rightarrow> nat" where
  "root_bits k n 0 r = r"
| "root_bits k n (Suc i) r = root_bits k n i (if (r + 2 ^ i) ^ k \<le> n then r + 2 ^ i else r)"

definition frac_root :: "nat \<Rightarrow> nat \<Rightarrow> u32" where
  "frac_root k p = word_of_nat (root_bits k (p * 2 ^ (32 * k)) 36 0)"

definition primes64 :: "nat list" where
  "primes64 = [2, 3, 5, 7, 11, 13, 17, 19, 23, 29, 31, 37, 41, 43, 47, 53, 59, 61, 67, 71, 73, 79, 83, 89, 97,
    101, 103, 107, 109, 113, 127, 131, 137, 139, 149, 151, 157, 163, 167, 173, 179, 181, 191, 193,
    197, 199, 211, 223, 227, 229, 233, 239, 241, 251, 257, 263, 269, 271, 277, 281, 283, 293, 307,
    311]"

definition sha_K :: "u32 list" where
  "sha_K = map (frac_root 3) primes64"

definition sha_init :: "u32 list" where
  "sha_init = map (frac_root 2) (take 8 primes64)"

definition rotr32 :: "nat \<Rightarrow> u32 \<Rightarrow> u32" where
  "rotr32 n x = drop_bit n x OR push_bit (32 - n) x"

definition be32 :: "u32 \<Rightarrow> bytes" where
  "be32 w = map (\<lambda>i. char_of (uint (drop_bit (8 * i) w))) [3, 2, 1, 0]"

definition be64 :: "64 word \<Rightarrow> bytes" where
  "be64 w = map (\<lambda>i. char_of (uint (drop_bit (8 * i) w))) [7, 6, 5, 4, 3, 2, 1, 0]"

definition sha_pad :: "bytes \<Rightarrow> bytes" where
  "sha_pad m = m @ char_of (128::int) # replicate ((119 - length m mod 64) mod 64) (char_of (0::int)) @ be64 (word_of_nat (8 * length m))"

fun be_words :: "bytes \<Rightarrow> u32 list" where
  "be_words (a # b # c # d # r) = (((of_char a * 256 + of_char b) * 256 + of_char c) * 256 + of_char d) # be_words r"
| "be_words _ = []"

fun sha_sched :: "nat \<Rightarrow> u32 list \<Rightarrow> u32 list" where
  "sha_sched 0 w = w"
| "sha_sched (Suc n) w =
    (let s0 = w ! 14; s1 = w ! 1 in
     sha_sched n (((rotr32 17 s1 XOR rotr32 19 s1 XOR drop_bit 10 s1) + w ! 6
        + (rotr32 7 s0 XOR rotr32 18 s0 XOR drop_bit 3 s0) + w ! 15) # w))"

fun sha_rounds :: "(u32 \<times> u32) list \<Rightarrow> u32 list \<Rightarrow> u32 list" where
  "sha_rounds ((k, w) # r) [a, b, c, d, e, f, g, h] =
    (let t1 = h + (rotr32 6 e XOR rotr32 11 e XOR rotr32 25 e) + ((e AND f) XOR (NOT e AND g)) + k + w;
         t2 = (rotr32 2 a XOR rotr32 13 a XOR rotr32 22 a) + ((a AND b) XOR (a AND c) XOR (b AND c))
     in sha_rounds r [t1 + t2, a, b, c, d + t1, e, f, g])"
| "sha_rounds _ st = st"

definition sha_block :: "u32 list \<Rightarrow> u32 list \<Rightarrow> u32 list" where
  "sha_block st ws = map2 (+) st (sha_rounds (zip sha_K (rev (sha_sched 48 (rev ws)))) st)"

fun sha_blocks :: "nat \<Rightarrow> u32 list \<Rightarrow> u32 list \<Rightarrow> u32 list" where
  "sha_blocks 0 st ws = st"
| "sha_blocks (Suc n) st ws = sha_blocks n (sha_block st (take 16 ws)) (drop 16 ws)"

definition sha256 :: "bytes \<Rightarrow> bytes" where
  "sha256 m = (let ws = be_words (sha_pad m) in concat (map be32 (sha_blocks (length ws div 16) sha_init ws)))"

lemma length_be32 [simp]: "length (be32 w) = 4"
  by (simp add: be32_def)

lemma be32_byte:
  assumes "be32 v = be32 w" and "i < 4"
  shows "take_bit 8 (uint (drop_bit (8 * i) v)) = take_bit 8 (uint (drop_bit (8 * i) w))"
proof -
  have "be32 v ! (3 - i) = be32 w ! (3 - i)" by (simp add: assms(1))
  moreover have "be32 u ! (3 - i) = char_of (uint (drop_bit (8 * i) u))" for u
  proof -
    from assms(2) have "i = 0 \<or> i = 1 \<or> i = 2 \<or> i = 3" by linarith
    then show ?thesis unfolding be32_def by (elim disjE) simp_all
  qed
  ultimately have "char_of (uint (drop_bit (8 * i) v)) = (char_of (uint (drop_bit (8 * i) w)) :: char)"
    by simp
  then show ?thesis by (simp add: char_of_eq_iff take_bit_eq_mod)
qed

lemma be32_inject: "be32 v = be32 w \<longleftrightarrow> v = w"
proof
  assume eq: "be32 v = be32 w"
  show "v = w"
  proof (rule bit_word_eqI)
    fix n assume "n < LENGTH(32)"
    then have "n div 8 < 4" by auto
    from be32_byte [OF eq this] have "bit (uint (drop_bit (8 * (n div 8)) v)) (n mod 8)
        = bit (uint (drop_bit (8 * (n div 8)) w)) (n mod 8)"
      by (metis bit_take_bit_iff mod_less_divisor zero_less_numeral)
    moreover have "n mod 8 < 32"
      using mod_less_divisor [of 8 n] by simp
    ultimately show "bit v n = bit w n"
      by (simp add: bit_uint_iff bit_drop_bit_eq)
  qed
qed simp

end
