(* ===== verification/Json_Parse.thy ===== *)
theory Json_Parse
  imports Json_Value
begin

text \<open>
  The reading side of package \<open>encoding/json\<close>: a text to the value it denotes. As in the package a
  text is scanned into tokens, and a pushdown machine with an explicit stack of open arrays and objects
  builds the value, with at most ten thousand levels. A number keeps its text until it is decoded into
  an \<open>any\<close>: then \<open>num\<close> gives the text of the float64 it is read as, and fails when that overflows.
\<close>

section \<open>Strings\<close>

definition hex_val :: "char \<Rightarrow> nat option" where
  "hex_val c =
     (if in_range 48 57 c then Some (of_char c - 48)
      else if in_range 97 102 c then Some (of_char c - 87)
      else if in_range 65 70 c then Some (of_char c - 55)
      else None)"

definition hex4 :: "string \<Rightarrow> nat option" where
  "hex4 s =
     (case map hex_val (take 4 s) of
        [Some a, Some b, Some c, Some d] \<Rightarrow> Some (((a * 16 + b) * 16 + c) * 16 + d)
      | _ \<Rightarrow> None)"

text \<open>\<open>utf8.AppendRune\<close> on a valid rune.\<close>

definition utf8_rune :: "nat \<Rightarrow> string" where
  "utf8_rune r = map char_of
     (if r < 128 then [r]
      else if r < 2048 then [192 + r div 64, 128 + r mod 64]
      else if r < 65536 then [224 + r div 4096, 128 + r div 64 mod 64, 128 + r mod 64]
      else [240 + r div 262144, 128 + r div 4096 mod 64, 128 + r div 64 mod 64, 128 + r mod 64])"

definition replacement :: string where
  "replacement = utf8_rune 65533"

definition simple_escape :: "char \<Rightarrow> string option" where
  "simple_escape c =
     map_of [(quote, [quote]), (backslash, [backslash]), (CHR ''/'', ''/''), (CHR ''b'', [CHR 0x08]), (CHR ''f'', [CHR 0x0C]),
       (CHR ''n'', [CHR 0x0A]), (CHR ''r'', [CHR 0x0D]), (CHR ''t'', [CHR 0x09])] c"

text \<open>
  A \<open>\u\<close> escape: a high surrogate joins a low one that follows as an escape; a lone one is replaced.
  The second component is how much of the text after the backslash it takes.
\<close>

definition unicode_escape :: "string \<Rightarrow> (string \<times> nat) option" where
  "unicode_escape s =
     (case hex4 (drop 1 s) of
        None \<Rightarrow> None
      | Some r \<Rightarrow>
          (if 55296 \<le> r \<and> r < 57344
           then (case (if take 2 (drop 5 s) = [backslash, CHR ''u''] then hex4 (drop 7 s) else None) of
                   Some r' \<Rightarrow>
                     (if r < 56320 \<and> 56320 \<le> r' \<and> r' < 57344
                      then Some (utf8_rune (65536 + (r - 55296) * 1024 + (r' - 56320)), 11)
                      else Some (replacement, 5))
                 | None \<Rightarrow> Some (replacement, 5))
           else Some (utf8_rune r, 5)))"

text \<open>The text of a string literal up to its closing quote, and what follows; \<open>None\<close> is a syntax error.\<close>

function unquote :: "string \<Rightarrow> (string \<times> string) option" where
  "unquote [] = None"
| "unquote (c # s) =
     (if c = quote then Some ([], s)
      else if c = backslash then
        (case s of
           [] \<Rightarrow> None
         | e # s' \<Rightarrow>
             (if e = CHR ''u'' then
                (case unicode_escape s of
                   None \<Rightarrow> None
                 | Some (t, n) \<Rightarrow> map_option (apfst ((@) t)) (unquote (drop n s)))
              else (case simple_escape e of
                   None \<Rightarrow> None
                 | Some t \<Rightarrow> map_option (apfst ((@) t)) (unquote s'))))
      else if of_char c < (32::nat) then None
      else if of_char c < (128::nat) then map_option (apfst ((#) c)) (unquote s)
      else (let n = utf8_len (c # s) in
        if n = 0 then map_option (apfst ((@) replacement)) (unquote s)
        else map_option (apfst ((@) (take n (c # s)))) (unquote (drop n (c # s)))))"
  by pat_completeness auto
termination
  by (relation "measure length") (auto simp: Let_def)

declare unquote.simps(2) [simp del]

section \<open>Tokens\<close>

datatype token =
    TBeginObject | TEndObject | TBeginArray | TEndArray | TColon | TComma
  | TString string | TNumber string | TLiteral gval

abbreviation digit :: "char \<Rightarrow> bool" where
  "digit \<equiv> in_range 48 57"

text \<open>The digits of a fraction or an exponent: at least one, or the number is malformed.\<close>

definition digits1 :: "string \<Rightarrow> (string \<times> string) option" where
  "digits1 s = (if takeWhile digit s = [] then None else Some (takeWhile digit s, dropWhile digit s))"

definition int_part :: "string \<Rightarrow> (string \<times> string) option" where
  "int_part s =
     (case s of
        [] \<Rightarrow> None
      | c # r \<Rightarrow> if c = CHR ''0'' then Some ([c], r) else digits1 s)"

definition frac_part :: "string \<Rightarrow> (string \<times> string) option" where
  "frac_part s =
     (case s of
        [] \<Rightarrow> Some ([], [])
      | c # r \<Rightarrow> if c = CHR ''.'' then map_option (apfst ((#) c)) (digits1 r) else Some ([], s))"

definition exp_part :: "string \<Rightarrow> (string \<times> string) option" where
  "exp_part s =
     (case s of
        [] \<Rightarrow> Some ([], [])
      | c # r \<Rightarrow>
          (if c = CHR ''e'' \<or> c = CHR ''E'' then
             (case r of
                d # r' \<Rightarrow>
                  (if d = CHR ''+'' \<or> d = CHR ''-'' then map_option (apfst (\<lambda>ds. c # d # ds)) (digits1 r')
                   else map_option (apfst ((#) c)) (digits1 r))
              | [] \<Rightarrow> None)
           else Some ([], s)))"

definition scan_number :: "string \<Rightarrow> (string \<times> string) option" where
  "scan_number s =
     (let (sign, s) = (if take 1 s = ''-'' then (''-'', drop 1 s) else ([], s)) in
      case int_part s of
        None \<Rightarrow> None
      | Some (i, s) \<Rightarrow>
          (case frac_part s of
             None \<Rightarrow> None
           | Some (f, s) \<Rightarrow>
               (case exp_part s of
                  None \<Rightarrow> None
                | Some (e, s) \<Rightarrow> Some (sign @ i @ f @ e, s))))"

definition punctuation :: "char \<Rightarrow> token option" where
  "punctuation c = map_of [(CHR ''{'', TBeginObject), (CHR ''}'', TEndObject), (CHR ''['', TBeginArray), (CHR '']'', TEndArray),
     (CHR '':'', TColon), (CHR '','', TComma)] c"

definition scan_literal :: "string \<Rightarrow> (token \<times> string) option" where
  "scan_literal s =
     (if hasPrefix s ''true'' then Some (TLiteral (GBool True), drop 4 s)
      else if hasPrefix s ''false'' then Some (TLiteral (GBool False), drop 5 s)
      else if hasPrefix s ''null'' then Some (TLiteral GNil, drop 4 s)
      else None)"

definition scan_token :: "string \<Rightarrow> (token \<times> string) option" where
  "scan_token s =
     (case s of
        [] \<Rightarrow> None
      | c # r \<Rightarrow>
          (case punctuation c of
             Some t \<Rightarrow> Some (t, r)
           | None \<Rightarrow>
               (if c = quote then map_option (apfst TString) (unquote r)
                else if c = CHR ''-'' \<or> digit c then map_option (apfst TNumber) (scan_number s)
                else scan_literal s)))"

definition white :: "char \<Rightarrow> bool" where
  "white c \<longleftrightarrow> c \<in> {CHR 0x20, CHR 0x09, CHR 0x0D, CHR 0x0A}"

text \<open>Scanning consumes: every token takes at least one byte.\<close>

lemma unquote_shorter: "unquote s = Some (t, r) \<Longrightarrow> length r < length s"
proof (induction s arbitrary: t r rule: unquote.induct)
  case (2 c s)
  note eq = 2(6) [unfolded unquote.simps(2)]
  show ?case
  proof (cases "c = quote")
    case True
    with eq show ?thesis by simp
  next
    case nq: False
    show ?thesis
    proof (cases "c = backslash")
      case bs: True
      then obtain e s' where s: "s = e # s'" using eq nq by (cases s) auto
      show ?thesis
      proof (cases "e = CHR ''u''")
        case True
        then obtain t' n u where e: "unicode_escape s = Some (t', n)" and u: "unquote (drop n s) = Some (u, r)"
          using eq nq bs s by (auto split: option.splits)
        from 2(1) [OF nq bs s True e refl u] show ?thesis by simp
      next
        case False
        then obtain t' u where e: "simple_escape e = Some t'" and u: "unquote s' = Some (u, r)"
          using eq nq bs s by (auto split: option.splits)
        from 2(2) [OF nq bs s False e u] s show ?thesis by simp
      qed
    next
      case nb: False
      have ctl: "\<not> of_char c < (32::nat)" using eq nq nb by auto
      show ?thesis
      proof (cases "of_char c < (128::nat)")
        case True
        then obtain u where u: "unquote s = Some (u, r)" using eq nq nb ctl by auto
        from 2(3) [OF nq nb ctl True u] show ?thesis by simp
      next
        case big: False
        show ?thesis
        proof (cases "utf8_len (c # s) = 0")
          case True
          then obtain u where u: "unquote s = Some (u, r)" using eq nq nb ctl big by (auto simp: Let_def)
          from 2(4) [OF nq nb ctl big refl True u] show ?thesis by simp
        next
          case False
          then obtain u where u: "unquote (drop (utf8_len (c # s)) (c # s)) = Some (u, r)"
            using eq nq nb ctl big by (auto simp: Let_def)
          from 2(5) [OF nq nb ctl big refl False u] show ?thesis by simp
        qed
      qed
    qed
  qed
qed simp

lemma digits1_shorter: "digits1 s = Some (t, r) \<Longrightarrow> length r < length s"
proof (cases s)
  case (Cons c u)
  then show "digits1 s = Some (t, r) \<Longrightarrow> length r < length s"
    using length_dropWhile_le [of digit u] by (auto simp: digits1_def split: if_splits)
qed (simp add: digits1_def)

lemma int_part_shorter: "int_part s = Some (t, r) \<Longrightarrow> length r < length s"
  by (auto simp: int_part_def split: list.splits if_splits dest: digits1_shorter)

lemma frac_part_le: "frac_part s = Some (t, r) \<Longrightarrow> length r \<le> length s"
  by (auto simp: frac_part_def split: list.splits if_splits dest!: digits1_shorter)

lemma exp_part_le: "exp_part s = Some (t, r) \<Longrightarrow> length r \<le> length s"
  by (auto simp: exp_part_def split: list.splits if_splits dest!: digits1_shorter)

lemma scan_number_shorter:
  assumes "scan_number s = Some (t, r)"
  shows "length r < length s"
proof -
  obtain s0 sg where p: "(if take 1 s = ''-'' then (''-'', drop 1 s) else ([], s)) = (sg, s0)" by (rule prod.exhaust)
  then have s0: "length s0 \<le> length s" by (auto split: if_splits)
  obtain i s1 f s2 e where "int_part s0 = Some (i, s1)" "frac_part s1 = Some (f, s2)" "exp_part s2 = Some (e, r)"
    using assms unfolding scan_number_def p by (auto split: option.splits)
  from int_part_shorter [OF this(1)] frac_part_le [OF this(2)] exp_part_le [OF this(3)] s0 show ?thesis by linarith
qed

lemma scan_token_shorter: "scan_token s = Some (t, r) \<Longrightarrow> length r < length s"
  by (auto simp: scan_token_def scan_literal_def hasPrefix_def split: list.splits option.splits if_splits
      dest: unquote_shorter scan_number_shorter)

function tokens :: "string \<Rightarrow> token list option" where
  "tokens s =
     (case dropWhile white s of
        [] \<Rightarrow> Some []
      | c # r \<Rightarrow>
          (case scan_token (c # r) of
             None \<Rightarrow> None
           | Some (t, rest) \<Rightarrow> map_option ((#) t) (tokens rest)))"
  by pat_completeness auto
termination
proof (relation "measure length")
  fix s c r x t rest
  assume "dropWhile white s = c # r" "scan_token (c # r) = Some x" "(t, rest) = x"
  then show "(rest, s) \<in> measure length"
    using scan_token_shorter [of "c # r" t rest] length_dropWhile_le [of white s] by auto
qed simp

declare tokens.simps [simp del]

section \<open>The machine\<close>

text \<open>An open array with its elements so far, or an open object with its members and the latest key.\<close>

datatype frame = InArray "gval list" | InObject "(string \<times> gval) list" string

datatype expect = ExpValue | ExpFirst | ExpKey | ExpFirstKey | ExpColon | ExpNext | ExpEnd gval

fun put_value :: "gval \<Rightarrow> frame list \<Rightarrow> frame list \<times> expect" where
  "put_value v [] = ([], ExpEnd v)"
| "put_value v (InArray vs # st) = (InArray (vs @ [v]) # st, ExpNext)"
| "put_value v (InObject ms k # st) = (InObject (ms @ [(k, v)]) k # st, ExpNext)"

definition max_nesting :: nat where
  "max_nesting = 10000"

definition push :: "frame \<Rightarrow> expect \<Rightarrow> frame list \<Rightarrow> (frame list \<times> expect) option" where
  "push f e st = (if length st < max_nesting then Some (f # st, e) else None)"

fun step_value :: "token \<Rightarrow> frame list \<Rightarrow> (frame list \<times> expect) option" where
  "step_value (TString s) st = Some (put_value (GStr s) st)"
| "step_value (TNumber t) st = Some (put_value (GFloat t) st)"
| "step_value (TLiteral v) st = Some (put_value v st)"
| "step_value TBeginArray st = push (InArray []) ExpFirst st"
| "step_value TBeginObject st = push (InObject [] []) ExpFirstKey st"
| "step_value _ st = None"

fun step_key :: "token \<Rightarrow> frame list \<Rightarrow> (frame list \<times> expect) option" where
  "step_key (TString k) (InObject ms k' # st) = Some (InObject ms k # st, ExpColon)"
| "step_key _ st = None"

fun step_close :: "token \<Rightarrow> frame list \<Rightarrow> (frame list \<times> expect) option" where
  "step_close TEndArray (InArray vs # st) = Some (put_value (GList vs) st)"
| "step_close TEndObject (InObject ms k # st) = Some (put_value (GMap ms) st)"
| "step_close _ st = None"

fun step :: "expect \<Rightarrow> token \<Rightarrow> frame list \<Rightarrow> (frame list \<times> expect) option" where
  "step ExpValue t st = step_value t st"
| "step ExpFirst t st = (if t = TEndArray then step_close t st else step_value t st)"
| "step ExpKey t st = step_key t st"
| "step ExpFirstKey t st = (if t = TEndObject then step_close t st else step_key t st)"
| "step ExpColon t st = (if t = TColon then Some (st, ExpValue) else None)"
| "step ExpNext t st =
     (if t = TComma then (case st of InArray _ # _ \<Rightarrow> Some (st, ExpValue) | InObject _ _ # _ \<Rightarrow> Some (st, ExpKey) | [] \<Rightarrow> None)
      else step_close t st)"
| "step (ExpEnd v) t st = None"

fun machine :: "frame list \<Rightarrow> expect \<Rightarrow> token list \<Rightarrow> gval option" where
  "machine st e [] = (case e of ExpEnd v \<Rightarrow> Some v | _ \<Rightarrow> None)"
| "machine st e (t # ts) = (case step e t st of None \<Rightarrow> None | Some (st', e') \<Rightarrow> machine st' e' ts)"

definition json_parse :: "bytes \<Rightarrow> gval option" where
  "json_parse s = (case tokens s of None \<Rightarrow> None | Some ts \<Rightarrow> machine [] ExpValue ts)"

section \<open>Decoding into dynamic values\<close>

text \<open>
  A value decoded into \<open>any\<close>: numbers become floats, and of members with one name the last counts. The
  parser gives no values but these.
\<close>

definition as_map :: "(string \<times> gval) list \<Rightarrow> (string \<times> gval) list \<Rightarrow> (string \<times> gval) list" where
  "as_map ms old = fold (\<lambda>kv m. map_put m (fst kv) (snd kv)) ms old"

fun to_any :: "(string \<Rightarrow> string option) \<Rightarrow> gval \<Rightarrow> gval option" where
  "to_any num (GFloat t) = map_option GFloat (num t)"
| "to_any num (GList vs) = map_option GList (all_some (map (to_any num) vs))"
| "to_any num (GMap ms) =
     map_option (\<lambda>kvs. GMap (as_map kvs [])) (all_some (map (\<lambda>kv. map_option (Pair (fst kv)) (to_any num (snd kv))) ms))"
| "to_any num (GStr s) = Some (GStr s)"
| "to_any num (GBool b) = Some (GBool b)"
| "to_any num GNil = Some GNil"
| "to_any num v = None"

text \<open>\<open>json.Unmarshal\<close> into a new \<open>map[string]any\<close>; null leaves it nil, which reads as empty.\<close>

definition unmarshal_map :: "(string \<Rightarrow> string option) \<Rightarrow> bytes \<Rightarrow> (string \<times> gval) list option" where
  "unmarshal_map num raw =
     (case json_parse raw of
        Some GNil \<Rightarrow> Some []
      | Some (GMap ms) \<Rightarrow> (case to_any num (GMap ms) of Some (GMap m) \<Rightarrow> Some m | _ \<Rightarrow> None)
      | _ \<Rightarrow> None)"

lemma as_map_Cons: "as_map ((k, v) # m) old = as_map m (map_put old k v)"
  by (simp add: as_map_def)

lemma as_map_Nil [simp]: "as_map [] old = old"
  by (simp add: as_map_def)

lemma map_put_new: "k \<notin> fst ` set m \<Longrightarrow> map_put m k v = m @ [(k, v)]"
  by (induction m k v rule: map_put.induct) auto

lemma as_map_append: "go_map (old @ m) \<Longrightarrow> as_map m old = old @ m"
proof (induction m arbitrary: old)
  case (Cons kv m)
  then show ?case by (cases kv) (simp add: as_map_Cons map_put_new go_map_def)
qed simp

lemma go_map_as_map: "go_map old \<Longrightarrow> go_map (as_map ms old)"
  unfolding as_map_def by (induction ms arbitrary: old) auto

end
