(* ===== verification/Json_Roundtrip.thy ===== *)
theory Json_Roundtrip
  imports Json_Parse
begin

text \<open>
  Writing a value with \<open>json.Marshal\<close> and reading the text back gives the value as JSON can show it:
  integers and floats by their texts, strings with their invalid bytes replaced, maps in key order and
  typed values by their generic view. Two values with one text therefore have one such view.
\<close>

section \<open>What a reader of the JSON sees\<close>

function coerce_utf8 :: "string \<Rightarrow> string" where
  "coerce_utf8 [] = []"
| "coerce_utf8 (c # s) =
     (if of_char c < (128::nat) then c # coerce_utf8 s
      else let n = utf8_len (c # s) in
        if n = 0 then replacement @ coerce_utf8 s
        else take n (c # s) @ coerce_utf8 (drop n (c # s)))"
  by pat_completeness auto
termination
  by (relation "measure length") (auto simp: Let_def)

declare coerce_utf8.simps(2) [simp del]

fun json_view :: "gval \<Rightarrow> gval" where
  "json_view (GInt i) = GFloat (dec_int i)"
| "json_view (GStr s) = GStr (coerce_utf8 s)"
| "json_view (GList vs) = GList (map json_view vs)"
| "json_view (GMap m) = GMap (map (\<lambda>kv. (coerce_utf8 (fst kv), snd kv)) (sort_key fst (map (\<lambda>kv. (fst kv, json_view (snd kv))) m)))"
| "json_view (GTyped v) = json_view v"
| "json_view v = v"

text \<open>The texts of floats are JSON numbers, and the nesting is at most what a reader accepts.\<close>

fun printable :: "gval \<Rightarrow> bool" where
  "printable (GFloat t) = (scan_number t = Some (t, []))"
| "printable (GList vs) = list_all printable vs"
| "printable (GMap m) = list_all (\<lambda>kv. printable (snd kv)) m"
| "printable (GTyped v) = printable v"
| "printable GBad = False"
| "printable v = True"

fun nesting :: "gval \<Rightarrow> nat" where
  "nesting (GList vs) = Suc (Max (insert 0 (set (map nesting vs))))"
| "nesting (GMap m) = Suc (Max (insert 0 (set (map (\<lambda>kv. nesting (snd kv)) m))))"
| "nesting (GTyped v) = nesting v"
| "nesting v = 0"

section \<open>Strings\<close>

lemma utf8_len_take:
  assumes "utf8_len (c # s) \<noteq> 0"
  shows "utf8_len (take (utf8_len (c # s)) (c # s) @ r) = utf8_len (c # s)"
proof -
  obtain b t where s: "s = b # t" using assms by (cases s) (auto simp: utf8_len_def)
  show ?thesis
  proof (cases "in_range 194 223 c \<and> cont b")
    case True
    then show ?thesis by (simp add: s utf8_len_def)
  next
    case two: False
    then obtain d u where t: "t = d # u" using assms s by (cases t) (auto simp: utf8_len_def)
    show ?thesis
    proof (cases "utf8_len (c # s) = 3")
      case True
      then show ?thesis using two by (simp add: s t utf8_len_def split: if_splits list.splits)
    next
      case three: False
      then obtain e w where u: "u = e # w" using assms s t two by (cases u) (auto simp: utf8_len_def split: if_splits)
      from assms three two have "utf8_len (c # s) = 4" by (auto simp: s t u utf8_len_def split: if_splits)
      then show ?thesis using two by (auto simp: s t u utf8_len_def split: if_splits)
    qed
  qed
qed

lemma utf8_len_le: "utf8_len s \<le> length s"
  by (auto simp: utf8_len_def split: list.splits)

lemma hex_val_digit: "hex_val (hex_digit n) = Some (n mod 16)"
proof -
  have "\<forall>d \<in> set [0..<16]. hex_val (''0123456789abcdef'' ! d) = Some d" by code_simp
  then show ?thesis by (simp add: hex_digit_def)
qed

lemma hex4_low:
  assumes "n < 256"
  shows "hex4 (CHR ''0'' # CHR ''0'' # hex_digit (n div 16) # hex_digit n # r) = Some n"
proof -
  have "n div 16 < 16" using assms by auto
  moreover have "hex_val (CHR ''0'') = Some 0" by code_simp
  ultimately show ?thesis by (simp add: hex4_def hex_val_digit)
qed

lemma unquote_escape:
  assumes "simple_escape e = Some t" and "e \<noteq> CHR ''u''"
  shows "unquote (backslash # e # r) = map_option (apfst ((@) t)) (unquote r)"
proof -
  have "backslash \<noteq> quote" by code_simp
  with assms show ?thesis by (simp add: unquote.simps(2))
qed

lemma unquote_unicode:
  assumes "unicode_escape (CHR ''u'' # s) = Some (t, n)"
  shows "unquote (backslash # CHR ''u'' # s) = map_option (apfst ((@) t)) (unquote (drop n (CHR ''u'' # s)))"
proof -
  have "backslash \<noteq> quote" by code_simp
  with assms show ?thesis by (simp add: unquote.simps(2))
qed

lemma utf8_rune_ascii: "of_char c < (128::nat) \<Longrightarrow> utf8_rune (of_char c) = [c]"
  by (simp add: utf8_rune_def)

lemma append_single: "(@) [c] = (#) c"
  by auto

lemma unquote_low:
  assumes "of_char c < (128::nat)"
  shows "unquote (backslash # ''u00'' @ hex_digit (of_char c div 16) # hex_digit (of_char c) # r)
    = map_option (apfst ((#) c)) (unquote r)"
proof -
  have "unicode_escape (''u00'' @ hex_digit (of_char c div 16) # hex_digit (of_char c) # r) = Some ([c], 5)"
    using assms by (simp add: unicode_escape_def hex4_low utf8_rune_ascii)
  with unquote_unicode show ?thesis by (simp add: append_single)
qed

lemma unquote_ascii:
  assumes "of_char c < (128::nat)"
  shows "unquote (esc_ascii c @ r) = map_option (apfst ((#) c)) (unquote r)"
proof (cases "c \<in> {backslash, quote, CHR 0x08, CHR 0x0C, CHR 0x0A, CHR 0x0D, CHR 0x09}")
  case True
  moreover have "\<forall>c \<in> {backslash, quote, CHR 0x08, CHR 0x0C, CHR 0x0A, CHR 0x0D, CHR 0x09}.
      esc_ascii c = [backslash, esc_ascii c ! 1] \<and> esc_ascii c ! 1 \<noteq> CHR ''u'' \<and> simple_escape (esc_ascii c ! 1) = Some [c]"
    by code_simp
  ultimately have e: "esc_ascii c = [backslash, esc_ascii c ! 1]" "esc_ascii c ! 1 \<noteq> CHR ''u''"
    "simple_escape (esc_ascii c ! 1) = Some [c]" by blast+
  show ?thesis using unquote_escape [OF e(3,2), of r] by (subst e(1)) (simp add: append_single)
next
  case plain: False
  show ?thesis
  proof (cases "of_char c < (32::nat) \<or> c \<in> set ''<>&''")
    case True
    with plain unquote_low [OF assms, of r] show ?thesis by (auto simp: esc_ascii_def)
  next
    case False
    with plain assms show ?thesis by (simp add: esc_ascii_def unquote.simps(2))
  qed
qed

lemma unquote_replacement: "unquote (backslash # ''ufffd'' @ r) = map_option (apfst ((@) replacement)) (unquote r)"
proof -
  have "hex4 (''fffd'' @ r) = Some 65533" by (simp add: hex4_def hex_val_def in_range_def)
  then have "unicode_escape (''ufffd'' @ r) = Some (replacement, 5)" by (simp add: unicode_escape_def replacement_def)
  with unquote_unicode show ?thesis by simp
qed

lemma unquote_line_sep:
  "unquote (backslash # ''u2028'' @ r) = map_option (apfst ((@) (line_sep ! 0))) (unquote r)"
  "unquote (backslash # ''u2029'' @ r) = map_option (apfst ((@) (line_sep ! 1))) (unquote r)"
proof -
  have "hex4 (''2028'' @ r) = Some 8232" "hex4 (''2029'' @ r) = Some 8233"
    by (simp_all add: hex4_def hex_val_def in_range_def)
  moreover have "utf8_rune 8232 = line_sep ! 0" "utf8_rune 8233 = line_sep ! 1"
    by (simp_all add: utf8_rune_def line_sep_def)
  ultimately have "unicode_escape (''u2028'' @ r) = Some (line_sep ! 0, 5)" "unicode_escape (''u2029'' @ r) = Some (line_sep ! 1, 5)"
    by (simp_all add: unicode_escape_def)
  with unquote_unicode show "unquote (backslash # ''u2028'' @ r) = map_option (apfst ((@) (line_sep ! 0))) (unquote r)"
    "unquote (backslash # ''u2029'' @ r) = map_option (apfst ((@) (line_sep ! 1))) (unquote r)"
    by simp_all
qed

lemma unquote_multibyte:
  assumes "\<not> of_char c < (128::nat)" and n: "utf8_len (c # s) = Suc n"
  shows "unquote (take (Suc n) (c # s) @ r) = map_option (apfst ((@) (take (Suc n) (c # s)))) (unquote r)"
proof -
  have l: "utf8_len (c # take n s @ r) = Suc n" using utf8_len_take [of c s r] n by simp
  have le: "n \<le> length s" using utf8_len_le [of "c # s"] n by simp
  have "of_char quote < (128::nat)" "of_char backslash < (128::nat)" by code_simp+
  with assms(1) have ne: "c \<noteq> quote" "c \<noteq> backslash" by blast+
  have "\<not> of_char c < (32::nat)" using assms(1) by linarith
  with ne have "unquote (c # take n s @ r) = map_option (apfst ((@) (take (Suc n) (c # take n s @ r))))
      (unquote (drop (Suc n) (c # take n s @ r)))"
    by (simp only: unquote.simps(2) assms(1) l Let_def if_False nat.distinct)
  with le show ?thesis by simp
qed

lemma unquote_json_chars: "unquote (json_chars s @ quote # r) = Some (coerce_utf8 s, r)"
proof (induction s rule: json_chars.induct)
  case 1
  show ?case by (simp add: unquote.simps(2))
next
  case (2 c s)
  show ?case
  proof (cases "of_char c < (128::nat)")
    case True
    with 2(1) show ?thesis by (simp add: json_chars.simps(2) coerce_utf8.simps(2) unquote_ascii)
  next
    case big: False
    show ?thesis
    proof (cases "utf8_len (c # s)")
      case 0
      with big 2(2) [OF big refl] show ?thesis
        using unquote_replacement by (simp add: json_chars.simps(2) coerce_utf8.simps(2) Let_def)
    next
      case (Suc n)
      have ih: "unquote (json_chars (drop (Suc n) (c # s)) @ quote # r) = Some (coerce_utf8 (drop (Suc n) (c # s)), r)"
        using 2(3-5) [OF big] Suc by (metis nat.distinct(1))
      have co: "coerce_utf8 (c # s) = take (Suc n) (c # s) @ coerce_utf8 (drop (Suc n) (c # s))"
        using big Suc by (simp add: coerce_utf8.simps(2))
      let ?t = "take (Suc n) (c # s)" and ?j = "json_chars (drop (Suc n) (c # s))"
      have "unquote (json_chars (c # s) @ quote # r) = map_option (apfst ((@) ?t)) (unquote (?j @ quote # r))"
      proof -
        consider "?t = line_sep ! 0" | "?t \<noteq> line_sep ! 0" "?t = line_sep ! 1" | "?t \<noteq> line_sep ! 0" "?t \<noteq> line_sep ! 1" by blast
        then show ?thesis
        proof cases
          case 1
          have "json_chars (c # s) = backslash # ''u2028'' @ ?j" using big Suc 1 by (simp add: json_chars.simps(2))
          then show ?thesis using unquote_line_sep(1) [of "?j @ quote # r"] 1 by simp
        next
          case 2
          have "json_chars (c # s) = backslash # ''u2029'' @ ?j" using big Suc 2 by (simp add: json_chars.simps(2))
          then show ?thesis using unquote_line_sep(2) [of "?j @ quote # r"] 2 by simp
        next
          case 3
          have "json_chars (c # s) = ?t @ ?j" using big Suc 3 by (simp add: json_chars.simps(2))
          then show ?thesis using unquote_multibyte [OF big Suc, of "?j @ quote # r"] by simp
        qed
      qed
      with ih co show ?thesis by simp
    qed
  qed
qed

section \<open>Numbers\<close>

text \<open>What may follow a value: nothing, a comma or a closing bracket; none of them continues a number.\<close>

definition delim :: "string \<Rightarrow> bool" where
  "delim r \<longleftrightarrow> r = [] \<or> hd r \<in> {CHR '','', CHR '']'', CHR ''}''}"

lemma delim_simps [simp]:
  "delim []" "delim (CHR '','' # r)" "delim (CHR '']'' # r)" "delim (CHR ''}'' # r)"
  by (simp_all add: delim_def)

lemma delim_Cons:
  assumes "delim (c # r)"
  shows "\<not> digit c" "c \<noteq> CHR ''.''" "c \<noteq> CHR ''e''" "c \<noteq> CHR ''E''"
  using assms by (auto simp: delim_def in_range_def)

lemma digits1_append:
  assumes "digits1 s = Some (a, b)" and "delim r"
  shows "digits1 (s @ r) = Some (a, b @ r)"
proof -
  have r: "takeWhile digit r = []" "dropWhile digit r = r" using assms(2) delim_Cons(1) by (cases r; auto)+
  show ?thesis
  proof (cases "\<forall>c \<in> set s. digit c")
    case True
    then have "takeWhile digit s = s" "dropWhile digit s = []" by (simp_all add: takeWhile_eq_all_conv)
    moreover have "takeWhile digit (s @ r) = s" "dropWhile digit (s @ r) = r"
      using True r by (simp_all add: takeWhile_append dropWhile_append)
    ultimately show ?thesis using assms(1) unfolding digits1_def by (metis append_Nil option.distinct(1) option.inject prod.inject)
  next
    case False
    with assms(1) show ?thesis by (auto simp: digits1_def split: if_splits)
  qed
qed

lemma int_part_append: "int_part s = Some (a, b) \<Longrightarrow> delim r \<Longrightarrow> int_part (s @ r) = Some (a, b @ r)"
  by (cases s) (auto simp: int_part_def dest: digits1_append split: if_splits)

lemma frac_part_append: "frac_part s = Some (a, b) \<Longrightarrow> delim r \<Longrightarrow> frac_part (s @ r) = Some (a, b @ r)"
  by (cases s; cases r) (auto simp: frac_part_def dest: digits1_append delim_Cons split: if_splits)

lemma exp_part_append:
  assumes "exp_part s = Some (a, b)" and "delim r"
  shows "exp_part (s @ r) = Some (a, b @ r)"
proof (cases s)
  case Nil
  with assms show ?thesis by (cases r) (auto simp: exp_part_def dest: delim_Cons)
next
  case (Cons c t)
  show ?thesis
  proof (cases t)
    case Nil
    with assms Cons show ?thesis by (auto simp: exp_part_def split: if_splits)
  next
    case (Cons d u)
    with assms \<open>s = c # t\<close> show ?thesis
      by (auto simp: exp_part_def dest: digits1_append [of "d # u"] digits1_append [of u] split: if_splits)
  qed
qed

lemma scan_number_append:
  assumes "scan_number t = Some (t, [])" and "delim r"
  shows "scan_number (t @ r) = Some (t, r)"
proof -
  obtain s0 sg where p: "(if take 1 t = ''-'' then (''-'', drop 1 t) else ([], t)) = (sg, s0)" by (rule prod.exhaust)
  obtain i s1 f s2 e where parts: "int_part s0 = Some (i, s1)" "frac_part s1 = Some (f, s2)" "exp_part s2 = Some (e, [])"
    and t: "sg @ i @ f @ e = t"
    using assms(1) unfolding scan_number_def p by (auto split: option.splits)
  have "t \<noteq> []" using assms(1) by (auto simp: scan_number_def int_part_def)
  then have "(if take 1 (t @ r) = ''-'' then (''-'', drop 1 (t @ r)) else ([], t @ r)) = (sg, s0 @ r)"
    using p by (cases t) (auto split: if_splits)
  then show ?thesis
    using int_part_append [OF parts(1) assms(2)] frac_part_append [OF parts(2) assms(2)]
      exp_part_append [OF parts(3) assms(2)] t
    by (simp add: scan_number_def)
qed

lemma digit_char [simp]: "d < 10 \<Longrightarrow> digit (char_of (48 + d :: nat))"
  by (simp add: in_range_def)

lemma dec_nat_digits: "list_all digit (dec_nat n)"
proof (induction n rule: dec_nat.induct)
  case (1 n)
  then show ?case by (subst dec_nat.simps) simp
qed

lemma dec_nat_hd: "n > 0 \<Longrightarrow> dec_nat n \<noteq> [] \<and> hd (dec_nat n) \<noteq> CHR ''0''"
proof (induction n rule: dec_nat.induct)
  case (1 n)
  show ?case
  proof (cases "n < 10")
    case True
    have "\<forall>d \<in> set [1..<10]. char_of (48 + d) \<noteq> CHR ''0''" by code_simp
    with True 1(2) show ?thesis by (simp add: dec_nat.simps [of n])
  next
    case False
    with 1(1) show ?thesis by (simp add: dec_nat.simps [of n])
  qed
qed

lemma scan_digits:
  assumes "list_all digit s" and "s \<noteq> []" and "hd s \<noteq> CHR ''0'' \<or> s = ''0''"
  shows "int_part s = Some (s, [])"
  using assms by (cases s) (auto simp: int_part_def digits1_def list_all_iff takeWhile_eq_all_conv)

lemma int_part_dec_nat: "int_part (dec_nat n) = Some (dec_nat n, [])"
proof (cases "n = 0")
  case True
  have "dec_nat 0 = ''0''" by code_simp
  with True show ?thesis by (simp add: int_part_def)
next
  case False
  with dec_nat_hd [of n] scan_digits [OF dec_nat_digits] show ?thesis by auto
qed

lemma scan_number_dec_int: "scan_number (dec_int i) = Some (dec_int i, [])"
proof -
  have "take 1 (dec_nat n) \<noteq> ''-''" for n
    using dec_nat_digits [of n] by (cases "dec_nat n") (auto simp: in_range_def)
  then show ?thesis
    by (simp add: scan_number_def dec_int_def int_part_dec_nat frac_part_def exp_part_def)
qed

section \<open>Values\<close>

definition read_from :: "frame list \<Rightarrow> expect \<Rightarrow> string \<Rightarrow> gval option" where
  "read_from st e s = (case tokens s of None \<Rightarrow> None | Some ts \<Rightarrow> machine st e ts)"

lemma read_token:
  assumes "scan_token (c # s) = Some (t, r)" and "\<not> white c"
  shows "read_from st e (c # s) = (case step e t st of None \<Rightarrow> None | Some (st', e') \<Rightarrow> read_from st' e' r)"
  using assms
  by (cases "step e t st"; cases "tokens r")
    (simp_all add: read_from_def tokens.simps [of "c # s"] split_beta split: option.split)

lemma read_punctuation:
  assumes "punctuation c = Some t"
  shows "read_from st e (c # r) = (case step e t st of None \<Rightarrow> None | Some (st', e') \<Rightarrow> read_from st' e' r)"
proof (rule read_token)
  show "scan_token (c # r) = Some (t, r)" using assms by (simp add: scan_token_def)
  show "\<not> white c" using assms by (auto simp: punctuation_def white_def split: if_splits)
qed

lemma read_string:
  "read_from st e (json_string s @ r)
   = (case step e (TString (coerce_utf8 s)) st of None \<Rightarrow> None | Some (st', e') \<Rightarrow> read_from st' e' r)"
proof -
  have "punctuation quote = None" "\<not> white quote" by code_simp+
  then have "scan_token (quote # json_chars s @ quote # r) = Some (TString (coerce_utf8 s), r)" "\<not> white quote"
    by (simp_all add: scan_token_def unquote_json_chars)
  from read_token [OF this] show ?thesis by (simp add: json_string_def)
qed

lemma read_number:
  assumes "scan_number t = Some (t, [])" and "delim r"
  shows "read_from st e (t @ r) = (case step e (TNumber t) st of None \<Rightarrow> None | Some (st', e') \<Rightarrow> read_from st' e' r)"
proof -
  obtain c s where t: "t = c # s" using assms(1) by (cases t) (auto simp: scan_number_def int_part_def)
  have c: "c = CHR ''-'' \<or> digit c"
    using assms(1) by (auto simp: t scan_number_def int_part_def digits1_def in_range_def split: if_splits option.splits)
  then have "punctuation c = None" "c \<noteq> quote" "\<not> white c"
    by (auto simp: punctuation_def quote_def white_def in_range_def)
  moreover have "scan_token (c # s @ r) = Some (TNumber t, r)"
    using scan_number_append [OF assms] c calculation by (simp add: t scan_token_def)
  ultimately show ?thesis using read_token [of c "s @ r" "TNumber t" r] by (simp add: t)
qed

lemma read_literal:
  assumes "(w, v) \<in> {(''true'', GBool True), (''false'', GBool False), (''null'', GNil)}"
  shows "read_from st e (w @ r) = (case step e (TLiteral v) st of None \<Rightarrow> None | Some (st', e') \<Rightarrow> read_from st' e' r)"
proof -
  have p: "punctuation (hd w) = None" "hd w \<noteq> quote" "hd w \<noteq> CHR ''-''" "\<not> digit (hd w)" "\<not> white (hd w)" "w \<noteq> []"
    using assms by (auto simp: punctuation_def quote_def in_range_def white_def)
  have "scan_literal (w @ r) = Some (TLiteral v, r)"
    using assms by (auto simp: scan_literal_def hasPrefix_def)
  with p have "scan_token (hd w # tl w @ r) = Some (TLiteral v, r)" by (cases w) (auto simp: scan_token_def)
  from read_token [OF this p(5)] p(6) show ?thesis by (cases w) auto
qed

text \<open>The reading of one value from the start of a text.\<close>

abbreviation reads :: "frame list \<Rightarrow> string \<Rightarrow> gval \<Rightarrow> bool" where
  "reads st s v \<equiv> (\<forall>e r. e = ExpValue \<or> e = ExpFirst \<longrightarrow> delim r \<longrightarrow>
     read_from st e (s @ r) = read_from (fst (put_value v st)) (snd (put_value v st)) r)"

lemma reads_elements:
  assumes "list_all2 (\<lambda>s v. \<forall>acc. reads (InArray acc # st) s v) ss vs" and "vs \<noteq> []" and "e = ExpValue \<or> e = ExpFirst"
  shows "read_from (InArray acc # st) e (join_with (CHR '','') ss @ CHR '']'' # r)
    = read_from (fst (put_value (GList (acc @ vs)) st)) (snd (put_value (GList (acc @ vs)) st)) r"
  using assms
proof (induction ss vs arbitrary: acc e rule: list_all2_induct)
  case (Cons s ss v vs)
  have close: "punctuation (CHR '']'') = Some TEndArray" "punctuation (CHR '','') = Some TComma" by code_simp+
  note first = Cons.hyps(1) [rule_format, OF Cons.prems(2)]
  show ?case
  proof (cases vs)
    case Nil
    with Cons.hyps(2) have "ss = []" by simp
    with Nil first show ?thesis by (simp add: read_punctuation [OF close(1)] split_beta)
  next
    case (Cons w ws)
    with \<open>list_all2 _ ss vs\<close> obtain s' ss' where ss: "ss = s' # ss'" by (auto simp: list_all2_Cons2)
    have "read_from (InArray acc # st) e (join_with (CHR '','') (s # ss) @ CHR '']'' # r)
        = read_from (InArray (acc @ [v]) # st) ExpNext (CHR '','' # join_with (CHR '','') ss @ CHR '']'' # r)"
      using first by (simp add: ss)
    also have "\<dots> = read_from (InArray (acc @ [v]) # st) ExpValue (join_with (CHR '','') ss @ CHR '']'' # r)"
      by (simp add: read_punctuation [OF close(2)])
    also have "\<dots> = read_from (fst (put_value (GList (acc @ v # vs)) st)) (snd (put_value (GList (acc @ v # vs)) st)) r"
      using Cons.IH [of ExpValue "acc @ [v]"] Cons by simp
    finally show ?thesis .
  qed
qed simp

text \<open>A member of an object, by its name, its text and its value.\<close>

abbreviation member_text :: "string \<times> string \<Rightarrow> string" where
  "member_text \<equiv> (\<lambda>(k, s). json_string k @ CHR '':'' # s)"

lemma reads_member:
  assumes "\<forall>acc k. reads (InObject acc k # st) s v" and "e = ExpKey \<or> e = ExpFirstKey" and "delim r"
  shows "read_from (InObject acc k' # st) e (member_text (k, s) @ r)
    = read_from (InObject (acc @ [(coerce_utf8 k, v)]) (coerce_utf8 k) # st) ExpNext r"
proof -
  have colon: "punctuation (CHR '':'') = Some TColon" by code_simp
  have "read_from (InObject acc k' # st) e (member_text (k, s) @ r)
      = read_from (InObject acc (coerce_utf8 k) # st) ExpColon (CHR '':'' # s @ r)"
    using assms(2) read_string [of "InObject acc k' # st" e k "CHR '':'' # s @ r"] by auto
  also have "\<dots> = read_from (InObject acc (coerce_utf8 k) # st) ExpValue (s @ r)"
    by (simp add: read_punctuation [OF colon])
  finally show ?thesis using assms(1,3) by simp
qed

lemma reads_members:
  assumes "list_all2 (\<lambda>m kv. fst kv = coerce_utf8 (fst m) \<and> (\<forall>acc k. reads (InObject acc k # st) (snd m) (snd kv))) ms kvs"
    and "kvs \<noteq> []" and "e = ExpKey \<or> e = ExpFirstKey"
  shows "read_from (InObject acc k # st) e (join_with (CHR '','') (map member_text ms) @ CHR ''}'' # r)
    = read_from (fst (put_value (GMap (acc @ kvs)) st)) (snd (put_value (GMap (acc @ kvs)) st)) r"
  using assms
proof (induction ms kvs arbitrary: acc k e rule: list_all2_induct)
  case (Cons m ms kv kvs)
  obtain n s where m: "m = (n, s)" by (rule prod.exhaust)
  obtain v where kv: "kv = (coerce_utf8 n, v)" and v: "\<forall>acc k. reads (InObject acc k # st) s v"
    using Cons.hyps(1) m by (cases kv) auto
  have close: "punctuation (CHR ''}'') = Some TEndObject" "punctuation (CHR '','') = Some TComma" by code_simp+
  note first = reads_member [OF v Cons.prems(2), of _ acc k n, folded m kv]
  show ?case
  proof (cases kvs)
    case Nil
    with Cons.hyps(2) have "ms = []" by simp
    with Nil first show ?thesis by (simp add: read_punctuation [OF close(1)] split_beta)
  next
    case (Cons kv' kvs')
    with \<open>list_all2 _ ms kvs\<close> obtain m' ms' where ms: "ms = m' # ms'" by (auto simp: list_all2_Cons2)
    have "read_from (InObject acc k # st) e (join_with (CHR '','') (map member_text (m # ms)) @ CHR ''}'' # r)
        = read_from (InObject (acc @ [kv]) (coerce_utf8 n) # st) ExpNext
            (CHR '','' # join_with (CHR '','') (map member_text ms) @ CHR ''}'' # r)"
      using first by (simp add: ms)
    also have "\<dots> = read_from (InObject (acc @ [kv]) (coerce_utf8 n) # st) ExpKey
            (join_with (CHR '','') (map member_text ms) @ CHR ''}'' # r)"
      by (simp add: read_punctuation [OF close(2)])
    also have "\<dots> = read_from (fst (put_value (GMap (acc @ kv # kvs)) st)) (snd (put_value (GMap (acc @ kv # kvs)) st)) r"
      using Cons.IH [of ExpKey "acc @ [kv]"] Cons by simp
    finally show ?thesis .
  qed
qed simp

lemma reads_array:
  assumes "list_all2 (\<lambda>s v. \<forall>acc. reads (InArray acc # st) s v) ss vs" and "length st < max_nesting"
  shows "reads st (json_array ss) (GList vs)"
proof -
  have tok: "punctuation (CHR ''['') = Some TBeginArray" "punctuation (CHR '']'') = Some TEndArray" by code_simp+
  have "read_from st e (json_array ss @ r) = read_from (InArray [] # st) ExpFirst (join_with (CHR '','') ss @ CHR '']'' # r)"
    if "e = ExpValue \<or> e = ExpFirst" for e r
    using that assms(2) by (auto simp: json_array_def read_punctuation [OF tok(1)] push_def)
  moreover have "read_from (InArray [] # st) ExpFirst (CHR '']'' # r)
      = read_from (fst (put_value (GList []) st)) (snd (put_value (GList []) st)) r" for r
    by (simp add: read_punctuation [OF tok(2)] split_beta)
  ultimately show ?thesis
    using reads_elements [OF assms(1), of ExpFirst "[]"] assms(1) by (cases vs) (auto simp del: put_value.simps)
qed

lemma reads_object:
  assumes "list_all2 (\<lambda>m kv. fst kv = coerce_utf8 (fst m) \<and> (\<forall>acc k. reads (InObject acc k # st) (snd m) (snd kv))) ms kvs"
    and "length st < max_nesting"
  shows "reads st (json_object ms) (GMap kvs)"
proof -
  have tok: "punctuation (CHR ''{'') = Some TBeginObject" "punctuation (CHR ''}'') = Some TEndObject" by code_simp+
  have "read_from st e (json_object ms @ r)
      = read_from (InObject [] [] # st) ExpFirstKey (join_with (CHR '','') (map member_text ms) @ CHR ''}'' # r)"
    if "e = ExpValue \<or> e = ExpFirst" for e r
    using that assms(2) by (auto simp: json_object_def read_punctuation [OF tok(1)] push_def)
  moreover have "read_from (InObject [] [] # st) ExpFirstKey (CHR ''}'' # r)
      = read_from (fst (put_value (GMap []) st)) (snd (put_value (GMap []) st)) r" for r
    by (simp add: read_punctuation [OF tok(2)] split_beta)
  ultimately show ?thesis
    using reads_members [OF assms(1), of ExpFirstKey "[]" "[]"] assms(1) by (cases kvs) (auto simp del: put_value.simps)
qed

lemma all_some_iff: "all_some xs = Some ys \<longleftrightarrow> list_all2 (\<lambda>x y. x = Some y) xs ys"
  by (induction xs arbitrary: ys) (auto simp: list_all2_Cons1 split: option.splits)

lemma members_iff: "members ms = Some kvs \<longleftrightarrow> list_all2 (\<lambda>m kv. fst kv = fst m \<and> snd m = Some (snd kv)) ms kvs"
  by (induction ms arbitrary: kvs rule: members.induct) (auto simp: list_all2_Cons1 split: option.splits)

lemma nesting_elem: "v \<in> set vs \<Longrightarrow> nesting v < nesting (GList vs)"
  by (simp add: less_Suc_eq_le)

lemma nesting_member: "kv \<in> set m \<Longrightarrow> nesting (snd kv) < nesting (GMap m)"
  by (simp add: less_Suc_eq_le)

lemma reads_marshal:
  assumes "marshal v = Some s" and "printable v" and "length st + nesting v \<le> max_nesting"
  shows "reads st s (json_view v)"
  using assms
proof (induction v arbitrary: s st)
  case GNil
  then show ?case using read_literal [of "''null''" GNil] by (auto simp: split_beta)
next
  case (GBool b)
  then show ?case
    using read_literal [of "''true''" "GBool True"] read_literal [of "''false''" "GBool False"] by (cases b) (auto simp: split_beta)
next
  case (GInt i)
  then show ?case by (auto simp: read_number scan_number_dec_int split_beta)
next
  case (GFloat t)
  then show ?case by (auto simp: read_number split_beta)
next
  case (GStr t)
  then show ?case by (auto simp: read_string split_beta)
next
  case (GList vs)
  from GList.prems(1) obtain ss where ss: "list_all2 (\<lambda>v s. marshal v = Some s) vs ss" and s: "s = json_array ss"
    by (auto simp: all_some_iff list_all2_map1)
  have elems: "list_all2 (\<lambda>s v. \<forall>acc. reads (InArray acc # st) s v) ss (map json_view vs)"
  proof (rule list_all2_all_nthI)
    show "length ss = length (map json_view vs)" using ss by (simp add: list_all2_lengthD)
    fix n assume "n < length ss"
    then have n: "vs ! n \<in> set vs" "marshal (vs ! n) = Some (ss ! n)" "map json_view vs ! n = json_view (vs ! n)"
      using ss by (auto simp: list_all2_conv_all_nth)
    have "printable (vs ! n)" using GList.prems(2) n(1) by (simp add: list_all_iff)
    moreover have "length (InArray acc # st) + nesting (vs ! n) \<le> max_nesting" for acc
      using GList.prems(3) nesting_elem [OF n(1)] by (simp del: nesting.simps)
    ultimately show "\<forall>acc. reads (InArray acc # st) (ss ! n) (map json_view vs ! n)"
      unfolding n(3) using GList.IH [OF n(1,2)] by blast
  qed
  with GList.prems(3) show ?case unfolding s json_view.simps by (intro reads_array) simp_all
next
  case (GMap m)
  let ?m = "sort_key fst m"
  from GMap.prems(1) obtain ms where ms: "list_all2 (\<lambda>kv x. fst x = fst kv \<and> marshal (snd kv) = Some (snd x)) ?m ms"
      and s: "s = json_object ms"
    by (auto simp: members_iff list_all2_map1 simp flip: sort_key_map_snd)
  let ?kvs = "map (\<lambda>kv. (coerce_utf8 (fst kv), json_view (snd kv))) ?m"
  have v: "json_view (GMap m) = GMap ?kvs" by (simp add: o_def flip: sort_key_map_snd)
  have mems: "list_all2 (\<lambda>x kv. fst kv = coerce_utf8 (fst x) \<and> (\<forall>acc k. reads (InObject acc k # st) (snd x) (snd kv))) ms ?kvs"
  proof (rule list_all2_all_nthI)
    show "length ms = length ?kvs" using ms by (auto dest: list_all2_lengthD)
    fix n assume "n < length ms"
    then have n: "?m ! n \<in> set ?m" "fst (ms ! n) = fst (?m ! n)" "marshal (snd (?m ! n)) = Some (snd (ms ! n))"
        "?kvs ! n = (coerce_utf8 (fst (?m ! n)), json_view (snd (?m ! n)))"
      using ms by (auto simp: list_all2_conv_all_nth simp del: set_sort)
    then have mem: "?m ! n \<in> set m" "snd (?m ! n) \<in> Basic_BNFs.snds (?m ! n)" by (simp_all add: snds.intros)
    have "printable (snd (?m ! n))" using GMap.prems(2) mem(1) by (simp add: list_all_iff)
    moreover have "length (InObject acc k # st) + nesting (snd (?m ! n)) \<le> max_nesting" for acc k
      using GMap.prems(3) nesting_member [OF mem(1)] by (simp del: nesting.simps)
    ultimately have "\<forall>acc k. reads (InObject acc k # st) (snd (ms ! n)) (json_view (snd (?m ! n)))"
      using GMap.IH [OF mem n(3)] by blast
    with n show "fst (?kvs ! n) = coerce_utf8 (fst (ms ! n)) \<and> (\<forall>acc k. reads (InObject acc k # st) (snd (ms ! n)) (snd (?kvs ! n)))"
      by (simp only: fst_conv snd_conv simp_thms)
  qed
  with GMap.prems(3) show ?case unfolding s v by (intro reads_object) simp_all
next
  case (GTyped v)
  then show ?case by simp
qed simp

lemma printable_marshal: "printable v \<Longrightarrow> \<exists>s. marshal v = Some s"
proof (induction v)
  case (GList vs)
  then have "\<forall>v \<in> set vs. \<exists>s. marshal v = Some s" by (simp add: list_all_iff)
  then have "\<exists>ss. all_some (map marshal vs) = Some ss" by (induction vs) auto
  then show ?case by auto
next
  case (GMap m)
  have "\<exists>ms. members (map (\<lambda>kv. (fst kv, marshal (snd kv))) xs) = Some ms"
    if "\<forall>kv \<in> set xs. \<exists>s. marshal (snd kv) = Some s" for xs :: "(string \<times> gval) list"
    using that by (induction xs) auto
  moreover have "\<forall>kv \<in> set (sort_key fst m). \<exists>s. marshal (snd kv) = Some s" using GMap by (force simp: list_all_iff)
  ultimately have "\<exists>ms. members (map (\<lambda>kv. (fst kv, marshal (snd kv))) (sort_key fst m)) = Some ms" by blast
  then show ?case by (auto simp: sort_key_map_snd)
qed simp_all

lemma json_roundtrip:
  assumes "marshal v = Some s" and "printable v" and "nesting v \<le> max_nesting"
  shows "json_parse s = Some (json_view v)"
proof -
  have "read_from [] ExpValue (s @ []) = read_from [] (ExpEnd (json_view v)) []"
    using reads_marshal [of v s "[]"] assms by (simp del: append_Nil2)
  moreover have "read_from [] (ExpEnd (json_view v)) [] = Some (json_view v)"
    by (simp add: read_from_def tokens.simps [of "[]"])
  ultimately show ?thesis by (simp add: read_from_def json_parse_def)
qed

lemma marshal_separates:
  assumes "marshal v = Some s" and "marshal w = Some s" and "printable v" and "printable w"
    and "nesting v \<le> max_nesting" and "nesting w \<le> max_nesting"
  shows "json_view v = json_view w"
  using json_roundtrip [OF assms(1,3,5)] json_roundtrip [OF assms(2,4,6)] by simp

section \<open>Views of values with distinct keys\<close>

text \<open>All keys of the maps in a value are valid UTF-8, so that their JSON form is their own text.\<close>

fun utf8_keys :: "gval \<Rightarrow> bool" where
  "utf8_keys (GMap m) = list_all (\<lambda>kv. coerce_utf8 (fst kv) = fst kv \<and> utf8_keys (snd kv)) m"
| "utf8_keys (GList vs) = list_all utf8_keys vs"
| "utf8_keys (GTyped v) = utf8_keys v"
| "utf8_keys _ = True"

text \<open>The view of a value with distinct keys has distinct keys.\<close>

lemma wf_view: "wf_val v \<Longrightarrow> utf8_keys v \<Longrightarrow> wf_val (json_view v)"
proof (induction v rule: json_view.induct)
  case (4 m)
  let ?m = "map (\<lambda>kv. (fst kv, json_view (snd kv))) m"
  have id: "map (\<lambda>kv. (coerce_utf8 (fst kv), snd kv)) (sort_key fst ?m) = sort_key fst ?m"
    using 4(3) by (intro map_idI) (auto simp: list_all_iff)
  have "go_map (sort_key fst ?m)" using 4(2) by (simp add: map_fst_sort_key go_map_def o_def)
  moreover have "list_all (\<lambda>kv. wf_val (snd kv)) (sort_key fst ?m)" using 4 by (auto simp: list_all_iff)
  ultimately show ?case by (simp add: id)
qed (auto simp: list_all_iff)

text \<open>Decoding such a view into a fresh \<open>any\<close> gives the view; \<open>Some\<close> reads a float as its text.\<close>

lemma all_some_id: "\<forall>x \<in> set xs. f x = Some x \<Longrightarrow> all_some (map f xs) = Some xs"
  by (induction xs) auto

lemma to_any_view: "wf_val v \<Longrightarrow> utf8_keys v \<Longrightarrow> printable v \<Longrightarrow> to_any Some (json_view v) = Some (json_view v)"
proof (induction v rule: json_view.induct)
  case (3 vs)
  then have "\<forall>w \<in> set (map json_view vs). to_any Some w = Some w" by (auto simp: list_all_iff)
  from all_some_id [OF this] show ?case by simp
next
  case (4 m)
  let ?m = "sort_key fst (map (\<lambda>kv. (fst kv, json_view (snd kv))) m)"
  have id: "map (\<lambda>kv. (coerce_utf8 (fst kv), snd kv)) ?m = ?m"
    using 4(3) by (intro map_idI) (auto simp: list_all_iff)
  have "go_map ?m" using 4(2) by (simp add: map_fst_sort_key go_map_def o_def)
  then have "as_map ?m [] = ?m" using as_map_append [of "[]" ?m] by simp
  moreover have "\<forall>kv \<in> set ?m. map_option (Pair (fst kv)) (to_any Some (snd kv)) = Some kv"
    using 4 by (auto simp: list_all_iff)
  from all_some_id [OF this]
  have "all_some (map (\<lambda>kv. map_option (Pair (fst kv)) (to_any Some (snd kv))) ?m) = Some ?m" .
  ultimately show ?case by (simp only: json_view.simps id to_any.simps option.map)
qed auto

end
