(* ===== verification/Dedup.thy ===== *)
theory Dedup
  imports Tool Sha256 Json_Roundtrip
begin

text \<open>
  Finding deduplication (worker/dedup.go): the canonical JSON of a finding's data, the length
  framing of the hashed fields and the hash itself. Shown: canonical JSON is \<open>json.Marshal\<close> of
  the data, so it does not depend on the iteration order of any map inside; the framed input
  determines kind, severity and the data as a reader of the JSON sees them; the title is not hashed.
  The data are taken to nest at most ten thousand levels, beyond which \<open>json.Marshal\<close> refuses the
  text a \<open>MarshalJSON\<close> method returns.
\<close>

section \<open>Canonical values\<close>

text \<open>
  What \<open>canonicalize\<close> returns: an \<open>orderedMap\<close> (a slice of key and value pairs with its own
  \<open>MarshalJSON\<close>), a slice, or the value itself.
\<close>

datatype cval =
    CMap "(string \<times> cval) list"
  | CList "cval list"
  | CVal gval

fun canonicalize :: "gval \<Rightarrow> cval" where
  "canonicalize (GMap m) =
     (let cs = map (\<lambda>kv. (fst kv, canonicalize (snd kv))) m
      in CMap (map (\<lambda>k. (k, the (map_of cs k))) (sort (map fst m))))"
| "canonicalize (GList vs) = CList (map canonicalize vs)"
| "canonicalize v = CVal v"

text \<open>
  \<open>json.Marshal\<close> of a canonical value. \<open>orderedMap_MarshalJSON\<close> receives each key with the
  result of marshalling its value; the first failing value makes the whole call fail.
\<close>

fun marshal_pairs :: "nat \<Rightarrow> bytes \<Rightarrow> (string \<times> string option) list \<Rightarrow> bytes option" where
  "marshal_pairs i buf [] = Some buf"
| "marshal_pairs i buf (e # es) =
     (let buf = (if i > 0 then buf @ '','' else buf);
          buf = buf @ json_string (fst e);
          buf = buf @ '':''
      in case snd e of None \<Rightarrow> None | Some v \<Rightarrow> marshal_pairs (Suc i) (buf @ v) es)"

definition orderedMap_MarshalJSON :: "(string \<times> string option) list \<Rightarrow> bytes option" where
  "orderedMap_MarshalJSON es = map_option (\<lambda>buf. buf @ ''}'') (marshal_pairs 0 ''{'' es)"

fun marshal_c :: "cval \<Rightarrow> string option" where
  "marshal_c (CMap kvs) = orderedMap_MarshalJSON (map (\<lambda>kv. (fst kv, marshal_c (snd kv))) kvs)"
| "marshal_c (CList vs) = map_option json_array (all_some (map marshal_c vs))"
| "marshal_c (CVal v) = marshal v"

definition canonicalJSON :: "gmap option \<Rightarrow> bytes" where
  "canonicalJSON v =
     (case v of
        None \<Rightarrow> ''null''
      | Some m \<Rightarrow>
          (case marshal_c (canonicalize (GMap m)) of
             None \<Rightarrow> CHR ''{'' # quote # ''__canonical_error__'' @ [quote, CHR '':'', quote]
                       @ ''true'' @ [quote, CHR ''}'']
           | Some out \<Rightarrow> out))"

section \<open>The hash\<close>

definition writeLP :: "bytes \<Rightarrow> bytes \<Rightarrow> bytes" where
  "writeLP w b = w @ be32 (word_of_nat (length b)) @ b"

definition dedup_input :: "finding \<Rightarrow> bytes" where
  "dedup_input f =
     writeLP (writeLP (writeLP [] (fi_Kind f)) (fi_Severity f)) (canonicalJSON (fi_Data f))"

definition DedupHash :: "finding \<Rightarrow> bytes" where
  "DedupHash f = sha256 (dedup_input f)"

section \<open>Canonical JSON is the JSON of the value\<close>

lemma marshal_pairs_Suc:
  "marshal_pairs (Suc i) buf es =
     map_option (\<lambda>ms. buf @ concat (map (\<lambda>m. '','' @ json_string (fst m) @ CHR '':'' # snd m) ms)) (members es)"
proof (induction es arbitrary: i buf)
  case (Cons e es)
  then show ?case
    by (cases e) (simp add: Let_def option.map_comp o_def split: option.split)
qed simp

lemma join_with_Cons: "join_with c (x # xs) = x @ concat (map (\<lambda>y. c # y) xs)"
  by (induction xs arbitrary: x) auto

lemma orderedMap_MarshalJSON_eq: "orderedMap_MarshalJSON es = map_option json_object (members es)"
proof (cases es)
  case (Cons e r)
  then show ?thesis
    by (cases e) (simp add: orderedMap_MarshalJSON_def json_object_def Let_def marshal_pairs_Suc
        option.map_comp o_def join_with_Cons split_beta split: option.split)
qed (simp add: orderedMap_MarshalJSON_def json_object_def)

lemma canonicalize_map:
  assumes "go_map m"
  shows "canonicalize (GMap m) = CMap (sort_key fst (map (\<lambda>kv. (fst kv, canonicalize (snd kv))) m))"
  using sort_key_fst_eq [of "map (\<lambda>kv. (fst kv, canonicalize (snd kv))) m"] assms
  by (simp add: o_def Let_def)

lemma marshal_canonicalize: "wf_val v \<Longrightarrow> marshal_c (canonicalize v) = marshal v"
proof (induction v)
  case (GMap m)
  then have eq: "map (\<lambda>kv. (fst kv, marshal_c (canonicalize (snd kv)))) m = map (\<lambda>kv. (fst kv, marshal (snd kv))) m"
    by (force simp: list_all_iff)
  from GMap.prems have "go_map m" by simp
  then show ?case
    by (simp add: canonicalize_map orderedMap_MarshalJSON_eq sort_key_map_snd o_def eq
        del: canonicalize.simps)
next
  case (GList vs)
  then have eq: "map (marshal_c \<circ> canonicalize) vs = map marshal vs"
    by (auto simp: list_all_iff)
  show ?case by (simp add: eq)
qed simp_all

section \<open>Framing\<close>

lemma writeLP_split: "writeLP w b = w @ writeLP [] b"
  by (simp add: writeLP_def)

lemma writeLP_inject:
  assumes "writeLP [] a @ r = writeLP [] b @ s" and "length a < 2 ^ 32" and "length b < 2 ^ 32"
  shows "a = b \<and> r = s"
proof -
  from assms(1) have be: "be32 (word_of_nat (length a)) = be32 (word_of_nat (length b))"
    and rest: "a @ r = b @ s"
    by (simp_all add: writeLP_def)
  from be assms(2,3) have "length a = length b"
    by (simp add: be32_inject word_of_nat_eq_iff take_bit_nat_eq_self)
  with rest show ?thesis by simp
qed

lemma canonicalJSON_same:
  assumes "same_val (GMap m) (GMap m')" and "wf_val (GMap m)" and "wf_val (GMap m')"
  shows "canonicalJSON (Some m) = canonicalJSON (Some m')"
  unfolding canonicalJSON_def
  using marshal_canonicalize [OF assms(2)] marshal_canonicalize [OF assms(3)] marshal_same_val [OF assms(1)]
  by simp

lemma dedup_input_iff:
  assumes "length (fi_Kind f) < 2 ^ 32" and "length (fi_Kind g) < 2 ^ 32"
    and "length (fi_Severity f) < 2 ^ 32" and "length (fi_Severity g) < 2 ^ 32"
    and "length (canonicalJSON (fi_Data f)) < 2 ^ 32" and "length (canonicalJSON (fi_Data g)) < 2 ^ 32"
  shows "dedup_input f = dedup_input g \<longleftrightarrow>
    fi_Kind f = fi_Kind g \<and> fi_Severity f = fi_Severity g
      \<and> canonicalJSON (fi_Data f) = canonicalJSON (fi_Data g)"
proof
  let ?lp = "writeLP []"
  have split: "dedup_input h = ?lp (fi_Kind h) @ ?lp (fi_Severity h) @ ?lp (canonicalJSON (fi_Data h)) @ []" for h
    unfolding dedup_input_def by (simp add: writeLP_def)
  assume "dedup_input f = dedup_input g"
  then have eq: "?lp (fi_Kind f) @ ?lp (fi_Severity f) @ ?lp (canonicalJSON (fi_Data f)) @ []
      = ?lp (fi_Kind g) @ ?lp (fi_Severity g) @ ?lp (canonicalJSON (fi_Data g)) @ []"
    by (simp only: split)
  note k = writeLP_inject [OF eq assms(1,2)]
  note s = writeLP_inject [OF conjunct2 [OF k] assms(3,4)]
  note d = writeLP_inject [OF conjunct2 [OF s] assms(5,6)]
  from k s d show "fi_Kind f = fi_Kind g \<and> fi_Severity f = fi_Severity g
      \<and> canonicalJSON (fi_Data f) = canonicalJSON (fi_Data g)" by blast
qed (simp add: dedup_input_def)

section \<open>Canonical JSON reads back\<close>

text \<open>The data of a finding as a reader of its JSON sees them, and the data that can be encoded.\<close>

definition data_view :: "gmap option \<Rightarrow> gval" where
  "data_view d = (case d of None \<Rightarrow> GNil | Some m \<Rightarrow> json_view (GMap m))"

definition data_ok :: "gmap option \<Rightarrow> bool" where
  "data_ok d = (case d of
     None \<Rightarrow> True
   | Some m \<Rightarrow> wf_val (GMap m) \<and> printable (GMap m) \<and> nesting (GMap m) \<le> max_nesting)"

lemma canonicalJSON_reads_back:
  assumes "data_ok d"
  shows "json_parse (canonicalJSON d) = Some (data_view d)"
proof (cases d)
  case None
  have "json_parse ''null'' = Some (json_view GNil)" by (rule json_roundtrip) (simp_all add: max_nesting_def)
  with None show ?thesis by (simp add: canonicalJSON_def data_view_def)
next
  case (Some m)
  with assms have ok: "wf_val (GMap m)" "printable (GMap m)" "nesting (GMap m) \<le> max_nesting" by (simp_all add: data_ok_def)
  obtain s where s: "marshal (GMap m) = Some s" using printable_marshal [OF ok(2)] by blast
  have "canonicalJSON d = s" using marshal_canonicalize [OF ok(1)] s Some by (simp add: canonicalJSON_def del: canonicalize.simps marshal.simps)
  with json_roundtrip [OF s ok(2,3)] Some show ?thesis by (simp add: data_view_def)
qed

section \<open>Properties\<close>

text \<open>
  Two findings of the same kind and severity whose data are two presentations of one value (map
  entries reordered at any depth) have the same hash, whatever their titles.
\<close>

theorem DedupHash_stable:
  assumes "fi_Kind f = fi_Kind g" and "fi_Severity f = fi_Severity g"
    and "fi_Data f = Some m" and "fi_Data g = Some m'"
    and "same_val (GMap m) (GMap m')" and "wf_val (GMap m)" and "wf_val (GMap m')"
  shows "DedupHash f = DedupHash g"
  using canonicalJSON_same [OF assms(5-7)] assms(1-4) by (simp add: DedupHash_def dedup_input_def)

theorem DedupHash_stable_witness:
  "DedupHash \<lparr>fi_Kind = ''tech'', fi_Severity = ''info'', fi_Title = ''old'',
      fi_Data = Some [(''a'', GInt 1), (''b'', GNil)]\<rparr>
   = DedupHash \<lparr>fi_Kind = ''tech'', fi_Severity = ''info'', fi_Title = ''new'',
      fi_Data = Some [(''b'', GNil), (''a'', GInt 1)]\<rparr>"
proof (rule DedupHash_stable)
  show "same_val (GMap [(''a'', GInt 1), (''b'', GNil)]) (GMap [(''b'', GNil), (''a'', GInt 1)])"
    by (rule same_map) (auto split: if_splits intro: same_refl)
qed auto

text \<open>
  C32: findings whose hashed bytes agree are of one kind and one severity, and their data show a reader
  of the JSON the same value: the length framing keeps the fields apart, and the canonical JSON reads
  back as the data. This is for fields shorter than the 32-bit prefix can express and data that can be
  encoded. So a field added to the data, or another spelling of kind or severity, makes another input; the comment
  on \<open>DedupHash\<close> and docs/FINDINGS.md say otherwise.
\<close>

theorem dedup_input_separates:
  assumes "dedup_input f = dedup_input g"
    and "data_ok (fi_Data f)" and "data_ok (fi_Data g)"
    and "length (fi_Kind f) < 2 ^ 32" and "length (fi_Kind g) < 2 ^ 32"
    and "length (fi_Severity f) < 2 ^ 32" and "length (fi_Severity g) < 2 ^ 32"
    and "length (canonicalJSON (fi_Data f)) < 2 ^ 32" and "length (canonicalJSON (fi_Data g)) < 2 ^ 32"
  shows "fi_Kind f = fi_Kind g \<and> fi_Severity f = fi_Severity g \<and> data_view (fi_Data f) = data_view (fi_Data g)"
proof -
  have eq: "fi_Kind f = fi_Kind g" "fi_Severity f = fi_Severity g" "canonicalJSON (fi_Data f) = canonicalJSON (fi_Data g)"
    using dedup_input_iff [OF assms(4-9)] assms(1) by auto
  have "Some (data_view (fi_Data f)) = Some (data_view (fi_Data g))"
    using canonicalJSON_reads_back [OF assms(2)] canonicalJSON_reads_back [OF assms(3)] eq(3) by simp
  with eq show ?thesis by simp
qed

theorem dedup_input_separates_witness:
  "dedup_input \<lparr>fi_Kind = ''ab'', fi_Severity = ''c'', fi_Title = [], fi_Data = Some [(''x'', GInt 1)]\<rparr>
     \<noteq> dedup_input \<lparr>fi_Kind = ''a'', fi_Severity = ''bc'', fi_Title = [], fi_Data = Some [(''x'', GInt 1)]\<rparr>
   \<and> dedup_input \<lparr>fi_Kind = ''a'', fi_Severity = ''c'', fi_Title = [], fi_Data = Some [(''x'', GStr ''1'')]\<rparr>
     \<noteq> dedup_input \<lparr>fi_Kind = ''a'', fi_Severity = ''c'', fi_Title = [], fi_Data = Some [(''x'', GInt 1)]\<rparr>"
proof -
  let ?f = "\<lambda>k s v. \<lparr>fi_Kind = k, fi_Severity = s, fi_Title = [], fi_Data = Some [(''x'', v)]\<rparr>"
  have ok: "data_ok (Some [(''x'', GInt 1)])" "data_ok (Some [(''x'', GStr ''1'')])"
    by (simp_all add: data_ok_def max_nesting_def)
  have "length (canonicalJSON (Some [(''x'', GInt 1)])) = 7" "length (canonicalJSON (Some [(''x'', GStr ''1'')])) = 9"
    by code_simp+
  note len = this
  from dedup_input_separates [of "?f ''ab'' ''c'' (GInt 1)" "?f ''a'' ''bc'' (GInt 1)"] ok len
  have "dedup_input (?f ''ab'' ''c'' (GInt 1)) \<noteq> dedup_input (?f ''a'' ''bc'' (GInt 1))" by auto
  moreover from dedup_input_separates [of "?f ''a'' ''c'' (GStr ''1'')" "?f ''a'' ''c'' (GInt 1)"] ok len
  have "dedup_input (?f ''a'' ''c'' (GStr ''1'')) \<noteq> dedup_input (?f ''a'' ''c'' (GInt 1))"
    by (auto simp: data_view_def)
  ultimately show ?thesis by blast
qed

text \<open>
  The canonical encoding is the ordinary JSON encoding of the data: canonicalizing changes
  nothing that \<open>json.Marshal\<close> prints, and data that cannot be encoded give one fixed sentinel.
\<close>

theorem canonicalJSON_is_marshal:
  assumes "wf_val (GMap m)"
  shows "canonicalJSON (Some m) = (case marshal (GMap m) of
    Some t \<Rightarrow> t
  | None \<Rightarrow> CHR ''{'' # json_string ''__canonical_error__'' @ CHR '':'' # json_string ''true'' @ ''}'')"
proof -
  have "json_chars ''__canonical_error__'' = ''__canonical_error__''" by code_simp
  moreover have "json_chars ''true'' = ''true''" by code_simp
  ultimately show ?thesis
    using marshal_canonicalize [OF assms]
    by (simp add: canonicalJSON_def json_string_def del: canonicalize.simps marshal.simps split: option.split)
qed

theorem canonicalJSON_is_marshal_witness:
  "canonicalJSON (Some [(''b'', GBad), (''a'', GBool True)])
    = CHR ''{'' # json_string ''__canonical_error__'' @ CHR '':'' # json_string ''true'' @ ''}''
   \<and> canonicalJSON (Some [(''b'', GInt 1), (''a'', GBool True)])
    = CHR ''{'' # json_string ''a'' @ '':true,'' @ json_string ''b'' @ '':1}''"
proof -
  have "marshal (GMap [(''b'', GInt 1), (''a'', GBool True)])
      = Some (CHR ''{'' # json_string ''a'' @ '':true,'' @ json_string ''b'' @ '':1}'')"
    by code_simp
  then show ?thesis
    using canonicalJSON_is_marshal [of "[(''b'', GBad), (''a'', GBool True)]"]
      canonicalJSON_is_marshal [of "[(''b'', GInt 1), (''a'', GBool True)]"]
    by simp
qed

end
