(* ===== verification/Sql.thy ===== *)
theory Sql
  imports Prelude
begin

text \<open>
  The semantics of the SQL statement forms in the source, over a table given as the list of its
  rows: \<open>INSERT ... VALUES ... ON CONFLICT (key) DO UPDATE SET ... WHERE ...\<close> and
  \<open>UPDATE ... WHERE\<close>. A multi-row insert processes its rows in order; the command may not
  affect one row twice, and an attempt to do so undoes the whole statement. The locale
  \<open>upsert_table\<close> states what a table promises whose update keeps the key; every table the SDK
  writes interprets it.
\<close>

section \<open>Statements\<close>

definition lookup :: "('r \<Rightarrow> 'k) \<Rightarrow> 'r list \<Rightarrow> 'k \<Rightarrow> 'r option" where
  "lookup key tbl k = find (\<lambda>r. key r = k) tbl"

definition update_where :: "('r \<Rightarrow> bool) \<Rightarrow> ('r \<Rightarrow> 'r) \<Rightarrow> 'r list \<Rightarrow> 'r list" where
  "update_where p f tbl = map (\<lambda>r. if p r then f r else r) tbl"

text \<open>
  One row of an insert. The state holds the table and the keys of the rows the command has inserted
  or updated so far.
\<close>

definition upsert_row ::
  "('r \<Rightarrow> 'k) \<Rightarrow> ('r \<Rightarrow> 'r \<Rightarrow> 'r) \<Rightarrow> ('r \<Rightarrow> 'r \<Rightarrow> bool) \<Rightarrow> 'r \<Rightarrow> 'r list \<times> 'k list \<Rightarrow> ('r list \<times> 'k list) option"
where
  "upsert_row key merge guard new st =
     (case lookup key (fst st) (key new) of
        None \<Rightarrow> Some (fst st @ [new], key new # snd st)
      | Some old \<Rightarrow>
          (if key new \<in> set (snd st) then None
           else if guard old new
           then Some (update_where (\<lambda>r. key r = key new) (\<lambda>r. merge r new) (fst st), key new # snd st)
           else Some st))"

fun upsert_rows ::
  "('r \<Rightarrow> 'k) \<Rightarrow> ('r \<Rightarrow> 'r \<Rightarrow> 'r) \<Rightarrow> ('r \<Rightarrow> 'r \<Rightarrow> bool) \<Rightarrow> 'r list \<Rightarrow> 'r list \<times> 'k list \<Rightarrow> ('r list \<times> 'k list) option"
where
  "upsert_rows key merge guard [] st = Some st"
| "upsert_rows key merge guard (new # news) st =
     (case upsert_row key merge guard new st of
        None \<Rightarrow> None
      | Some st' \<Rightarrow> upsert_rows key merge guard news st')"

definition insert_on_conflict ::
  "('r \<Rightarrow> 'k) \<Rightarrow> ('r \<Rightarrow> 'r \<Rightarrow> 'r) \<Rightarrow> ('r \<Rightarrow> 'r \<Rightarrow> bool) \<Rightarrow> 'r list \<Rightarrow> 'r list \<Rightarrow> 'r list option"
where
  "insert_on_conflict key merge guard news tbl =
     map_option fst (upsert_rows key merge guard news (tbl, []))"

text \<open>The effect of a one-row insert, which cannot fail.\<close>

definition upsert1 ::
  "('r \<Rightarrow> 'k) \<Rightarrow> ('r \<Rightarrow> 'r \<Rightarrow> 'r) \<Rightarrow> ('r \<Rightarrow> 'r \<Rightarrow> bool) \<Rightarrow> 'r \<Rightarrow> 'r list \<Rightarrow> 'r list"
where
  "upsert1 key merge guard new tbl =
     (case lookup key tbl (key new) of
        None \<Rightarrow> tbl @ [new]
      | Some old \<Rightarrow>
          (if guard old new then update_where (\<lambda>r. key r = key new) (\<lambda>r. merge r new) tbl else tbl))"

section \<open>Facts on tables\<close>

lemma lookup_None_iff: "lookup key tbl k = None \<longleftrightarrow> k \<notin> key ` set tbl"
  by (auto simp: lookup_def find_None_iff)

lemma lookup_SomeD: "lookup key tbl k = Some r \<Longrightarrow> r \<in> set tbl \<and> key r = k"
  by (auto simp: lookup_def find_Some_iff)

lemma lookup_append: "lookup key (tbl @ [r]) k =
    (case lookup key tbl k of None \<Rightarrow> if key r = k then Some r else None | Some x \<Rightarrow> Some x)"
  by (induction tbl) (auto simp: lookup_def)

lemma lookup_update_where:
  assumes "\<And>r. p r \<Longrightarrow> key (f r) = key r"
  shows "lookup key (update_where p f tbl) k = map_option (\<lambda>r. if p r then f r else r) (lookup key tbl k)"
  using assms by (induction tbl) (auto simp: lookup_def update_where_def)

lemma keys_update_where:
  assumes "\<And>r. p r \<Longrightarrow> key (f r) = key r"
  shows "map key (update_where p f tbl) = map key tbl"
  using assms by (induction tbl) (auto simp: update_where_def)

lemma insert_on_conflict_Cons1:
  "insert_on_conflict key merge guard [new] tbl = Some (upsert1 key merge guard new tbl)"
  by (simp add: insert_on_conflict_def upsert_row_def upsert1_def split: option.split)

text \<open>A property of rows that the update keeps is kept by the statement.\<close>

lemma upsert_row_all:
  assumes "upsert_row key merge guard new st = Some st'" and "P new" and "\<forall>r \<in> set (fst st). P r"
    and "\<And>r. P r \<Longrightarrow> P (merge r new)"
  shows "\<forall>r \<in> set (fst st'). P r"
  using assms by (auto simp: upsert_row_def update_where_def split: option.splits if_splits)

lemma upsert_rows_all:
  assumes "upsert_rows key merge guard news st = Some st'" and "\<forall>n \<in> set news. P n"
    and "\<forall>r \<in> set (fst st). P r" and "\<And>r n. P r \<Longrightarrow> P (merge r n)"
  shows "\<forall>r \<in> set (fst st'). P r"
  using assms(1-3)
proof (induction news arbitrary: st)
  case (Cons n news)
  obtain st1 where st1: "upsert_row key merge guard n st = Some st1"
      and rest: "upsert_rows key merge guard news st1 = Some st'"
    using Cons.prems(1) by (auto split: option.splits)
  have "\<forall>r \<in> set (fst st1). P r"
    using upsert_row_all [where P = P, OF st1] Cons.prems(2,3) assms(4) by auto
  with Cons.IH [OF rest] Cons.prems(2) show ?case by simp
qed simp

lemma insert_on_conflict_all:
  assumes "insert_on_conflict key merge guard news tbl = Some tbl'" and "\<forall>n \<in> set news. P n"
    and "\<forall>r \<in> set tbl. P r" and "\<And>r n. P r \<Longrightarrow> P (merge r n)"
  shows "\<forall>r \<in> set tbl'. P r"
proof -
  obtain ks where "upsert_rows key merge guard news (tbl, []) = Some (tbl', ks)"
    using assms(1) by (auto simp: insert_on_conflict_def)
  from upsert_rows_all [where P = P, OF this] assms(2-4) show ?thesis by simp
qed

section \<open>The contract of an upserted table\<close>

locale upsert_table =
  fixes key :: "'r \<Rightarrow> 'k" and merge :: "'r \<Rightarrow> 'r \<Rightarrow> 'r" and guard :: "'r \<Rightarrow> 'r \<Rightarrow> bool"
  assumes key_merge: "key r = key new \<Longrightarrow> key (merge r new) = key r"
begin

lemma map_key_merge [simp]:
  "map key (update_where (\<lambda>r. key r = key new) (\<lambda>r. merge r new) tbl) = map key tbl"
  by (intro keys_update_where) (rule key_merge)

lemma keys_upsert1: "key ` set (upsert1 key merge guard new tbl) = insert (key new) (key ` set tbl)"
proof (cases "lookup key tbl (key new)")
  case (Some old)
  then have "key new \<in> key ` set tbl" by (metis lookup_None_iff option.distinct(1))
  moreover have "key ` set (update_where (\<lambda>r. key r = key new) (\<lambda>r. merge r new) tbl) = key ` set tbl"
    using map_key_merge [of new tbl] by (metis list.set_map)
  ultimately show ?thesis using Some by (simp add: upsert1_def insert_absorb)
qed (simp add: upsert1_def)

lemma unique_upsert1:
  "distinct (map key tbl) \<Longrightarrow> distinct (map key (upsert1 key merge guard new tbl))"
  by (auto simp: upsert1_def lookup_None_iff split: option.split)

lemma lookup_upsert1:
  "lookup key (upsert1 key merge guard new tbl) k =
     (if k = key new
      then Some (case lookup key tbl k of None \<Rightarrow> new
                 | Some old \<Rightarrow> if guard old new then merge old new else old)
      else lookup key tbl k)"
proof -
  have "lookup key (update_where (\<lambda>r. key r = key new) (\<lambda>r. merge r new) tbl) k =
      map_option (\<lambda>r. if key r = key new then merge r new else r) (lookup key tbl k)"
    by (rule lookup_update_where) (rule key_merge)
  also have "\<dots> = (if k = key new then map_option (\<lambda>r. merge r new) (lookup key tbl k) else lookup key tbl k)"
    using lookup_SomeD [of key tbl k] by (cases "lookup key tbl k") auto
  finally have upd: "lookup key (update_where (\<lambda>r. key r = key new) (\<lambda>r. merge r new) tbl) k =
      (if k = key new then map_option (\<lambda>r. merge r new) (lookup key tbl k) else lookup key tbl k)" .
  then show ?thesis
    by (cases "lookup key tbl (key new)") (auto simp: upsert1_def lookup_append split: option.split)
qed

lemma upsert_rows_distinct:
  assumes "distinct (map key news)" and "key ` set news \<inter> set ks = {}"
  shows "\<exists>ks'. upsert_rows key merge guard news (tbl, ks) = Some (fold (upsert1 key merge guard) news tbl, ks')"
  using assms
proof (induction news arbitrary: tbl ks)
  case (Cons new news)
  let ?ks = "if lookup key tbl (key new) = None \<or> guard (the (lookup key tbl (key new))) new
    then key new # ks else ks"
  have "upsert_row key merge guard new (tbl, ks) = Some (upsert1 key merge guard new tbl, ?ks)"
    using Cons.prems by (auto simp: upsert_row_def upsert1_def split: option.split)
  moreover have "key ` set news \<inter> set ?ks = {}"
    using Cons.prems by auto
  ultimately show ?case using Cons.IH [of ?ks "upsert1 key merge guard new tbl"] Cons.prems by auto
qed simp

text \<open>Rows with distinct keys: one statement has the effect of one statement per row.\<close>

lemma insert_distinct:
  "distinct (map key news) \<Longrightarrow>
   insert_on_conflict key merge guard news tbl = Some (fold (upsert1 key merge guard) news tbl)"
  using upsert_rows_distinct [of news "[]" tbl] by (auto simp: insert_on_conflict_def)

lemma upsert_rows_touched:
  assumes "key new \<in> set news_keys" and "set news_keys \<subseteq> key ` set tbl"
  shows "upsert_rows key merge guard (xs @ new # ys) (tbl, news_keys) = None"
  using assms
proof (induction xs arbitrary: tbl news_keys)
  case Nil
  then show ?case by (auto simp: upsert_row_def lookup_None_iff split: option.split)
next
  case (Cons x xs)
  have keep: "key new \<in> set (key x # news_keys) \<and> set (key x # news_keys) \<subseteq> key ` set (upsert1 key merge guard x tbl)"
    using Cons.prems by (auto simp: keys_upsert1)
  show ?case
  proof (cases "upsert_row key merge guard x (tbl, news_keys)")
    case (Some st)
    then have "st = (upsert1 key merge guard x tbl, key x # news_keys) \<or> st = (tbl, news_keys)"
      by (auto simp: upsert_row_def upsert1_def split: option.splits if_splits)
    then show ?thesis using Cons.IH Cons.prems keep Some by auto
  qed simp
qed

text \<open>Two rows with one key that is new to the table make the statement fail, wherever they are.\<close>

lemma upsert_rows_duplicate:
  assumes "key a = key b" and "set ks \<subseteq> key ` set tbl" and "key a \<in> key ` set tbl \<longrightarrow> key a \<in> set ks"
  shows "upsert_rows key merge guard (xs @ a # ys @ b # zs) (tbl, ks) = None"
  using assms
proof (induction xs arbitrary: tbl ks)
  case Nil
  show ?case
  proof (cases "key a \<in> key ` set tbl")
    case True
    then show ?thesis using upsert_rows_touched [of a ks tbl "[]"] Nil by simp
  next
    case False
    then have "upsert_row key merge guard a (tbl, ks) = Some (tbl @ [a], key a # ks)"
      using lookup_None_iff [of key tbl "key a"] by (simp add: upsert_row_def)
    moreover have "upsert_rows key merge guard (ys @ b # zs) (tbl @ [a], key a # ks) = None"
      by (rule upsert_rows_touched) (use Nil in auto)
    ultimately show ?thesis by simp
  qed
next
  case (Cons x xs)
  have keep: "set (key x # ks) \<subseteq> key ` set (upsert1 key merge guard x tbl)"
      "key a \<in> key ` set (upsert1 key merge guard x tbl) \<longrightarrow> key a \<in> set (key x # ks)"
    using Cons.prems by (auto simp: keys_upsert1)
  show ?case
  proof (cases "upsert_row key merge guard x (tbl, ks)")
    case (Some st)
    then have "st = (upsert1 key merge guard x tbl, key x # ks) \<or> st = (tbl, ks)"
      by (auto simp: upsert_row_def upsert1_def split: option.splits if_splits)
    then show ?thesis using Cons.IH [OF Cons.prems] Cons.IH [OF Cons.prems(1) keep] Some by auto
  qed simp
qed

lemma insert_duplicate_fails:
  assumes "key a = key b" and "key a \<notin> key ` set tbl"
  shows "insert_on_conflict key merge guard (xs @ a # ys @ b # zs) tbl = None"
  using upsert_rows_duplicate [of a b "[]" tbl] assms by (simp add: insert_on_conflict_def)

lemma unique_upsert_rows:
  "upsert_rows key merge guard news st = Some st' \<Longrightarrow> distinct (map key (fst st)) \<Longrightarrow> distinct (map key (fst st'))"
proof (induction news arbitrary: st)
  case (Cons n news)
  obtain st1 where st1: "upsert_row key merge guard n st = Some st1"
      and rest: "upsert_rows key merge guard news st1 = Some st'"
    using Cons.prems(1) by (auto split: option.splits)
  have "distinct (map key (fst st1))"
    using st1 Cons.prems(2)
    by (auto simp: upsert_row_def lookup_None_iff split: option.splits if_splits)
  with Cons.IH [OF rest] show ?case by simp
qed simp

lemma unique_insert:
  "insert_on_conflict key merge guard news tbl = Some tbl' \<Longrightarrow> distinct (map key tbl) \<Longrightarrow> distinct (map key tbl')"
  using unique_upsert_rows [of news "(tbl, [])"] by (auto simp: insert_on_conflict_def)

lemma keys_upsert_rows:
  "upsert_rows key merge guard news st = Some st' \<Longrightarrow> key ` set (fst st') = key ` set (fst st) \<union> key ` set news"
proof (induction news arbitrary: st)
  case (Cons n news)
  obtain st1 where st1: "upsert_row key merge guard n st = Some st1"
      and rest: "upsert_rows key merge guard news st1 = Some st'"
    using Cons.prems by (auto split: option.splits)
  have "fst st1 = upsert1 key merge guard n (fst st)"
    using st1 by (auto simp: upsert_row_def upsert1_def split: option.splits if_splits)
  with Cons.IH [OF rest] show ?case by (simp add: keys_upsert1)
qed simp

text \<open>A statement that succeeds leaves a row for every key it names.\<close>

lemma keys_insert:
  assumes "insert_on_conflict key merge guard news tbl = Some tbl'"
  shows "key ` set tbl' = key ` set tbl \<union> key ` set news"
proof -
  obtain ks where "upsert_rows key merge guard news (tbl, []) = Some (tbl', ks)"
    using assms by (auto simp: insert_on_conflict_def)
  from keys_upsert_rows [OF this] show ?thesis by simp
qed

lemma unique_fold: "distinct (map key tbl) \<Longrightarrow> distinct (map key (fold (upsert1 key merge guard) news tbl))"
  by (induction news arbitrary: tbl) (auto simp: unique_upsert1)

end

end
