(* ===== verification/Database.thy ===== *)
theory Database
  imports Tool Sql
begin

text \<open>
  The Postgres tables the SDK reads and writes, with the columns its statements name, and one
  statement sent through the pool. What the sources leave to the database is a parameter: how a JSON
  text is read as \<open>jsonb\<close>, the digest of a \<open>jsonb\<close> value, generated row ids, the default of
  \<open>assets.last_seen\<close>, and the clock of the statement. A \<open>jsonb\<close> object is represented by the
  map that \<open>encoding/json\<close> decodes it to. Triggers are not modelled.
\<close>

section \<open>Tables\<close>

record asset_row =
  ar_id :: uuid
  ar_scope :: uuid
  ar_kind :: string
  ar_value :: string
  ar_parent :: "uuid option"
  ar_attrs :: gmap
  ar_fingerprint :: "bytes option"
  ar_state :: string
  ar_last_seen :: time

record health_row =
  mh_tool :: string
  mh_status :: string
  mh_class :: string
  mh_message :: string
  mh_last_check :: time
  mh_last_success :: "time option"
  mh_last_failure :: "time option"
  mh_consecutive :: int
  mh_failures :: int
  mh_successes :: int
  mh_extra :: gmap
  mh_failed_key :: "uuid option"

record key_row =
  ak_id :: uuid
  ak_value :: string
  ak_expires :: "time option"
  ak_quota_remaining :: "int option"
  ak_quota_limit :: "int option"
  ak_seen :: "time option"

record worker_row =
  wk_instance :: string
  wk_tool :: string
  wk_version :: string
  wk_sdk :: string
  wk_queues :: "string list"
  wk_manifest :: gmap
  wk_meta :: gmap
  wk_started :: time
  wk_heartbeat :: time

record list_row =
  li_name :: string
  li_content_gz :: "bytes option"
  li_content_hash :: "string option"
  li_last_status :: string

record source_row =
  sr_url_hash :: bytes
  sr_path :: string
  sr_content :: bytes
  sr_sha256 :: bytes
  sr_fetched_at :: time

record db =
  db_assets :: "asset_row list"
  db_health :: "health_row list"
  db_keys :: "key_row list"
  db_workers :: "worker_row list"
  db_configs :: "(string \<times> bytes) list"
  db_lists :: "list_row list"
  db_sources :: "source_row list"

definition empty_db :: db where
  "empty_db = \<lparr>db_assets = [], db_health = [], db_keys = [], db_workers = [], db_configs = [],
     db_lists = [], db_sources = []\<rparr>"

section \<open>What is left to the database\<close>

record pg =
  pg_jsonb :: "string \<Rightarrow> gmap option"
  pg_digest :: "gmap \<Rightarrow> bytes"
  pg_gen_id :: "uuid \<Rightarrow> string \<Rightarrow> string \<Rightarrow> uuid"
  pg_first_seen :: time
  pg_now :: time

text \<open>The error of a statement the server rejects.\<close>

definition sql_error :: go_error where
  "sql_error = ErrorText ''SQLSTATE'' None"

text \<open>
  One statement. The outcome of the round trip is the head of a list of faults: \<open>None\<close> when the
  server's answer arrives, \<open>Some (e, True)\<close> when the connection is lost after the statement took
  effect and \<open>Some (e, False)\<close> when it is lost before. An exhausted list has no more faults.
\<close>

type_synonym fault = "(go_error \<times> bool) option"

definition pgexec ::
  "('d \<Rightarrow> 'd option) \<Rightarrow> 'd \<times> fault list \<Rightarrow> go_error option \<times> 'd \<times> fault list" where
  "pgexec stmt st =
     (let d = fst st; fs = snd st; d' = (case stmt d of None \<Rightarrow> d | Some d' \<Rightarrow> d') in
      case fs of
        Some (e, applied) # fs' \<Rightarrow> (Some e, if applied then d' else d, fs')
      | _ \<Rightarrow> (if stmt d = None then Some sql_error else None, d', tl fs))"

text \<open>One query that returns at most one row: the row, no row, or an error.\<close>

definition pgquery ::
  "('d \<Rightarrow> 'a option) \<Rightarrow> 'd \<times> fault list \<Rightarrow> (go_error, 'a option) result \<times> 'd \<times> fault list" where
  "pgquery q st =
     (case snd st of
        Some (e, _) # fs' \<Rightarrow> (Inl e, fst st, fs')
      | _ \<Rightarrow> (Inr (q (fst st)), fst st, tl (snd st)))"

lemma pgexec_no_fault [simp]:
  "pgexec stmt (d, []) = (if stmt d = None then (Some sql_error, d, []) else (None, the (stmt d), []))"
  by (auto simp: pgexec_def)

lemma pgquery_no_fault [simp]: "pgquery q (d, []) = (Inr (q d), d, [])"
  by (simp add: pgquery_def)

text \<open>A statement leaves the database as it was or applies its effect, whatever happens to the answer.\<close>

lemma pgexec_cases:
  assumes "pgexec stmt (d, fs) = (r, d', fs')"
  shows "d' = d \<or> stmt d = Some d'"
  using assms by (auto simp: pgexec_def Let_def split: list.splits option.splits prod.splits if_splits)

lemma pgexec_ok:
  assumes "pgexec stmt (d, fs) = (None, d', fs')"
  shows "stmt d = Some d'"
  using assms by (auto simp: pgexec_def Let_def split: list.splits option.splits prod.splits if_splits)

section \<open>The jsonb concatenation operator\<close>

text \<open>\<open>a || b\<close> on objects: the members of \<open>b\<close> replace or extend those of \<open>a\<close>, without recursion.\<close>

definition jsonb_concat :: "gmap \<Rightarrow> gmap \<Rightarrow> gmap" where
  "jsonb_concat a b = fold (\<lambda>kv m. map_put m (fst kv) (snd kv)) b a"

lemma go_map_concat [simp]: "go_map a \<Longrightarrow> go_map (jsonb_concat a b)"
  by (induction b arbitrary: a) (auto simp: jsonb_concat_def)

lemma map_of_concat: "go_map b \<Longrightarrow> map_of (jsonb_concat a b) = map_of a ++ map_of b"
proof (induction b arbitrary: a)
  case (Cons kv b)
  obtain k v where [simp]: "kv = (k, v)" by (cases kv)
  from Cons.prems have "k \<notin> fst ` set b" by simp
  then have "map_of b k = None" by (simp add: map_of_eq_None_iff)
  with Cons show ?case
    by (auto simp: jsonb_concat_def map_add_def fun_eq_iff split: option.split)
qed (simp add: jsonb_concat_def)

end
