(* ===== verification/Asset_Writer.thy ===== *)
theory Asset_Writer
  imports Database Sha256
begin

text \<open>
  The persistence shim of the SDK (worker/asset_writer.go): attribute fingerprints, the one-row
  upsert, the batched upsert with its query text, the server-side merge and the parent link.
  Shown: fingerprints do not depend on map order; the batch has the effect of one upsert after
  another when the identities are distinct, and fails as a whole when they are not; the identity
  (scope, kind, value) stays unique; the placeholders of the generated query number the arguments.
\<close>

section \<open>Fingerprints\<close>

fun canonicalizeForHash :: "gval \<Rightarrow> gval" where
  "canonicalizeForHash (GMap m) =
     (let cs = map (\<lambda>kv. (fst kv, canonicalizeForHash (snd kv))) m
      in GList (map (\<lambda>k. GList [GStr k, the (map_of cs k)]) (sort (map fst m))))"
| "canonicalizeForHash (GList vs) = GList (map canonicalizeForHash vs)"
| "canonicalizeForHash v = v"

text \<open>The encoder appends a newline, and writes nothing when it fails.\<close>

definition fingerprint_input :: "gmap \<Rightarrow> bytes" where
  "fingerprint_input attrs =
     (case marshal (canonicalizeForHash (GMap attrs)) of None \<Rightarrow> [] | Some t \<Rightarrow> t @ [CHR 0x0A])"

definition fingerprintAttrs :: "gmap \<Rightarrow> bytes" where
  "fingerprintAttrs attrs = sha256 (fingerprint_input attrs)"

section \<open>Query text\<close>

text \<open>
  \<open>appendInt\<close> fills a buffer of twelve bytes from its end; a thirteenth digit is an index out of
  range, \<open>None\<close> here.
\<close>

function appendInt_loop :: "bytes \<Rightarrow> int \<Rightarrow> bytes option" where
  "appendInt_loop tmp n =
     (if n > 0 then
        (if length tmp = 12 then None
         else appendInt_loop (char_of (48 + n mod 10) # tmp) (n div 10))
      else Some tmp)"
  by pat_completeness auto
termination
  by (relation "measure (\<lambda>(tmp, n). nat n)") auto

declare appendInt_loop.simps [simp del]

definition appendInt :: "bytes \<Rightarrow> int \<Rightarrow> bytes option" where
  "appendInt buf n =
     (if n < 10 then Some (buf @ [char_of (48 + n)])
      else map_option ((@) buf) (appendInt_loop [] n))"

fun tuple_loop :: "int \<Rightarrow> int \<Rightarrow> nat \<Rightarrow> bytes \<Rightarrow> bytes option" where
  "tuple_loop base i 0 buf = Some buf"
| "tuple_loop base i (Suc n) buf =
     (let buf = (if i > 0 then buf @ '','' else buf) in
      case appendInt (buf @ ''$'') (base + i) of
        None \<Rightarrow> None
      | Some buf \<Rightarrow> tuple_loop base (i + 1) n (if i = 4 then buf @ ''::jsonb'' else buf))"

definition appendValuesTuple :: "bytes \<Rightarrow> int \<Rightarrow> bytes option" where
  "appendValuesTuple buf base =
     map_option (\<lambda>buf. buf @ '','' @ [CHR 0x27] @ ''discovered'' @ [CHR 0x27] @ '')'')
       (tuple_loop base 0 6 (buf @ ''(''))"

section \<open>Statements\<close>

definition asset_key :: "asset_row \<Rightarrow> uuid \<times> string \<times> string" where
  "asset_key r = (ar_scope r, ar_kind r, ar_value r)"

definition asset_merge :: "time \<Rightarrow> asset_row \<Rightarrow> asset_row \<Rightarrow> asset_row" where
  "asset_merge now old new =
     old\<lparr>ar_attrs := jsonb_concat (ar_attrs old) (ar_attrs new),
         ar_fingerprint := ar_fingerprint new,
         ar_last_seen := now\<rparr>"

definition asset_guard :: "time \<Rightarrow> asset_row \<Rightarrow> asset_row \<Rightarrow> bool" where
  "asset_guard now old new \<longleftrightarrow>
     ar_fingerprint old \<noteq> ar_fingerprint new \<or> ar_last_seen old < now - Minute"

text \<open>The arguments bound to one tuple of the query: scope, kind, value, parent, attrs, fingerprint.\<close>

type_synonym row_args = "uuid \<times> string \<times> string \<times> uuid option \<times> string \<times> bytes"

fun new_row :: "pg \<Rightarrow> row_args \<Rightarrow> asset_row option" where
  "new_row env (scope, kind, value, parent, attrsJSON, fp) =
     map_option (\<lambda>j. \<lparr>ar_id = pg_gen_id env scope kind value, ar_scope = scope, ar_kind = kind,
         ar_value = value, ar_parent = parent, ar_attrs = j, ar_fingerprint = Some fp,
         ar_state = ''discovered'', ar_last_seen = pg_first_seen env\<rparr>)
       (pg_jsonb env attrsJSON)"

definition upsert_stmt :: "pg \<Rightarrow> row_args list \<Rightarrow> db \<Rightarrow> db option" where
  "upsert_stmt env args d =
     (case those (map (new_row env) args) of
        None \<Rightarrow> None
      | Some rows \<Rightarrow>
          map_option (\<lambda>t. d\<lparr>db_assets := t\<rparr>)
            (insert_on_conflict asset_key (asset_merge (pg_now env)) (asset_guard (pg_now env))
               rows (db_assets d)))"

section \<open>The writer\<close>

text \<open>The error of \<open>json.Marshal\<close>; its text is left out.\<close>

definition json_error :: go_error where
  "json_error = ErrorText ''json: unsupported value'' None"

definition FetchAsset ::
  "uuid \<Rightarrow> db \<times> fault list \<Rightarrow> (go_error, asset option) result \<times> db \<times> fault list" where
  "FetchAsset i st =
     pgquery (\<lambda>d. map_option (\<lambda>r. \<lparr>as_ID = ar_id r, as_ScopeID = ar_scope r, as_Kind = ar_kind r,
         as_Value = ar_value r,
         as_ParentID = (case ar_parent r of None \<Rightarrow> [] | Some p \<Rightarrow> p),
         as_Attrs = Some (ar_attrs r), as_State = ar_state r\<rparr>)
       (lookup ar_id (db_assets d) i)) st"

definition attrs_or_empty :: "asset \<Rightarrow> gmap" where
  "attrs_or_empty a = (case as_Attrs a of None \<Rightarrow> [] | Some m \<Rightarrow> m)"

definition UpsertAsset ::
  "pg \<Rightarrow> uuid \<Rightarrow> uuid option \<Rightarrow> asset \<Rightarrow> db \<times> fault list \<Rightarrow> go_error option \<times> db \<times> fault list" where
  "UpsertAsset env scopeID parentID a st =
     (if as_Kind a = [] \<or> as_Value a = []
      then (Some (ErrorText ''asset.{kind,value} required'' None), st)
      else
        let attrs = attrs_or_empty a in
        case marshal (GMap attrs) of
          None \<Rightarrow> (Some json_error, st)
        | Some attrsJSON \<Rightarrow>
            pgexec (upsert_stmt env
              [(scopeID, as_Kind a, as_Value a, parentID, attrsJSON, fingerprintAttrs attrs)]) st)"

text \<open>
  The loop of \<open>upsertChunk\<close>: the text of the tuples and the arguments of each row, or the error of
  the first asset that has one. \<open>parse\<close> stands for \<open>uuid.Parse\<close>. The outer \<open>None\<close> is the
  panic of \<open>appendInt\<close>.
\<close>

fun chunk_loop ::
  "(string \<Rightarrow> uuid option) \<Rightarrow> uuid \<Rightarrow> uuid option \<Rightarrow> nat \<Rightarrow> bytes \<Rightarrow> row_args list \<Rightarrow> asset list
   \<Rightarrow> (go_error, bytes \<times> row_args list) result option" where
  "chunk_loop parse scopeID parentID i values args [] = Some (Inr (values, args))"
| "chunk_loop parse scopeID parentID i values args (a # as) =
     (if as_Kind a = [] \<or> as_Value a = []
      then Some (Inl (ErrorText (''asset['' @ dec_nat i @ ''].{kind,value} required'') None))
      else
        let attrs = attrs_or_empty a in
        case marshal (GMap attrs) of
          None \<Rightarrow> Some (Inl json_error)
        | Some attrsJSON \<Rightarrow>
            (let override = (if as_ParentID a \<noteq> [] then parse (as_ParentID a) else None);
                 parentArg = (if override = None then parentID else override);
                 values = (if i > 0 then values @ '','' else values)
             in case appendValuesTuple values (int (i * 6) + 1) of
                  None \<Rightarrow> None
                | Some values \<Rightarrow>
                    chunk_loop parse scopeID parentID (Suc i) values
                      (args @ [(scopeID, as_Kind a, as_Value a, parentArg, attrsJSON, fingerprintAttrs attrs)])
                      as))"

definition upsertChunk ::
  "pg \<Rightarrow> (string \<Rightarrow> uuid option) \<Rightarrow> uuid \<Rightarrow> uuid option \<Rightarrow> asset list \<Rightarrow> db \<times> fault list
   \<Rightarrow> (go_error option \<times> db \<times> fault list) option" where
  "upsertChunk env parse scopeID parentID assets st =
     (case chunk_loop parse scopeID parentID 0 [] [] assets of
        None \<Rightarrow> None
      | Some (Inl e) \<Rightarrow> Some (Some e, st)
      | Some (Inr (values, args)) \<Rightarrow> Some (pgexec (upsert_stmt env args) st))"

function batch_loop ::
  "pg \<Rightarrow> (string \<Rightarrow> uuid option) \<Rightarrow> uuid \<Rightarrow> uuid option \<Rightarrow> asset list \<Rightarrow> db \<times> fault list
   \<Rightarrow> (go_error option \<times> db \<times> fault list) option" where
  "batch_loop env parse scopeID parentID assets st =
     (if assets = [] then Some (None, st)
      else case upsertChunk env parse scopeID parentID (take 500 assets) st of
        None \<Rightarrow> None
      | Some (Some e, st') \<Rightarrow> Some (Some e, st')
      | Some (None, st') \<Rightarrow> batch_loop env parse scopeID parentID (drop 500 assets) st')"
  by pat_completeness auto
termination
  by (relation "measure (\<lambda>(_, _, _, _, as, _). length as)") auto

declare batch_loop.simps [simp del]

definition UpsertAssetsBatch ::
  "pg \<Rightarrow> (string \<Rightarrow> uuid option) \<Rightarrow> uuid \<Rightarrow> uuid option \<Rightarrow> asset list \<Rightarrow> db \<times> fault list
   \<Rightarrow> (go_error option \<times> db \<times> fault list) option" where
  "UpsertAssetsBatch env parse scopeID parentID assets st =
     (if assets = [] then Some (None, st) else batch_loop env parse scopeID parentID assets st)"

definition MergeUpdate ::
  "pg \<Rightarrow> uuid \<Rightarrow> gmap option \<Rightarrow> db \<times> fault list \<Rightarrow> go_error option \<times> db \<times> fault list" where
  "MergeUpdate env assetID delta st =
     (case delta of
        None \<Rightarrow> (None, st)
      | Some m \<Rightarrow>
          (if m = [] then (None, st)
           else case marshal (GMap m) of
             None \<Rightarrow> (Some json_error, st)
           | Some deltaJSON \<Rightarrow>
               pgexec (\<lambda>d. case pg_jsonb env deltaJSON of
                   None \<Rightarrow> None
                 | Some j \<Rightarrow> Some (d\<lparr>db_assets := update_where (\<lambda>r. ar_id r = assetID)
                     (\<lambda>r. r\<lparr>ar_attrs := jsonb_concat (ar_attrs r) j,
                            ar_last_seen := pg_now env,
                            ar_fingerprint := Some (pg_digest env (jsonb_concat (ar_attrs r) j))\<rparr>)
                     (db_assets d)\<rparr>)) st))"

definition SetParentChain ::
  "uuid \<Rightarrow> uuid \<Rightarrow> db \<times> fault list \<Rightarrow> go_error option \<times> db \<times> fault list" where
  "SetParentChain childID parentID st =
     pgexec (\<lambda>d. Some (d\<lparr>db_assets := update_where (\<lambda>r. ar_id r = childID \<and> ar_parent r = None)
       (\<lambda>r. r\<lparr>ar_parent := Some parentID\<rparr>) (db_assets d)\<rparr>)) st"

interpretation assets_tbl: upsert_table asset_key "asset_merge now" "asset_guard now" for now
  by unfold_locales (simp add: asset_key_def asset_merge_def)

section \<open>Fingerprints do not depend on map order\<close>

lemma the_map_of_map_snd:
  "k \<in> fst ` set m \<Longrightarrow> the (map_of (map (\<lambda>kv. (fst kv, f (snd kv))) m) k) = f (the (map_of m k))"
  using map_of_key [of k m] by (auto simp: map_of_map_snd)

lemma canonicalizeForHash_map:
  "canonicalizeForHash (GMap m) =
     GList (map (\<lambda>k. GList [GStr k, canonicalizeForHash (the (map_of m k))]) (sort (map fst m)))"
  by (simp add: Let_def the_map_of_map_snd)

lemma marshal_canonicalizeForHash_same:
  "same_val v w \<Longrightarrow> marshal (canonicalizeForHash v) = marshal (canonicalizeForHash w)"
proof (induction rule: same_val.induct)
  case (same_list vs ws)
  then have eq: "map (marshal \<circ> canonicalizeForHash) vs = map (marshal \<circ> canonicalizeForHash) ws"
    by (auto simp: list_all2_conv_all_nth intro: nth_equalityI)
  show ?case by (simp add: eq)
next
  case (same_map m m')
  let ?e = "\<lambda>n k. marshal (GList [GStr k, canonicalizeForHash (the (map_of n k))])"
  have "map (?e m) (sort (map fst m)) = map (?e m') (sort (map fst m'))"
  proof (rule map_cong [OF sorted_keys_unique [OF same_map(1-3)]])
    fix k assume "k \<in> set (sort (map fst m'))"
    then have "k \<in> fst ` set m'" and "k \<in> fst ` set m" by (simp_all add: same_map(3))
    then obtain v w where "map_of m k = Some v" and "map_of m' k = Some w"
      using map_of_key by metis
    with same_map(5) show "?e m k = ?e m' k" by simp
  qed
  then show ?case
    by (simp add: canonicalizeForHash_map o_def del: canonicalizeForHash.simps)
qed (simp_all add: marshal_same_val)

lemma canonicalizeForHash_idem: "canonicalizeForHash (canonicalizeForHash v) = canonicalizeForHash v"
proof (induction v)
  case (GMap m)
  have "canonicalizeForHash (canonicalizeForHash (the (map_of m k))) = canonicalizeForHash (the (map_of m k))"
    if key: "k \<in> fst ` set m" for k
  proof -
    obtain v where v: "map_of m k = Some v" using map_of_key [OF key] by blast
    then have "(k, v) \<in> set m" by (rule map_of_SomeD)
    then show ?thesis using GMap.IH [of "(k, v)" v] by (simp add: v)
  qed
  then show ?case
    by (simp add: canonicalizeForHash_map del: canonicalizeForHash.simps(1))
qed simp_all

section \<open>Query text\<close>

lemma char_of_digit: "0 \<le> n \<Longrightarrow> char_of (48 + n mod 10 :: int) = (char_of (48 + nat n mod 10) :: char)"
proof -
  assume "0 \<le> n"
  then have "48 + n mod 10 = int (48 + nat n mod 10)" by (simp add: zmod_int)
  then show ?thesis by (simp only: char_of_nat)
qed

lemma appendInt_loop_dec:
  "0 < n \<Longrightarrow> n < 10 ^ (12 - length tmp) \<Longrightarrow> length tmp \<le> 12 \<Longrightarrow>
   appendInt_loop tmp n = Some (dec_nat (nat n) @ tmp)"
proof (induction tmp n rule: appendInt_loop.induct)
  case (1 tmp n)
  from 1(3,2) have len: "length tmp \<noteq> 12" by auto
  with 1(4) have len': "12 - length tmp = Suc (11 - length tmp)" by simp
  let ?c = "char_of (48 + n mod 10) # tmp"
  have step: "appendInt_loop tmp n = appendInt_loop ?c (n div 10)"
    using 1(2) len by (subst appendInt_loop.simps) simp
  show ?case
  proof (cases "n < 10")
    case True
    with 1(2) have "n div 10 = 0" by simp
    then have "appendInt_loop ?c (n div 10) = Some ?c"
      by (subst appendInt_loop.simps) simp
    with step True 1(2) show ?thesis
      using char_of_digit [of n] by (simp add: dec_nat.simps [of "nat n"])
  next
    case False
    have "n div 10 < 10 ^ (12 - length ?c)" and "length ?c \<le> 12"
      using 1(3,4) len len' by auto
    then have "appendInt_loop ?c (n div 10) = Some (dec_nat (nat (n div 10)) @ ?c)"
      using 1(1) 1(2) len False by simp
    moreover have "dec_nat (nat n) = dec_nat (nat (n div 10)) @ [char_of (48 + n mod 10)]"
      using False char_of_digit [of n] by (subst dec_nat.simps) (simp add: nat_div_distrib)
    ultimately show ?thesis using step by simp
  qed
qed

lemma appendInt_dec: "0 \<le> n \<Longrightarrow> n < 10 ^ 12 \<Longrightarrow> appendInt buf n = Some (buf @ dec_int n)"
  using char_of_digit [of n] appendInt_loop_dec [of n "[]"]
  by (auto simp: appendInt_def dec_int_def dec_nat.simps [of "nat n"])

text \<open>The tuple with placeholders numbered from \<open>b\<close>.\<close>

definition tuple_text :: "int \<Rightarrow> bytes" where
  "tuple_text b = ''($'' @ dec_int b @ '',$'' @ dec_int (b + 1) @ '',$'' @ dec_int (b + 2)
     @ '',$'' @ dec_int (b + 3) @ '',$'' @ dec_int (b + 4) @ ''::jsonb,$'' @ dec_int (b + 5)
     @ '','' @ [CHR 0x27] @ ''discovered'' @ [CHR 0x27] @ '')''"

lemma appendValuesTuple_text:
  "0 \<le> b \<Longrightarrow> b + 5 < 10 ^ 12 \<Longrightarrow> appendValuesTuple buf b = Some (buf @ tuple_text b)"
  by (simp add: appendValuesTuple_def tuple_text_def eval_nat_numeral Let_def appendInt_dec)

definition parent_arg :: "(string \<Rightarrow> uuid option) \<Rightarrow> uuid option \<Rightarrow> asset \<Rightarrow> uuid option" where
  "parent_arg parse parentID a =
     (case (if as_ParentID a \<noteq> [] then parse (as_ParentID a) else None) of
        None \<Rightarrow> parentID | Some p \<Rightarrow> Some p)"

definition asset_args :: "(string \<Rightarrow> uuid option) \<Rightarrow> uuid \<Rightarrow> uuid option \<Rightarrow> asset \<Rightarrow> row_args" where
  "asset_args parse scopeID parentID a =
     (scopeID, as_Kind a, as_Value a, parent_arg parse parentID a,
      the (marshal (GMap (attrs_or_empty a))), fingerprintAttrs (attrs_or_empty a))"

text \<open>An asset the writer and the database accept.\<close>

definition asset_ok :: "pg \<Rightarrow> asset \<Rightarrow> bool" where
  "asset_ok env a \<longleftrightarrow> as_Kind a \<noteq> [] \<and> as_Value a \<noteq> []
     \<and> (case marshal (GMap (attrs_or_empty a)) of None \<Rightarrow> False | Some t \<Rightarrow> pg_jsonb env t \<noteq> None)"

definition tuples_from :: "nat \<Rightarrow> nat \<Rightarrow> bytes list" where
  "tuples_from i n = map (\<lambda>j. tuple_text (int (j * 6) + 1)) [i..<i + n]"

lemma tuples_from_Suc: "tuples_from i (Suc n) = tuple_text (int (i * 6) + 1) # tuples_from (Suc i) n"
  by (simp add: tuples_from_def upt_conv_Cons del: upt_Suc)

lemma tuples_from_0 [simp]: "tuples_from i 0 = []"
  by (simp add: tuples_from_def)

definition comma_join :: "nat \<Rightarrow> bytes \<Rightarrow> bytes list \<Rightarrow> bytes" where
  "comma_join i buf ts = buf @ (if i > 0 then concat (map (\<lambda>t. '','' @ t) ts) else join_with (CHR '','') ts)"

lemma comma_join_Cons:
  "comma_join i buf (t # ts) = comma_join (Suc i) ((if i > 0 then buf @ '','' else buf) @ t) ts"
proof -
  have "join_with (CHR '','') (t # ts) = t @ concat (map ((@) '','') ts)"
    by (induction ts arbitrary: t) auto
  then show ?thesis by (simp add: comma_join_def)
qed

lemma chunk_loop_step:
  assumes "i < 100000000000"
  shows "chunk_loop parse scopeID parentID i vals args (a # assets) =
    (if as_Kind a = [] \<or> as_Value a = []
     then Some (Inl (ErrorText (''asset['' @ dec_nat i @ ''].{kind,value} required'') None))
     else if marshal (GMap (attrs_or_empty a)) = None then Some (Inl json_error)
     else chunk_loop parse scopeID parentID (Suc i)
       ((if i > 0 then vals @ '','' else vals) @ tuple_text (int (i * 6) + 1))
       (args @ [asset_args parse scopeID parentID a]) assets)"
proof -
  have tup: "appendValuesTuple buf (int (i * 6) + 1) = Some (buf @ tuple_text (int (i * 6) + 1))" for buf
    using assms by (intro appendValuesTuple_text) simp_all
  have par: "(if q = None then parentID else q) = (case q of None \<Rightarrow> parentID | Some p \<Rightarrow> Some p)" for q
    by (cases q) auto
  show ?thesis
    by (cases "marshal (GMap (attrs_or_empty a))")
      (simp_all only: chunk_loop.simps Let_def tup par asset_args_def parent_arg_def option.simps if_True if_False
        option.sel simp_thms)
qed

lemma chunk_loop_result:
  assumes "i + length assets \<le> 100000000000"
  shows "\<exists>r. chunk_loop parse scopeID parentID i vals args assets = Some r \<and>
    (\<forall>vs xs. r = Inr (vs, xs) \<longrightarrow> vs = comma_join i vals (tuples_from i (length assets))
       \<and> xs = args @ map (asset_args parse scopeID parentID) assets)"
  using assms
proof (induction assets arbitrary: i vals args)
  case Nil
  then show ?case by (simp add: comma_join_def)
next
  case (Cons a assets)
  from Cons.prems have "i < 100000000000" by simp
  from chunk_loop_step [OF this] show ?case
    using Cons.IH [of "Suc i" "(if i > 0 then vals @ '','' else vals) @ tuple_text (int (i * 6) + 1)"
        "args @ [asset_args parse scopeID parentID a]"] Cons.prems
    by (simp add: tuples_from_Suc comma_join_Cons del: chunk_loop.simps marshal.simps)
qed

lemma chunk_loop_ok:
  assumes "\<forall>a \<in> set assets. asset_ok env a" and "i + length assets \<le> 100000000000"
  shows "\<exists>vs. chunk_loop parse scopeID parentID i vals args assets
    = Some (Inr (vs, args @ map (asset_args parse scopeID parentID) assets))"
  using assms
proof (induction assets arbitrary: i vals args)
  case (Cons a assets)
  from Cons.prems have "as_Kind a \<noteq> []" "as_Value a \<noteq> []" "marshal (GMap (attrs_or_empty a)) \<noteq> None"
    by (auto simp: asset_ok_def split: option.splits)
  moreover from Cons.prems have "i < 100000000000" by simp
  ultimately show ?case
    using Cons.IH [of "Suc i" "(if i > 0 then vals @ '','' else vals) @ tuple_text (int (i * 6) + 1)"
        "args @ [asset_args parse scopeID parentID a]"] Cons.prems
    by (simp add: chunk_loop_step del: chunk_loop.simps marshal.simps)
qed simp

section \<open>One statement per chunk or one per asset\<close>

definition asset_new :: "pg \<Rightarrow> (string \<Rightarrow> uuid option) \<Rightarrow> uuid \<Rightarrow> uuid option \<Rightarrow> asset \<Rightarrow> asset_row" where
  "asset_new env parse scopeID parentID a = the (new_row env (asset_args parse scopeID parentID a))"

lemma new_row_ok:
  "asset_ok env a \<Longrightarrow>
   new_row env (asset_args parse scopeID parentID a) = Some (asset_new env parse scopeID parentID a)"
  by (auto simp: asset_ok_def asset_new_def asset_args_def split: option.splits)

lemma asset_new_key:
  "asset_ok env a \<Longrightarrow> asset_key (asset_new env parse scopeID parentID a) = (scopeID, as_Kind a, as_Value a)"
  by (auto simp: asset_ok_def asset_new_def asset_args_def asset_key_def split: option.splits)

lemma those_new_rows:
  "\<forall>a \<in> set assets. asset_ok env a \<Longrightarrow>
   those (map (new_row env) (map (asset_args parse scopeID parentID) assets))
     = Some (map (asset_new env parse scopeID parentID) assets)"
  by (induction assets) (auto simp: new_row_ok)

abbreviation upsert_assets :: "pg \<Rightarrow> asset_row list \<Rightarrow> asset_row list \<Rightarrow> asset_row list option" where
  "upsert_assets env \<equiv> insert_on_conflict asset_key (asset_merge (pg_now env)) (asset_guard (pg_now env))"

lemma upsertChunk_ok:
  assumes "\<forall>a \<in> set assets. asset_ok env a" and "length assets \<le> 500"
  shows "upsertChunk env parse scopeID parentID assets (d, []) = Some
    (case upsert_assets env (map (asset_new env parse scopeID parentID) assets) (db_assets d) of
       None \<Rightarrow> (Some sql_error, d, [])
     | Some t \<Rightarrow> (None, d\<lparr>db_assets := t\<rparr>, []))"
proof -
  obtain vs where "chunk_loop parse scopeID parentID 0 [] [] assets
      = Some (Inr (vs, map (asset_args parse scopeID parentID) assets))"
    using chunk_loop_ok [OF assms(1), of 0 parse scopeID parentID "[]" "[]"] assms(2) by auto
  then show ?thesis
    using those_new_rows [OF assms(1), of parse scopeID parentID]
    by (simp add: upsertChunk_def upsert_stmt_def split: option.split)
qed

abbreviation upsert1_asset :: "pg \<Rightarrow> asset_row \<Rightarrow> asset_row list \<Rightarrow> asset_row list" where
  "upsert1_asset env \<equiv> upsert1 asset_key (asset_merge (pg_now env)) (asset_guard (pg_now env))"

text \<open>The row a one-asset upsert offers: \<open>UpsertAsset\<close> ignores the parent named in the asset.\<close>

definition asset_row1 :: "pg \<Rightarrow> uuid \<Rightarrow> uuid option \<Rightarrow> asset \<Rightarrow> asset_row" where
  "asset_row1 env scopeID parentID a = asset_new env (\<lambda>_. None) scopeID parentID a"

lemma asset_row1_eq: "as_ParentID a = [] \<Longrightarrow> asset_new env parse scopeID parentID a = asset_row1 env scopeID parentID a"
  by (simp add: asset_row1_def asset_new_def asset_args_def parent_arg_def)

lemma UpsertAsset_ok:
  assumes "asset_ok env a"
  shows "UpsertAsset env scopeID parentID a (d, [])
    = (None, d\<lparr>db_assets := upsert1_asset env (asset_row1 env scopeID parentID a) (db_assets d)\<rparr>, [])"
proof -
  obtain t where t: "marshal (GMap (attrs_or_empty a)) = Some t"
    using assms by (auto simp: asset_ok_def split: option.splits)
  have args: "asset_args (\<lambda>_. None) scopeID parentID a
      = (scopeID, as_Kind a, as_Value a, parentID, t, fingerprintAttrs (attrs_or_empty a))"
    by (simp add: asset_args_def parent_arg_def t del: marshal.simps)
  have "upsert_stmt env [(scopeID, as_Kind a, as_Value a, parentID, t, fingerprintAttrs (attrs_or_empty a))] d
      = Some (d\<lparr>db_assets := upsert1_asset env (asset_row1 env scopeID parentID a) (db_assets d)\<rparr>)"
    using new_row_ok [OF assms, of "\<lambda>_. None" scopeID parentID]
    by (simp add: upsert_stmt_def args insert_on_conflict_Cons1 asset_row1_def del: new_row.simps)
  then show ?thesis
    using assms by (simp add: UpsertAsset_def Let_def t asset_ok_def del: marshal.simps)
qed

lemma UpsertAsset_success: "UpsertAsset env scopeID parentID a (d, []) = (None, st) \<Longrightarrow> asset_ok env a"
  by (auto simp: UpsertAsset_def Let_def asset_ok_def upsert_stmt_def simp del: marshal.simps
      split: if_splits option.splits)

fun upsert_each ::
  "pg \<Rightarrow> uuid \<Rightarrow> uuid option \<Rightarrow> asset list \<Rightarrow> db \<times> fault list \<Rightarrow> go_error option \<times> db \<times> fault list" where
  "upsert_each env scopeID parentID [] st = (None, st)"
| "upsert_each env scopeID parentID (a # as) st =
     (case UpsertAsset env scopeID parentID a st of
        (Some e, st') \<Rightarrow> (Some e, st')
      | (None, st') \<Rightarrow> upsert_each env scopeID parentID as st')"

lemma upsert_each_append:
  "upsert_each env scopeID parentID (xs @ ys) st =
     (case upsert_each env scopeID parentID xs st of
        (Some e, st') \<Rightarrow> (Some e, st')
      | (None, st') \<Rightarrow> upsert_each env scopeID parentID ys st')"
  by (induction xs arbitrary: st) (auto split: prod.splits option.splits)

lemma upsert_each_success:
  assumes "upsert_each env scopeID parentID as (d, []) = (None, st)"
  shows "(\<forall>a \<in> set as. asset_ok env a) \<and>
    st = (d\<lparr>db_assets := fold (upsert1_asset env) (map (asset_row1 env scopeID parentID) as) (db_assets d)\<rparr>, [])"
  using assms
proof (induction as arbitrary: d)
  case (Cons a as)
  have ok: "asset_ok env a"
    using Cons.prems by (auto intro: UpsertAsset_success split: prod.splits option.splits)
  show ?case
    using Cons.prems Cons.IH [of "d\<lparr>db_assets := upsert1_asset env (asset_row1 env scopeID parentID a) (db_assets d)\<rparr>"]
    by (simp add: UpsertAsset_ok [OF ok] ok)
qed simp

definition same_identity :: "asset \<Rightarrow> string \<times> string" where
  "same_identity a = (as_Kind a, as_Value a)"

lemma distinct_new_keys:
  assumes "distinct (map same_identity as)" and "\<forall>a \<in> set as. asset_ok env a"
  shows "distinct (map asset_key (map (asset_new env parse scopeID parentID) as))"
  using assms by (auto simp: distinct_map inj_on_def asset_new_key same_identity_def)

lemma chunk_each:
  assumes each: "upsert_each env scopeID parentID as (d, []) = (None, st)"
    and "distinct (map same_identity as)" and par: "\<forall>a \<in> set as. as_ParentID a = []" and "length as \<le> 500"
  shows "upsertChunk env parse scopeID parentID as (d, []) = Some (None, st)"
proof -
  note each' = upsert_each_success [OF each]
  have rows: "map (asset_new env parse scopeID parentID) as = map (asset_row1 env scopeID parentID) as"
    using par by (simp add: asset_row1_eq)
  have "upsert_assets env (map (asset_new env parse scopeID parentID) as) (db_assets d)
      = Some (fold (upsert1_asset env) (map (asset_new env parse scopeID parentID) as) (db_assets d))"
    using each' assms(2) by (intro assets_tbl.insert_distinct distinct_new_keys) auto
  then show ?thesis
    using upsertChunk_ok [of as env parse scopeID parentID d] each' assms(4) by (simp add: rows)
qed

lemma batch_each:
  assumes "upsert_each env scopeID parentID as (d, []) = (None, st)"
    and "distinct (map same_identity as)" and "\<forall>a \<in> set as. as_ParentID a = []"
  shows "batch_loop env parse scopeID parentID as (d, []) = Some (None, st)"
  using assms
proof (induction "length as" arbitrary: as d rule: less_induct)
  case less
  show ?case
  proof (cases "as = []")
    case True
    with less.prems show ?thesis by (simp add: batch_loop.simps)
  next
    case False
    obtain r where r: "upsert_each env scopeID parentID (take 500 as) (d, []) = (None, r)"
      and rest: "upsert_each env scopeID parentID (drop 500 as) r = (None, st)"
      using less.prems(1) upsert_each_append [of env scopeID parentID "take 500 as" "drop 500 as" "(d, [])"]
      by (auto split: prod.splits option.splits)
    have dist: "distinct (map same_identity (take 500 as))" "distinct (map same_identity (drop 500 as))"
      using less.prems(2) by (simp_all flip: take_map drop_map)
    have par: "\<forall>a \<in> set (take 500 as). as_ParentID a = []" "\<forall>a \<in> set (drop 500 as). as_ParentID a = []"
      using less.prems(3) by (auto dest: in_set_takeD in_set_dropD)
    obtain d' where d': "r = (d', [])"
      using upsert_each_success [OF r] by blast
    have "upsertChunk env parse scopeID parentID (take 500 as) (d, []) = Some (None, d', [])"
      using chunk_each [OF r dist(1) par(1)] by (simp add: d')
    moreover have "batch_loop env parse scopeID parentID (drop 500 as) (d', []) = Some (None, st)"
      using less.hyps [OF _ rest [unfolded d'] dist(2) par(2)] False by simp
    ultimately show ?thesis using False by (subst batch_loop.simps) simp
  qed
qed

section \<open>Two rows of one identity in a chunk\<close>

lemma split_two:
  assumes "i < j" and "j < length xs"
  shows "xs = take i xs @ xs ! i # drop (Suc i) (take j xs) @ xs ! j # drop (Suc j) xs"
proof -
  have "drop (Suc i) xs = drop (Suc i) (take j xs) @ drop j xs"
    using assms by (simp add: drop_take) (metis Suc_leI append_take_drop_id drop_drop le_add_diff_inverse2)
  also have "drop j xs = xs ! j # drop (Suc j) xs" by (rule Cons_nth_drop_Suc [OF assms(2), symmetric])
  finally show ?thesis using id_take_nth_drop [of i xs] assms by simp
qed

lemma new_row_key:
  "new_row env (asset_args parse scopeID parentID a) = Some r \<Longrightarrow> asset_key r = (scopeID, as_Kind a, as_Value a)"
  by (auto simp: asset_args_def asset_key_def)

lemma those_nth: "those xs = Some ys \<Longrightarrow> length ys = length xs \<and> (\<forall>i < length xs. xs ! i = Some (ys ! i))"
proof (induction xs arbitrary: ys)
  case (Cons x xs)
  then obtain y zs where "x = Some y" "those xs = Some zs" "ys = y # zs" by (auto split: option.splits)
  with Cons.IH [of zs] show ?case by (auto simp: nth_Cons split: nat.split)
qed simp

lemma duplicate_stmt_fails:
  assumes "i < j" and "j < length as" and "same_identity (as ! i) = same_identity (as ! j)"
    and "(scopeID, same_identity (as ! i)) \<notin> asset_key ` set (db_assets d)"
  shows "upsert_stmt env (map (asset_args parse scopeID parentID) as) d = None"
proof (cases "those (map (new_row env) (map (asset_args parse scopeID parentID) as))")
  case (Some rows)
  note n = those_nth [OF Some]
  have key: "asset_key (rows ! k) = (scopeID, same_identity (as ! k))" if "k < length as" for k
    using n that new_row_key [of env parse scopeID parentID "as ! k" "rows ! k"] by (simp add: same_identity_def)
  have "upsert_assets env rows (db_assets d) = None"
    using split_two [of i j rows] assms n key [of i] key [of j]
    by (metis assets_tbl.insert_duplicate_fails length_map order.strict_trans)
  then show ?thesis using Some by (simp add: upsert_stmt_def del: map_map)
qed (simp add: upsert_stmt_def)

lemma upsertChunk_duplicate:
  assumes "length as \<le> 500" and "i < j" and "j < length as" and "same_identity (as ! i) = same_identity (as ! j)"
    and "(scopeID, same_identity (as ! i)) \<notin> asset_key ` set (db_assets d)"
  shows "\<exists>e. upsertChunk env parse scopeID parentID as (d, []) = Some (Some e, d, [])
    \<and> ((\<forall>a \<in> set as. asset_ok env a) \<longrightarrow> e = sql_error)"
proof -
  note fails = duplicate_stmt_fails [OF assms(2-5), of env parse parentID]
  obtain r where r: "chunk_loop parse scopeID parentID 0 [] [] as = Some r"
      and args: "\<And>vs xs. r = Inr (vs, xs) \<Longrightarrow> xs = map (asset_args parse scopeID parentID) as"
    using chunk_loop_result [of 0 as parse scopeID parentID "[]" "[]"] assms(1) by auto
  have ok: "\<exists>x. r = Inr x" if "\<forall>a \<in> set as. asset_ok env a"
    using chunk_loop_ok [OF that, of 0 parse scopeID parentID "[]" "[]"] assms(1) r by auto
  show ?thesis
  proof (cases r)
    case (Inl e)
    then show ?thesis using ok r by (auto simp: upsertChunk_def)
  next
    case (Inr x)
    then show ?thesis using r args fails by (cases x) (auto simp: upsertChunk_def)
  qed
qed

lemma batch_loop_take:
  assumes "batch_loop env parse scopeID parentID (take (500 * k) as) (d, []) = Some (None, d1, [])"
  shows "batch_loop env parse scopeID parentID as (d, []) = batch_loop env parse scopeID parentID (drop (500 * k) as) (d1, [])"
  using assms
proof (induction k arbitrary: as d)
  case 0
  then show ?case by (simp add: batch_loop.simps [of _ _ _ _ "[]"])
next
  case (Suc k)
  show ?case
  proof (cases "as = []")
    case True
    then show ?thesis using Suc.prems by (simp add: batch_loop.simps [of _ _ _ _ "[]"])
  next
    case False
    let ?chunk = "upsertChunk env parse scopeID parentID (take 500 as) (d, [])"
    have split: "take 500 (take (500 * Suc k) as) = take 500 as" "drop 500 (take (500 * Suc k) as) = take (500 * k) (drop 500 as)"
      "take (500 * Suc k) as \<noteq> []"
      using False by (simp_all add: drop_take min_def)
    obtain st where chunk: "?chunk = Some (None, st)"
        and rest: "batch_loop env parse scopeID parentID (take (500 * k) (drop 500 as)) st = Some (None, d1, [])"
      using Suc.prems split by (subst (asm) batch_loop.simps) (auto split: option.splits)
    obtain d2 where st: "st = (d2, [])"
      using chunk by (auto simp: upsertChunk_def split: option.splits sum.splits if_splits)
    have "batch_loop env parse scopeID parentID as (d, []) = batch_loop env parse scopeID parentID (drop 500 as) st"
      using False chunk by (subst batch_loop.simps) simp
    also have "\<dots> = batch_loop env parse scopeID parentID (drop (500 * Suc k) as) (d1, [])"
      using Suc.IH rest by (simp add: st add.commute)
    finally show ?thesis .
  qed
qed

section \<open>The identity of a row\<close>

definition assets_inv :: "db \<Rightarrow> bool" where
  "assets_inv d \<longleftrightarrow> distinct (map asset_key (db_assets d))
     \<and> (\<forall>r \<in> set (db_assets d). ar_kind r \<noteq> [] \<and> ar_value r \<noteq> [])"

text \<open>Any sequence of the writer's operations, whatever the database and the connection answer.\<close>

inductive writer_reach :: "db \<Rightarrow> db \<Rightarrow> bool" where
  wr_refl: "writer_reach d d"
| wr_upsert: "writer_reach d d1 \<Longrightarrow> UpsertAsset env scope parent a (d1, fs) = (r, d2, fs') \<Longrightarrow> writer_reach d d2"
| wr_batch: "writer_reach d d1 \<Longrightarrow> UpsertAssetsBatch env parse scope parent as (d1, fs) = Some (r, d2, fs')
    \<Longrightarrow> writer_reach d d2"
| wr_merge: "writer_reach d d1 \<Longrightarrow> MergeUpdate env i delta (d1, fs) = (r, d2, fs') \<Longrightarrow> writer_reach d d2"
| wr_parent: "writer_reach d d1 \<Longrightarrow> SetParentChain c p (d1, fs) = (r, d2, fs') \<Longrightarrow> writer_reach d d2"

lemma those_all:
  "those (map f xs) = Some ys \<Longrightarrow> (\<forall>x \<in> set xs. pred_option P (f x)) \<Longrightarrow> \<forall>y \<in> set ys. P y"
  by (induction xs arbitrary: ys) (auto split: option.splits)

definition args_valid :: "row_args list \<Rightarrow> bool" where
  "args_valid args \<longleftrightarrow> list_all (\<lambda>a. fst (snd a) \<noteq> [] \<and> fst (snd (snd a)) \<noteq> []) args"

lemma upsert_stmt_inv [inv_step]:
  assumes "upsert_stmt env args d = Some d'" and "args_valid args" and "assets_inv d"
  shows "assets_inv d'"
proof -
  obtain rows t where rows: "those (map (new_row env) args) = Some rows"
      and t: "upsert_assets env rows (db_assets d) = Some t" and d': "d' = d\<lparr>db_assets := t\<rparr>"
    using assms(1) by (auto simp: upsert_stmt_def split: option.splits)
  have "\<forall>r \<in> set rows. ar_kind r \<noteq> [] \<and> ar_value r \<noteq> []"
    using rows by (rule those_all) (use assms(2) in \<open>fastforce simp: args_valid_def list_all_iff pred_option_def\<close>)
  then have "\<forall>r \<in> set t. ar_kind r \<noteq> [] \<and> ar_value r \<noteq> []"
    using assms(3) by (intro insert_on_conflict_all [OF t]) (auto simp: assets_inv_def asset_merge_def)
  moreover have "distinct (map asset_key t)"
    using assets_tbl.unique_insert [OF t] assms(3) by (simp add: assets_inv_def)
  ultimately show ?thesis by (simp add: assets_inv_def d')
qed

lemma update_where_inv:
  assumes "assets_inv d" and "\<And>r. asset_key (f r) = asset_key r"
  shows "assets_inv (d\<lparr>db_assets := update_where p f (db_assets d)\<rparr>)"
proof -
  have "map asset_key (update_where p f (db_assets d)) = map asset_key (db_assets d)"
    by (rule keys_update_where) (rule assms(2))
  moreover have "ar_kind (f r) = ar_kind r \<and> ar_value (f r) = ar_value r" for r
    using assms(2) [of r] by (simp add: asset_key_def)
  moreover have "set (update_where p f (db_assets d)) \<subseteq> set (db_assets d) \<union> f ` set (db_assets d)"
    by (auto simp: update_where_def)
  ultimately show ?thesis using assms(1) unfolding assets_inv_def by fastforce
qed

lemma UpsertAsset_inv [inv_step]:
  assumes "UpsertAsset env scope parent a (d, fs) = (r, d', fs')" and "assets_inv d"
  shows "assets_inv d'"
proof (cases "as_Kind a = [] \<or> as_Value a = [] \<or> marshal (GMap (attrs_or_empty a)) = None")
  case True
  then show ?thesis
    using assms by (auto simp: UpsertAsset_def Let_def simp del: marshal.simps split: if_splits)
next
  case False
  then obtain t where t: "marshal (GMap (attrs_or_empty a)) = Some t" by blast
  let ?args = "[(scope, as_Kind a, as_Value a, parent, t, fingerprintAttrs (attrs_or_empty a))]"
  have "pgexec (upsert_stmt env ?args) (d, fs) = (r, d', fs')"
    using assms(1) False by (simp add: UpsertAsset_def Let_def t del: marshal.simps)
  from pgexec_cases [OF this] show ?thesis
    using upsert_stmt_inv [of env ?args d d'] assms(2) False by (auto simp: args_valid_def)
qed

lemma chunk_loop_valid:
  "chunk_loop parse scope parent i vals args as = Some (Inr (vs, xs)) \<Longrightarrow> args_valid args \<Longrightarrow> args_valid xs"
proof (induction as arbitrary: i vals args)
  case (Cons a as)
  then show ?case
    by (auto simp: Let_def args_valid_def simp del: marshal.simps split: if_splits option.splits)
qed simp

lemma upsertChunk_inv [inv_step]:
  assumes "upsertChunk env parse scope parent as (d, fs) = Some (r, d', fs')" and "assets_inv d"
  shows "assets_inv d'"
proof (cases "\<exists>vs xs. chunk_loop parse scope parent 0 [] [] as = Some (Inr (vs, xs))")
  case True
  then obtain vs xs where c: "chunk_loop parse scope parent 0 [] [] as = Some (Inr (vs, xs))" by blast
  have "pgexec (upsert_stmt env xs) (d, fs) = (r, d', fs')"
    using assms(1) by (simp add: upsertChunk_def c)
  from pgexec_cases [OF this] show ?thesis
    using upsert_stmt_inv [of env xs d d'] chunk_loop_valid [OF c] assms(2) by (auto simp: args_valid_def)
next
  case False
  then show ?thesis
    using assms by (auto simp: upsertChunk_def split: option.splits sum.splits)
qed

lemma batch_loop_inv [inv_step]:
  "batch_loop env parse scope parent as (d, fs) = Some (r, d', fs') \<Longrightarrow> assets_inv d \<Longrightarrow> assets_inv d'"
proof (induction "length as" arbitrary: as d fs rule: less_induct)
  case less
  show ?case
  proof (cases "as = []")
    case True
    with less.prems show ?thesis by (simp add: batch_loop.simps)
  next
    case False
    then obtain e d1 fs1 where c: "upsertChunk env parse scope parent (take 500 as) (d, fs) = Some (e, d1, fs1)"
      using less.prems(1) by (subst (asm) batch_loop.simps) (auto split: option.splits)
    have inv: "assets_inv d1" using upsertChunk_inv [OF c less.prems(2)] .
    show ?thesis
    proof (cases e)
      case None
      then have "batch_loop env parse scope parent (drop 500 as) (d1, fs1) = Some (r, d', fs')"
        using less.prems(1) False c by (subst (asm) batch_loop.simps) simp
      with less.hyps [of "drop 500 as" d1 fs1] inv False show ?thesis by simp
    next
      case (Some x)
      then show ?thesis using less.prems(1) False c inv by (subst (asm) batch_loop.simps) simp
    qed
  qed
qed

lemma MergeUpdate_inv [inv_step]:
  "MergeUpdate env i delta (d, fs) = (r, d', fs') \<Longrightarrow> assets_inv d \<Longrightarrow> assets_inv d'"
  by (auto simp: MergeUpdate_def simp del: marshal.simps split: if_splits option.splits
      dest!: pgexec_cases intro!: update_where_inv) (simp add: asset_key_def)

lemma SetParentChain_inv [inv_step]:
  "SetParentChain c p (d, fs) = (r, d', fs') \<Longrightarrow> assets_inv d \<Longrightarrow> assets_inv d'"
  by (auto simp: SetParentChain_def dest!: pgexec_cases intro!: update_where_inv) (simp add: asset_key_def)

lemma UpsertAssetsBatch_inv [inv_step]:
  "UpsertAssetsBatch env parse scope parent as (d, fs) = Some (r, d', fs') \<Longrightarrow> assets_inv d \<Longrightarrow> assets_inv d'"
  by (auto simp: UpsertAssetsBatch_def split: if_splits intro: batch_loop_inv)

section \<open>Properties\<close>

text \<open>A concrete database environment and asset for the witnesses.\<close>

definition pg0 :: pg where
  "pg0 = \<lparr>pg_jsonb = (\<lambda>t. Some [(''raw'', GStr t)]), pg_digest = (\<lambda>_. []), pg_gen_id = (\<lambda>s k v. s @ k @ v),
     pg_first_seen = 5, pg_now = 5\<rparr>"

definition asset0 :: "string \<Rightarrow> asset" where
  "asset0 v = \<lparr>as_ID = [], as_ScopeID = [], as_Kind = ''host'', as_Value = v, as_ParentID = [],
     as_Attrs = Some [(''up'', GBool True)], as_State = []\<rparr>"

lemma asset0_ok: "v \<noteq> [] \<Longrightarrow> asset_ok pg0 (asset0 v)"
  by (simp add: asset_ok_def asset0_def pg0_def attrs_or_empty_def)

text \<open>
  Two presentations of the same attributes, with the entries of any map inside in any order, have
  the same fingerprint.
\<close>

theorem fingerprint_order_independent:
  assumes "same_val (GMap m) (GMap m')"
  shows "fingerprintAttrs m = fingerprintAttrs m'"
  using marshal_canonicalizeForHash_same [OF assms]
  by (simp add: fingerprintAttrs_def fingerprint_input_def del: canonicalizeForHash.simps)

theorem fingerprint_order_independent_witness:
  "fingerprintAttrs [(''ip'', GStr ''::1''), (''tags'', GMap [(''a'', GInt 1), (''b'', GInt 2)])]
   = fingerprintAttrs [(''tags'', GMap [(''b'', GInt 2), (''a'', GInt 1)]), (''ip'', GStr ''::1'')]"
proof (rule fingerprint_order_independent)
  have "same_val (GMap [(''a'', GInt 1), (''b'', GInt 2)]) (GMap [(''b'', GInt 2), (''a'', GInt 1)])"
    by (rule same_map) (auto split: if_splits intro: same_refl)
  then show "same_val (GMap [(''ip'', GStr ''::1''), (''tags'', GMap [(''a'', GInt 1), (''b'', GInt 2)])])
      (GMap [(''tags'', GMap [(''b'', GInt 2), (''a'', GInt 1)]), (''ip'', GStr ''::1'')])"
    by (intro same_map) (auto split: if_splits intro: same_refl)
qed

text \<open>
  Replacing a nested map by the list of its sorted key and value pairs does not change the
  fingerprint: the fingerprint does not tell an empty map from an empty list.
\<close>

theorem fingerprint_confuses_map_and_pairs:
  "fingerprintAttrs (map (\<lambda>kv. (fst kv, canonicalizeForHash (snd kv))) m) = fingerprintAttrs m
   \<and> canonicalizeForHash (GMap []) = GList []"
proof -
  have "canonicalizeForHash (GMap (map (\<lambda>kv. (fst kv, canonicalizeForHash (snd kv))) m)) = canonicalizeForHash (GMap m)"
    by (simp add: Let_def canonicalizeForHash_idem o_def)
  then show ?thesis
    by (simp add: fingerprintAttrs_def fingerprint_input_def)
qed

text \<open>
  C1: when upserting the assets one after another succeeds, they have distinct identities and none
  names its own parent, the batched upsert, which sends one statement per 500 assets, succeeds and
  leaves the same database.
\<close>

theorem batch_equals_sequential_upserts:
  assumes "upsert_each env scopeID parentID as (d, []) = (None, st)"
    and "distinct (map same_identity as)" and "\<forall>a \<in> set as. as_ParentID a = []"
  shows "UpsertAssetsBatch env parse scopeID parentID as (d, []) = Some (None, st)"
  using batch_each [OF assms, of parse] assms(1) by (auto simp: UpsertAssetsBatch_def)

theorem batch_equals_sequential_upserts_witness:
  "UpsertAssetsBatch pg0 (\<lambda>_. None) ''s'' None [asset0 ''a'', asset0 ''b''] (empty_db, [])
   = Some (None, snd (upsert_each pg0 ''s'' None [asset0 ''a'', asset0 ''b''] (empty_db, [])))"
  by (rule batch_equals_sequential_upserts)
    (simp_all add: UpsertAsset_ok asset0_ok, simp_all add: asset0_def same_identity_def)

text \<open>
  C28: two assets with the same kind and value anywhere in one chunk of the batch, new to the scope when the chunks
  before it have been written, make the whole statement of their chunk fail: the batch reports an error, writes
  none of the chunk and nothing after it. The error is the database's unless an asset of the chunk has one of its own.
\<close>

theorem batch_duplicate_identity_fails:
  assumes "UpsertAssetsBatch env parse scopeID parentID (take (500 * k) assets) (d, []) = Some (None, d1, [])"
    and "i < j" and "j < length assets" and "i div 500 = k" and "j div 500 = k"
    and "same_identity (assets ! i) = same_identity (assets ! j)"
    and "(scopeID, same_identity (assets ! i)) \<notin> asset_key ` set (db_assets d1)"
  shows "\<exists>e. UpsertAssetsBatch env parse scopeID parentID assets (d, []) = Some (Some e, d1, [])
    \<and> ((\<forall>a \<in> set (take 500 (drop (500 * k) assets)). asset_ok env a) \<longrightarrow> e = sql_error)"
proof -
  let ?chunk = "take 500 (drop (500 * k) assets)" and ?i = "i mod 500" and ?j = "j mod 500"
  have ij: "500 * k + ?i = i" "500 * k + ?j = j"
    using assms(4,5) mult_div_mod_eq [of 500 i] mult_div_mod_eq [of 500 j] by simp_all
  then have at: "?i < ?j" "?j < length ?chunk" "?chunk ! ?i = assets ! i" "?chunk ! ?j = assets ! j"
    using assms(2,3) by (auto simp: min_def)
  obtain e where e: "upsertChunk env parse scopeID parentID ?chunk (d1, []) = Some (Some e, d1, [])"
      "(\<forall>a \<in> set ?chunk. asset_ok env a) \<longrightarrow> e = sql_error"
    using upsertChunk_duplicate [of ?chunk ?i ?j scopeID d1 env parse parentID] at assms(6,7) by auto
  have loop: "batch_loop env parse scopeID parentID (take (500 * k) assets) (d, []) = Some (None, d1, [])"
    using assms(1) by (auto simp: UpsertAssetsBatch_def batch_loop.simps [of _ _ _ _ "[]"] split: if_splits)
  have ne: "assets \<noteq> []" "drop (500 * k) assets \<noteq> []" using assms(3) ij by auto
  have "batch_loop env parse scopeID parentID (drop (500 * k) assets) (d1, []) = Some (Some e, d1, [])"
    using e(1) ne(2) by (subst batch_loop.simps) simp
  then show ?thesis using e(2) ne(1) batch_loop_take [OF loop] by (simp add: UpsertAssetsBatch_def)
qed

theorem batch_duplicate_identity_fails_witness:
  "UpsertAssetsBatch pg0 (\<lambda>_. None) ''s'' None [asset0 ''a'', asset0 ''b'', asset0 ''c'', asset0 ''b''] (empty_db, [])
   = Some (Some sql_error, empty_db, [])"
proof -
  have "UpsertAssetsBatch pg0 (\<lambda>_. None) ''s'' None (take (500 * 0) [asset0 ''a'', asset0 ''b'', asset0 ''c'', asset0 ''b'']) (empty_db, [])
      = Some (None, empty_db, [])"
    by (simp add: UpsertAssetsBatch_def)
  from batch_duplicate_identity_fails [OF this, of 1 3] show ?thesis by (simp add: asset0_ok empty_db_def)
qed

text \<open>
  C29: for a chunk the text of the query never overflows the digit buffer, its tuples are numbered
  one after the other from \<open>$1\<close>, and it binds one group of six arguments per tuple, in the order of
  the assets.
\<close>

theorem chunk_query_placeholders:
  assumes "length assets \<le> 500"
  shows "\<exists>r. chunk_loop parse scopeID parentID 0 [] [] assets = Some r \<and>
    (\<forall>vs args. r = Inr (vs, args) \<longrightarrow>
       vs = join_with (CHR '','') (map (\<lambda>j. tuple_text (int (j * 6) + 1)) [0..<length assets])
       \<and> args = map (asset_args parse scopeID parentID) assets)"
  using chunk_loop_result [of 0 assets parse scopeID parentID "[]" "[]"] assms
  by (auto simp: comma_join_def tuples_from_def)

theorem chunk_query_placeholders_witness:
  "\<exists>r. chunk_loop (\<lambda>_. None) ''s'' None 0 [] [] [asset0 ''a''] = Some r \<and>
    (\<forall>vs args. r = Inr (vs, args) \<longrightarrow> vs = tuple_text 1 \<and> args = [asset_args (\<lambda>_. None) ''s'' None (asset0 ''a'')])"
  using chunk_query_placeholders [of "[asset0 ''a'']" "\<lambda>_. None" "''s''" None]
  by (simp add: upt_rec [of 0 "Suc 0"])

text \<open>
  C10: whatever operations the writer performs and whatever faults the connection has, the identity
  (scope, kind, value) of the assets stays unique, and no asset has an empty kind or value.
\<close>

theorem assets_identity_unique:
  assumes "writer_reach d d'" and "assets_inv d"
  shows "assets_inv d'"
  using assms by (induction rule: writer_reach.induct) (blast intro: inv_step)+

theorem assets_identity_unique_witness:
  "assets_inv (fst (snd (UpsertAsset pg0 ''s'' None (asset0 ''a'') (empty_db, []))))"
proof (rule assets_identity_unique)
  obtain r d' fs' where "UpsertAsset pg0 ''s'' None (asset0 ''a'') (empty_db, []) = (r, d', fs')"
    by (rule prod_cases3)
  then show "writer_reach empty_db (fst (snd (UpsertAsset pg0 ''s'' None (asset0 ''a'') (empty_db, []))))"
    using wr_upsert [OF wr_refl] by simp
qed (simp add: assets_inv_def empty_db_def)

text \<open>
  Repeating an upsert that succeeded, with the same attributes and while the row was seen less than
  a minute ago, succeeds and changes nothing.
\<close>

theorem UpsertAsset_idempotent:
  assumes "UpsertAsset env scopeID parentID a (d, []) = (None, d1, [])"
    and "\<And>r. lookup asset_key (db_assets d1) (scopeID, as_Kind a, as_Value a) = Some r \<Longrightarrow>
      now - Minute \<le> ar_last_seen r"
  shows "UpsertAsset (env\<lparr>pg_now := now\<rparr>) scopeID parentID a (d1, []) = (None, d1, [])"
proof -
  let ?env = "env\<lparr>pg_now := now\<rparr>"
  let ?new = "asset_row1 env scopeID parentID a"
  have ok: "asset_ok env a" using assms(1) by (rule UpsertAsset_success)
  then have ok': "asset_ok ?env a" by (auto simp: asset_ok_def split: option.splits)
  have new': "asset_row1 ?env scopeID parentID a = ?new"
    by (simp add: asset_row1_def asset_new_def asset_args_def)
  have key: "asset_key ?new = (scopeID, as_Kind a, as_Value a)"
    using ok by (simp add: asset_row1_def asset_new_key)
  have d1: "db_assets d1 = upsert1_asset env ?new (db_assets d)"
    using assms(1) by (simp add: UpsertAsset_ok [OF ok]) auto
  obtain r where r: "lookup asset_key (db_assets d1) (asset_key ?new) = Some r"
      and fp: "ar_fingerprint r = ar_fingerprint ?new"
    by (cases "lookup asset_key (db_assets d) (asset_key ?new)")
      (auto simp: d1 assets_tbl.lookup_upsert1 asset_guard_def asset_merge_def)
  have "\<not> asset_guard now r ?new"
    using assms(2) [of r] r fp by (simp add: asset_guard_def key)
  then have "upsert1_asset ?env ?new (db_assets d1) = db_assets d1"
    by (simp add: upsert1_def r)
  then show ?thesis by (simp add: UpsertAsset_ok [OF ok'] new')
qed

theorem UpsertAsset_idempotent_witness:
  "UpsertAsset (pg0\<lparr>pg_now := 6\<rparr>) ''s'' None (asset0 ''a'')
     (empty_db\<lparr>db_assets := [asset_row1 pg0 ''s'' None (asset0 ''a'')]\<rparr>, [])
   = (None, empty_db\<lparr>db_assets := [asset_row1 pg0 ''s'' None (asset0 ''a'')]\<rparr>, [])"
proof (rule UpsertAsset_idempotent)
  show "UpsertAsset pg0 ''s'' None (asset0 ''a'') (empty_db, [])
      = (None, empty_db\<lparr>db_assets := [asset_row1 pg0 ''s'' None (asset0 ''a'')]\<rparr>, [])"
    by (simp add: UpsertAsset_ok asset0_ok empty_db_def upsert1_def lookup_def)
next
  fix r
  assume "lookup asset_key (db_assets (empty_db\<lparr>db_assets := [asset_row1 pg0 ''s'' None (asset0 ''a'')]\<rparr>))
      (''s'', as_Kind (asset0 ''a''), as_Value (asset0 ''a'')) = Some r"
  then have "r = asset_row1 pg0 ''s'' None (asset0 ''a'')"
    by (auto simp: lookup_def split: if_splits)
  then show "6 - Minute \<le> ar_last_seen r"
    by (simp add: asset_row1_def asset_new_def asset_args_def pg0_def Minute_def Second_def)
qed

end
