(* ===== verification/Fingerprint_Pool.thy ===== *)
theory Fingerprint_Pool
  imports Asset_Writer
begin

text \<open>
  The pools of hashers and buffers behind \<open>fingerprintAttrs\<close> (worker/asset_writer.go: hasherPool,
  bufferPool), for concurrent calls. A hasher is what has been written to it since its last reset, a
  buffer its content. A call takes one of each, and between its start and its end other calls may start,
  end or find the pools emptied by the garbage collector. Shown: no call sees what another has
  written, so each returns the fingerprint that \<open>Asset_Writer\<close> computes.
\<close>

section \<open>Pools\<close>

text \<open>\<open>sync.Pool.Get\<close> takes some element out of the pool, or makes a new one.\<close>

definition pool_get :: "nat option \<Rightarrow> bytes list \<Rightarrow> bytes \<times> bytes list" where
  "pool_get pick xs =
     (case pick of
        None \<Rightarrow> ([], xs)
      | Some i \<Rightarrow> if i < length xs then (xs ! i, take i xs @ drop (Suc i) xs) else ([], xs))"

record fp_call =
  fc_attrs :: gmap
  fc_hasher :: bytes
  fc_buffer :: bytes

record fp_state =
  fs_hashers :: "bytes list"
  fs_buffers :: "bytes list"
  fs_calls :: "fp_call list"
  fs_done :: "(gmap \<times> bytes) list"

definition fp_begin :: "gmap \<Rightarrow> nat option \<Rightarrow> nat option \<Rightarrow> fp_state \<Rightarrow> fp_state" where
  "fp_begin attrs pick_h pick_b s =
     (let (h, hs) = pool_get pick_h (fs_hashers s); (b, bs) = pool_get pick_b (fs_buffers s)
      in s\<lparr>fs_hashers := hs, fs_buffers := bs,
           fs_calls := fs_calls s @ [\<lparr>fc_attrs = attrs, fc_hasher = h, fc_buffer = b\<rparr>]\<rparr>)"

text \<open>The encoder appends to the buffer, all of which is hashed; the deferred function resets both and puts them back.\<close>

definition fp_end :: "nat \<Rightarrow> fp_state \<Rightarrow> fp_state" where
  "fp_end i s =
     (let c = fs_calls s ! i;
          buf = fc_buffer c @ fingerprint_input (fc_attrs c);
          h = fc_hasher c @ buf
      in s\<lparr>fs_hashers := [] # fs_hashers s, fs_buffers := [] # fs_buffers s,
           fs_calls := take i (fs_calls s) @ drop (Suc i) (fs_calls s),
           fs_done := fs_done s @ [(fc_attrs c, sha256 h)]\<rparr>)"

inductive fp_step :: "fp_state \<Rightarrow> fp_state \<Rightarrow> bool" where
  begins: "fp_step s (fp_begin attrs pick_h pick_b s)"
| ends: "i < length (fs_calls s) \<Longrightarrow> fp_step s (fp_end i s)"
| collected: "fp_step s (s\<lparr>fs_hashers := take n (fs_hashers s), fs_buffers := take m (fs_buffers s)\<rparr>)"

inductive_cases fp_stepE: "fp_step s s'"

definition fp_init :: fp_state where
  "fp_init = \<lparr>fs_hashers = [], fs_buffers = [], fs_calls = [], fs_done = []\<rparr>"

section \<open>The invariant\<close>

definition fp_inv :: "fp_state \<Rightarrow> bool" where
  "fp_inv s \<longleftrightarrow> set (fs_hashers s) \<subseteq> {[]} \<and> set (fs_buffers s) \<subseteq> {[]}
     \<and> (\<forall>c \<in> set (fs_calls s). fc_hasher c = [] \<and> fc_buffer c = [])
     \<and> (\<forall>(attrs, out) \<in> set (fs_done s). out = fingerprintAttrs attrs)"

lemma pool_get_empty:
  assumes "set xs \<subseteq> {[]}" and "pool_get pick xs = (x, ys)"
  shows "x = [] \<and> set ys \<subseteq> {[]}"
proof (cases "\<exists>i < length xs. pick = Some i")
  case True
  then obtain i where i: "i < length xs" "pick = Some i" by blast
  have "xs ! i \<in> set xs" using i(1) by simp
  moreover have "set (take i xs @ drop (Suc i) xs) \<subseteq> set xs" by (auto dest: in_set_takeD in_set_dropD)
  moreover have "x = xs ! i" "ys = take i xs @ drop (Suc i) xs" using assms(2) i by (simp_all add: pool_get_def)
  ultimately show ?thesis using assms(1) by blast
next
  case False
  then show ?thesis using assms by (auto simp: pool_get_def split: option.splits if_splits)
qed

lemma fp_inv_begin:
  assumes "fp_inv s"
  shows "fp_inv (fp_begin attrs pick_h pick_b s)"
proof -
  obtain h hs where h: "pool_get pick_h (fs_hashers s) = (h, hs)" by (rule prod.exhaust)
  obtain b bs where b: "pool_get pick_b (fs_buffers s) = (b, bs)" by (rule prod.exhaust)
  show ?thesis
    using assms pool_get_empty [OF _ h] pool_get_empty [OF _ b] by (simp add: fp_inv_def fp_begin_def h b)
qed

lemma fp_inv_end:
  assumes "fp_inv s" and "i < length (fs_calls s)"
  shows "fp_inv (fp_end i s)"
proof -
  have "fs_calls s ! i \<in> set (fs_calls s)" using assms(2) by simp
  then have "fc_hasher (fs_calls s ! i) = []" "fc_buffer (fs_calls s ! i) = []" using assms(1) by (auto simp: fp_inv_def)
  then show ?thesis
    using assms(1) by (auto simp: fp_inv_def fp_end_def Let_def fingerprintAttrs_def dest: in_set_takeD in_set_dropD)
qed

lemma fp_inv_step: "fp_step s s' \<Longrightarrow> fp_inv s \<Longrightarrow> fp_inv s'"
proof (induction rule: fp_step.induct)
  case (collected s n m)
  then show ?case by (auto simp: fp_inv_def dest: in_set_takeD)
qed (simp_all add: fp_inv_begin fp_inv_end)

lemma fp_inv_reachable: "fp_step\<^sup>*\<^sup>* fp_init s \<Longrightarrow> fp_inv s"
proof (induction rule: rtranclp_induct)
  case base
  show ?case by (simp add: fp_inv_def fp_init_def)
qed (rule fp_inv_step)

section \<open>Properties\<close>

text \<open>
  C33: fingerprints computed by any number of concurrent calls, which share hashers and buffers through
  pools, are the fingerprints of their own attributes, whichever pooled instances the calls get and
  whenever the pools are emptied.
\<close>

theorem pooled_fingerprints_exact:
  assumes "fp_step\<^sup>*\<^sup>* fp_init s" and "(attrs, out) \<in> set (fs_done s)"
  shows "out = fingerprintAttrs attrs"
  using fp_inv_reachable [OF assms(1)] assms(2) by (auto simp: fp_inv_def)

theorem pooled_fingerprints_exact_witness:
  "\<exists>s out. fp_step\<^sup>*\<^sup>* fp_init s \<and> fs_hashers s = [[]] \<and> ([(''b'', GNil)], out) \<in> set (fs_done s)
     \<and> out = fingerprintAttrs [(''b'', GNil)]"
proof -
  let ?s1 = "fp_begin [(''a'', GNil)] None None fp_init"
  let ?s2 = "fp_begin [(''b'', GNil)] (Some 0) (Some 0) (fp_end 0 ?s1)"
  have "fp_step\<^sup>*\<^sup>* fp_init ?s1" by (simp add: begins r_into_rtranclp)
  moreover have "fp_step ?s1 (fp_end 0 ?s1)" by (rule ends) (simp add: fp_begin_def pool_get_def fp_init_def)
  moreover have "fp_step (fp_end 0 ?s1) ?s2" by (rule begins)
  moreover have "fp_step ?s2 (fp_end 0 ?s2)" by (rule ends) (simp add: fp_begin_def fp_end_def pool_get_def fp_init_def)
  ultimately have r: "fp_step\<^sup>*\<^sup>* fp_init (fp_end 0 ?s2)" by (meson rtranclp.rtrancl_into_rtrancl)
  obtain out where d: "([(''b'', GNil)], out) \<in> set (fs_done (fp_end 0 ?s2))"
    by (simp add: fp_begin_def fp_end_def pool_get_def fp_init_def Let_def)
  moreover have "fs_hashers (fp_end 0 ?s2) = [[]]" by (simp add: fp_begin_def fp_end_def pool_get_def fp_init_def)
  ultimately show ?thesis using r pooled_fingerprints_exact [OF r d] by blast
qed

end
