(* ===== verification/Health.thy ===== *)
theory Health
  imports Database "HOL-Library.Word"
begin

text \<open>
  Module health (worker/health.go): the passive counters bumped after every run, the report derived
  from them or asked of the tool, the row of \<open>module_health\<close> it is written to, and the reporting
  loop. The counters are 32-bit and wrap. Shown: the status a history of runs leads to, the content of
  the row after any history of reports, and the interval of the loop.
\<close>

section \<open>Integers from the environment\<close>

definition envInt :: "(string \<Rightarrow> string) \<Rightarrow> string \<Rightarrow> int \<Rightarrow> int" where
  "envInt getenv k def =
     (let v = getenv k in
      if v \<noteq> [] then (case atoi v of Some n \<Rightarrow> n | None \<Rightarrow> def) else def)"

section \<open>Reports\<close>

record health_counters =
  hc_totalRuns :: "32 word"
  hc_consecutiveFailures :: "32 word"

definition middot :: string where
  "middot = [CHR 0xC2, CHR 0xB7]"

text \<open>The first argument is the report of the tool's own \<open>Healthcheck\<close>, if it has that method.\<close>

definition gatherHealth :: "healthReport option \<Rightarrow> health_counters \<Rightarrow> healthReport" where
  "gatherHealth hc rt =
     (case hc of
        Some report \<Rightarrow>
          (let report = (if hr_Status report = [] then report\<lparr>hr_Status := ''unknown''\<rparr> else report) in
           if hr_Class report = []
           then report\<lparr>hr_Class := (if hr_Status report = ''healthy'' then ''ok'' else ''unknown'')\<rparr>
           else report)
      | None \<Rightarrow>
          (let consecutiveFails = hc_consecutiveFailures rt; totalRuns = hc_totalRuns rt in
           if totalRuns = 0
           then \<lparr>hr_Status = ''unknown'', hr_Class = ''unknown'',
                 hr_Message = ''no Run() invocations observed yet'', hr_Extra = None\<rparr>
           else if consecutiveFails = 0
           then \<lparr>hr_Status = ''healthy'', hr_Class = ''ok'', hr_Message = [], hr_Extra = None\<rparr>
           else if sint consecutiveFails \<ge> 5
           then \<lparr>hr_Status = ''unhealthy'', hr_Class = ''unknown'',
                 hr_Message = ''5+ consecutive Run() errors '' @ middot @ '' check worker logs'', hr_Extra = None\<rparr>
           else \<lparr>hr_Status = ''degraded'', hr_Class = ''unknown'',
                 hr_Message = ''recent Run() errors '' @ middot @ '' monitoring'', hr_Extra = None\<rparr>))"

text \<open>
  The outcome of a run: the new counters, and the report that is written in the background when the
  error is or wraps a health error.
\<close>

definition recordRunOutcome ::
  "go_error option \<Rightarrow> string \<Rightarrow> health_counters \<Rightarrow> health_counters \<times> (healthReport \<times> string) option" where
  "recordRunOutcome err apiKeyID rt =
     (let rt = rt\<lparr>hc_totalRuns := hc_totalRuns rt + 1\<rparr> in
      case err of
        None \<Rightarrow> (rt\<lparr>hc_consecutiveFailures := 0\<rparr>, None)
      | Some e \<Rightarrow>
          (let rt = rt\<lparr>hc_consecutiveFailures := hc_consecutiveFailures rt + 1\<rparr> in
           case as_HealthError e of
             None \<Rightarrow> (rt, None)
           | Some (c, m) \<Rightarrow>
               (rt, Some (\<lparr>hr_Status = ''unhealthy'', hr_Class = c, hr_Message = m, hr_Extra = None\<rparr>, apiKeyID))))"

section \<open>The row\<close>

definition bad_status :: "string \<Rightarrow> bool" where
  "bad_status s \<longleftrightarrow> s \<noteq> ''healthy'' \<and> s \<noteq> ''unknown''"

text \<open>The row of the \<open>VALUES\<close> clause and the \<open>DO UPDATE SET\<close> clause.\<close>

definition health_new :: "time \<Rightarrow> string \<Rightarrow> healthReport \<Rightarrow> gmap \<Rightarrow> uuid option \<Rightarrow> health_row" where
  "health_new now tool r extra failedID =
     \<lparr>mh_tool = tool, mh_status = hr_Status r, mh_class = hr_Class r, mh_message = hr_Message r,
      mh_last_check = now,
      mh_last_success = (if hr_Status r = ''healthy'' then Some now else None),
      mh_last_failure = (if bad_status (hr_Status r) then Some now else None),
      mh_consecutive = (if bad_status (hr_Status r) then 1 else 0),
      mh_failures = (if bad_status (hr_Status r) then 1 else 0),
      mh_successes = (if hr_Status r = ''healthy'' then 1 else 0),
      mh_extra = extra, mh_failed_key = failedID\<rparr>"

definition health_merge :: "time \<Rightarrow> health_row \<Rightarrow> health_row \<Rightarrow> health_row" where
  "health_merge now old new =
     old\<lparr>mh_status := mh_status new, mh_class := mh_class new, mh_message := mh_message new,
      mh_last_check := now,
      mh_last_success := (if mh_status new = ''healthy'' then Some now else mh_last_success old),
      mh_last_failure := (if bad_status (mh_status new) then Some now else mh_last_failure old),
      mh_consecutive := (if mh_status new = ''healthy'' then 0
        else if mh_status new = ''unknown'' then mh_consecutive old else mh_consecutive old + 1),
      mh_failures := (if bad_status (mh_status new) then mh_failures old + 1 else mh_failures old),
      mh_successes := (if mh_status new = ''healthy'' then mh_successes old + 1 else mh_successes old),
      mh_extra := mh_extra new,
      mh_failed_key := (if mh_status new = ''healthy'' then None
        else if mh_failed_key new \<noteq> None then mh_failed_key new else mh_failed_key old)\<rparr>"

interpretation health_tbl: upsert_table mh_tool "health_merge now" "\<lambda>_ _. True" for now
  by unfold_locales (simp add: health_merge_def)

definition health_stmt :: "pg \<Rightarrow> string \<Rightarrow> healthReport \<Rightarrow> string \<Rightarrow> uuid option \<Rightarrow> db \<Rightarrow> db option" where
  "health_stmt env tool r extraJSON failedID d =
     (case pg_jsonb env extraJSON of
        None \<Rightarrow> None
      | Some extra \<Rightarrow>
          map_option (\<lambda>t. d\<lparr>db_health := t\<rparr>)
            (insert_on_conflict mh_tool (health_merge (pg_now env)) (\<lambda>_ _. True)
               [health_new (pg_now env) tool r extra failedID] (db_health d)))"

definition extra_json :: "healthReport \<Rightarrow> string" where
  "extra_json r =
     (case marshal (case hr_Extra r of None \<Rightarrow> GNil | Some m \<Rightarrow> GMap m) of
        None \<Rightarrow> ''{}'' | Some t \<Rightarrow> if t = ''null'' then ''{}'' else t)"

definition failed_id :: "healthReport \<Rightarrow> string \<Rightarrow> uuid option" where
  "failed_id r apiKeyID =
     (if apiKeyID \<noteq> [] \<and> (hr_Class r = ''api_key_invalid'' \<or> hr_Class r = ''api_key_quota_exceeded'')
      then Some apiKeyID else None)"

definition upsertHealth ::
  "pg \<Rightarrow> bool \<Rightarrow> string \<Rightarrow> healthReport \<Rightarrow> string \<Rightarrow> db \<times> fault list \<Rightarrow> go_error option \<times> db \<times> fault list" where
  "upsertHealth env has_pool tool r apiKeyID st =
     (if \<not> has_pool then (Some (ErrorText ''no PG pool'' None), st)
      else pgexec (health_stmt env tool r (extra_json r) (failed_id r apiKeyID)) st)"

definition reportHealth ::
  "pg \<Rightarrow> bool \<Rightarrow> string \<Rightarrow> healthReport option \<Rightarrow> health_counters \<Rightarrow> db \<times> fault list \<Rightarrow> db \<times> fault list" where
  "reportHealth env has_pool tool hc rt st = snd (upsertHealth env has_pool tool (gatherHealth hc rt) [] st)"

section \<open>The loop\<close>

text \<open>
  The interval in seconds, and the ticker period it becomes: a 64-bit number of nanoseconds that
  wraps. \<open>time.NewTicker\<close> panics, \<open>None\<close> here, unless the period is positive.
\<close>

definition health_interval :: "(string \<Rightarrow> string) \<Rightarrow> int" where
  "health_interval getenv =
     (let intervalSec = envInt getenv ''WORKER_HEALTH_INTERVAL_SECONDS'' 60 in
      if intervalSec < 10 then 10 else intervalSec)"

definition newTicker :: "int \<Rightarrow> int option" where
  "newTicker intervalSec =
     (let d = signed_take_bit 63 (intervalSec * Second) in if d \<le> 0 then None else Some d)"

text \<open>What the loop wakes up for: a tick, with the report it makes at that moment, or the end of the context.\<close>

datatype loop_event = Tick "db \<times> fault list \<Rightarrow> db \<times> fault list" | Done

fun health_events :: "loop_event list \<Rightarrow> db \<times> fault list \<Rightarrow> db \<times> fault list" where
  "health_events [] st = st"
| "health_events (Done # es) st = st"
| "health_events (Tick report # es) st = health_events es (report st)"

definition healthLoop ::
  "(string \<Rightarrow> string) \<Rightarrow> (db \<times> fault list \<Rightarrow> db \<times> fault list) \<Rightarrow> loop_event list \<Rightarrow> db \<times> fault list
   \<Rightarrow> (db \<times> fault list) option" where
  "healthLoop getenv report events st =
     (case newTicker (health_interval getenv) of
        None \<Rightarrow> None
      | Some d \<Rightarrow> Some (health_events events (report st)))"

section \<open>Counters after a history of runs\<close>

definition after_runs :: "go_error option list \<Rightarrow> health_counters" where
  "after_runs errs = fold (\<lambda>e rt. fst (recordRunOutcome e [] rt)) errs
     \<lparr>hc_totalRuns = 0, hc_consecutiveFailures = 0\<rparr>"

text \<open>The number of failures since the last success.\<close>

definition trailing :: "go_error option list \<Rightarrow> nat" where
  "trailing errs = length (takeWhile (\<lambda>e. e \<noteq> None) (rev errs))"

lemma trailing_le: "trailing errs \<le> length errs"
  using length_takeWhile_le [of "\<lambda>e. e \<noteq> None" "rev errs"] by (simp add: trailing_def)

lemma counters_after_runs:
  "hc_totalRuns (after_runs errs) = word_of_nat (length errs)
   \<and> hc_consecutiveFailures (after_runs errs) = word_of_nat (trailing errs)"
proof (induction errs rule: rev_induct)
  case (snoc e errs)
  then show ?case
    by (cases e) (auto simp: after_runs_def trailing_def recordRunOutcome_def Let_def split: option.splits)
qed (simp add: after_runs_def trailing_def)

lemma word_of_nat_32_eq_0: "n < 2 ^ 32 \<Longrightarrow> (word_of_nat n :: 32 word) = 0 \<longleftrightarrow> n = 0"
  using word_of_nat_eq_0_iff [where 'a = 32, of n] by (auto dest: dvd_imp_le)

lemma sint_word_of_nat: "n < 2 ^ 31 \<Longrightarrow> sint (word_of_nat n :: 32 word) = int n"
  by (simp add: signed_of_nat signed_take_bit_int_eq_self)

lemma trailing_0_iff: "errs \<noteq> [] \<Longrightarrow> trailing errs = 0 \<longleftrightarrow> last errs = None"
  by (cases errs rule: rev_cases) (auto simp: trailing_def)

section \<open>The row after a history of reports\<close>

definition after_reports :: "string \<Rightarrow> (pg \<times> healthReport \<times> string) list \<Rightarrow> db \<Rightarrow> db \<times> fault list" where
  "after_reports tool rs d = fold (\<lambda>(env, r, k) st. snd (upsertHealth env True tool r k st)) rs (d, [])"

definition report_status :: "pg \<times> healthReport \<times> string \<Rightarrow> string" where
  "report_status x = hr_Status (fst (snd x))"

definition report_row :: "pg \<Rightarrow> string \<Rightarrow> healthReport \<Rightarrow> string \<Rightarrow> health_row" where
  "report_row env tool r k = health_new (pg_now env) tool r (the (pg_jsonb env (extra_json r))) (failed_id r k)"

lemma upsertHealth_ok:
  assumes "pg_jsonb env (extra_json r) \<noteq> None"
  shows "upsertHealth env True tool r k (d, []) =
    (None, d\<lparr>db_health := upsert1 mh_tool (health_merge (pg_now env)) (\<lambda>_ _. True)
        (report_row env tool r k) (db_health d)\<rparr>, [])"
  using assms by (auto simp: upsertHealth_def health_stmt_def insert_on_conflict_Cons1 report_row_def)

lemma after_reports_snoc:
  "after_reports tool (rs @ [(env, r, k)]) d = snd (upsertHealth env True tool r k (after_reports tool rs d))"
  by (simp add: after_reports_def)

definition bad_reports :: "(pg \<times> healthReport \<times> string) list \<Rightarrow> nat" where
  "bad_reports rs = length (filter (\<lambda>x. bad_status (report_status x)) rs)"

definition good_reports :: "(pg \<times> healthReport \<times> string) list \<Rightarrow> nat" where
  "good_reports rs = length (filter (\<lambda>x. report_status x = ''healthy'') rs)"

text \<open>The failing reports after the last healthy one; reports with status unknown are passed over.\<close>

definition bad_streak :: "(pg \<times> healthReport \<times> string) list \<Rightarrow> nat" where
  "bad_streak rs = bad_reports (takeWhile (\<lambda>x. report_status x \<noteq> ''healthy'') (rev rs))"

definition row_counts :: "(pg \<times> healthReport \<times> string) list \<Rightarrow> health_row \<Rightarrow> bool" where
  "row_counts rs row \<longleftrightarrow> mh_status row = report_status (last rs)
     \<and> mh_failures row = int (bad_reports rs) \<and> mh_successes row = int (good_reports rs)
     \<and> mh_consecutive row = int (bad_streak rs)"

lemmas report_counts = bad_reports_def good_reports_def bad_streak_def report_status_def bad_status_def

lemma row_after_reports:
  assumes "\<forall>(env, r, k) \<in> set rs. pg_jsonb env (extra_json r) \<noteq> None"
    and "tool \<notin> mh_tool ` set (db_health d)"
  shows "snd (after_reports tool rs d) = [] \<and>
    (case lookup mh_tool (db_health (fst (after_reports tool rs d))) tool of
       None \<Rightarrow> rs = []
     | Some row \<Rightarrow> rs \<noteq> [] \<and> row_counts rs row)"
  using assms(1)
proof (induction rs rule: rev_induct)
  case Nil
  then show ?case using assms(2) lookup_None_iff [of mh_tool "db_health d" tool] by (simp add: after_reports_def)
next
  case (snoc x rs)
  obtain env r k where x: "x = (env, r, k)" by (cases x)
  obtain d1 where d1: "after_reports tool rs d = (d1, [])"
    using snoc by (cases "after_reports tool rs d") auto
  have ok: "pg_jsonb env (extra_json r) \<noteq> None" using snoc.prems x by simp
  have st: "after_reports tool (rs @ [x]) d = (d1\<lparr>db_health := upsert1 mh_tool (health_merge (pg_now env))
      (\<lambda>_ _. True) (report_row env tool r k) (db_health d1)\<rparr>, [])"
    by (simp add: x after_reports_snoc d1 upsertHealth_ok [OF ok])
  have tool: "mh_tool (report_row env tool r k) = tool"
    by (simp add: report_row_def health_new_def)
  show ?case
  proof (cases "lookup mh_tool (db_health d1) tool")
    case None
    with snoc have "rs = []" by (simp add: d1)
    then have "row_counts (rs @ [x]) (report_row env tool r k)"
      by (auto simp: row_counts_def report_row_def health_new_def report_counts x)
    then show ?thesis using None tool by (simp add: st health_tbl.lookup_upsert1)
  next
    case (Some old)
    with snoc have "row_counts rs old" by (simp add: d1)
    then have "row_counts (rs @ [x]) (health_merge (pg_now env) old (report_row env tool r k))"
      by (auto simp: row_counts_def health_merge_def report_row_def health_new_def report_counts x)
    then show ?thesis using Some tool by (simp add: st health_tbl.lookup_upsert1)
  qed
qed

section \<open>Properties\<close>

text \<open>
  The status of a tool without its own health check: unknown before the first run, healthy when
  the last run succeeded, unhealthy after five or more failures in a row and degraded after fewer, for
  histories short enough that the 32-bit counters do not wrap.
\<close>

theorem passive_health_status:
  assumes "length errs < 2 ^ 31"
  shows "hr_Status (gatherHealth None (after_runs errs)) =
    (if errs = [] then ''unknown'' else if last errs = None then ''healthy''
     else if trailing errs \<ge> 5 then ''unhealthy'' else ''degraded'')"
proof (cases "errs = []")
  case True
  then show ?thesis by (simp add: gatherHealth_def Let_def counters_after_runs)
next
  case False
  have t: "trailing errs < 2 ^ 31" using trailing_le [of errs] assms by simp
  have "(word_of_nat (length errs) :: 32 word) \<noteq> 0" using False assms by (simp add: word_of_nat_32_eq_0)
  moreover have "(word_of_nat (trailing errs) :: 32 word) = 0 \<longleftrightarrow> last errs = None"
    using t trailing_0_iff [OF False] by (simp add: word_of_nat_32_eq_0)
  ultimately show ?thesis
    using False t by (simp add: gatherHealth_def Let_def counters_after_runs sint_word_of_nat)
qed

theorem passive_health_status_witness:
  "hr_Status (gatherHealth None (after_runs [None, Some FatalErr, Some TransientErr])) = ''degraded''"
  using passive_health_status [of "[None, Some FatalErr, Some TransientErr]"]
  by (simp add: trailing_def)

text \<open>
  The counters wrap: after exactly 2^32 runs the status is unknown again, and after 2^31 failures
  in a row (and fewer than 2^32 runs) it is degraded, not unhealthy.
\<close>

theorem passive_health_wraps:
  "(length errs = 2 ^ 32 \<longrightarrow> hr_Status (gatherHealth None (after_runs errs)) = ''unknown'')
   \<and> (length errs < 2 ^ 32 \<and> trailing errs = 2 ^ 31 \<longrightarrow>
        hr_Status (gatherHealth None (after_runs errs)) = ''degraded'')"
proof (intro conjI impI)
  assume "length errs = 2 ^ 32"
  then have "(word_of_nat (length errs) :: 32 word) = 0" by (simp add: word_of_nat_eq_0_iff)
  then show "hr_Status (gatherHealth None (after_runs errs)) = ''unknown''"
    by (simp add: gatherHealth_def Let_def counters_after_runs)
next
  assume a: "length errs < 2 ^ 32 \<and> trailing errs = 2 ^ 31"
  then have "length errs \<noteq> 0" using trailing_le [of errs] by auto
  then have "(word_of_nat (length errs) :: 32 word) \<noteq> 0" using a by (simp add: word_of_nat_32_eq_0)
  moreover have "sint (word_of_nat (trailing errs) :: 32 word) = - (2 ^ 31)"
    using a by (simp add: signed_of_nat signed_take_bit_def not_eq_complement mask_eq_exp_minus_1)
  moreover have "(word_of_nat (trailing errs) :: 32 word) \<noteq> 0" using a word_of_nat_32_eq_0 [of "2 ^ 31"] by simp
  ultimately show "hr_Status (gatherHealth None (after_runs errs)) = ''degraded''"
    by (simp add: gatherHealth_def Let_def counters_after_runs)
qed

theorem passive_health_wraps_witness:
  "hr_Status (gatherHealth None (after_runs (replicate (2 ^ 31) (Some FatalErr)))) = ''degraded''"
  using passive_health_wraps [of "replicate (2 ^ 31) (Some FatalErr)"]
  by (simp add: trailing_def takeWhile_replicate)

text \<open>
  C18: after any history of accepted reports the row of the tool has the last status, counts all
  failing and all healthy reports, and its consecutive failures are the failing reports since the
  last healthy one, reports with status unknown passed over.
\<close>

theorem health_row_reflects_history:
  assumes "rs \<noteq> []" and "\<forall>(env, r, k) \<in> set rs. pg_jsonb env (extra_json r) \<noteq> None"
    and "tool \<notin> mh_tool ` set (db_health d)"
  shows "\<exists>row. lookup mh_tool (db_health (fst (after_reports tool rs d))) tool = Some row
    \<and> mh_status row = report_status (last rs)
    \<and> mh_failures row = int (bad_reports rs) \<and> mh_successes row = int (good_reports rs)
    \<and> mh_consecutive row = int (bad_streak rs)"
  using row_after_reports [OF assms(2,3)] assms(1) by (auto simp: row_counts_def split: option.splits)

text \<open>A concrete environment, empty database and report for the witnesses.\<close>

definition pg1 :: pg where
  "pg1 = \<lparr>pg_jsonb = (\<lambda>t. if t = ''{}'' then Some [] else None), pg_digest = (\<lambda>_. []), pg_gen_id = (\<lambda>s k v. []), pg_first_seen = 1, pg_now = 1\<rparr>"

definition report1 :: "string \<Rightarrow> string \<Rightarrow> healthReport" where
  "report1 s c = \<lparr>hr_Status = s, hr_Class = c, hr_Message = [], hr_Extra = None\<rparr>"

theorem health_row_reflects_history_witness:
  "\<exists>row. lookup mh_tool (db_health (fst (after_reports ''t''
      [(pg1, report1 ''unhealthy'' ''x'', []), (pg1, report1 ''unknown'' ''x'', []), (pg1, report1 ''degraded'' ''x'', [])] empty_db))) ''t'' = Some row
    \<and> mh_consecutive row = 2"
  using health_row_reflects_history [of "[(pg1, report1 ''unhealthy'' ''x'', []), (pg1, report1 ''unknown'' ''x'', []),
      (pg1, report1 ''degraded'' ''x'', [])]" "''t''" empty_db]
  by (auto simp: pg1_def empty_db_def report1_def report_counts extra_json_def)

text \<open>
  The key a row blames: a healthy report clears it, a report of an API key failure with a key
  sets it, and any other failure or unknown report keeps the key blamed before.
\<close>

theorem failed_key_after_report:
  assumes "lookup mh_tool (db_health d) tool = Some old" and "pg_jsonb env (extra_json r) \<noteq> None"
    and "upsertHealth env True tool r k (d, []) = (None, d', [])"
  shows "map_option mh_failed_key (lookup mh_tool (db_health d') tool) = Some
    (if hr_Status r = ''healthy'' then None
     else if k \<noteq> [] \<and> hr_Class r \<in> {''api_key_invalid'', ''api_key_quota_exceeded''} then Some k
     else mh_failed_key old)"
proof -
  have "d' = d\<lparr>db_health := upsert1 mh_tool (health_merge (pg_now env)) (\<lambda>_ _. True)
      (report_row env tool r k) (db_health d)\<rparr>"
    using assms(3) by (simp add: upsertHealth_ok [OF assms(2)])
  moreover have "mh_tool (report_row env tool r k) = tool"
    by (simp add: report_row_def health_new_def)
  ultimately show ?thesis
    using assms(1) by (auto simp: health_tbl.lookup_upsert1 health_merge_def report_row_def health_new_def failed_id_def)
qed

theorem failed_key_after_report_witness:
  "map_option mh_failed_key (lookup mh_tool (db_health (fst (snd
      (upsertHealth pg1 True ''t'' (report1 ''unhealthy'' ''service_unreachable'') ''k2''
        (empty_db\<lparr>db_health := [health_new 0 ''t'' (report1 ''unhealthy'' ''api_key_invalid'') [] (Some ''k1'')]\<rparr>, []))))) ''t'')
   = Some (Some ''k1'')"
proof -
  let ?d = "empty_db\<lparr>db_health := [health_new 0 ''t'' (report1 ''unhealthy'' ''api_key_invalid'') [] (Some ''k1'')]\<rparr>"
  have "pg_jsonb pg1 (extra_json (report1 ''unhealthy'' ''service_unreachable'')) \<noteq> None"
    by (simp add: pg1_def report1_def extra_json_def)
  from failed_key_after_report [OF _ this, of ?d "''t''" "health_new 0 ''t'' (report1 ''unhealthy'' ''api_key_invalid'') [] (Some ''k1'')" "''k2''"]
    upsertHealth_ok [OF this, of "''t''" "''k2''" ?d]
  show ?thesis by (simp add: lookup_def health_new_def report1_def)
qed

text \<open>
  The reporting loop starts with the configured interval in seconds, at least ten, when it is below
  2^63 nanoseconds; an interval of 9223372037 seconds wraps to a negative period, and creating the
  ticker panics.
\<close>

theorem health_interval_bounds:
  "10 \<le> health_interval getenv
   \<and> (health_interval getenv \<le> 9223372036 \<longrightarrow>
        newTicker (health_interval getenv) = Some (health_interval getenv * Second))
   \<and> newTicker 9223372037 = None"
proof (intro conjI impI)
  show ge: "10 \<le> health_interval getenv" by (simp add: health_interval_def Let_def)
  assume "health_interval getenv \<le> 9223372036"
  then show "newTicker (health_interval getenv) = Some (health_interval getenv * Second)"
    using ge by (simp add: newTicker_def Let_def Second_def signed_take_bit_int_eq_self)
next
  show "newTicker 9223372037 = None" by code_simp
qed

theorem health_interval_bounds_witness:
  "newTicker (health_interval (\<lambda>_. ''3'')) = Some (10 * Second)"
proof -
  have "health_interval (\<lambda>_. ''3'') = 10" by code_simp
  then show ?thesis using health_interval_bounds [of "\<lambda>_. ''3''"] by simp
qed

end
