(* ===== verification/Base64.thy ===== *)
theory Base64
  imports Prelude
begin

text \<open>
  Package \<open>encoding/base64\<close> as the source uses it: \<open>StdEncoding\<close> and \<open>RawURLEncoding\<close>.
  Decoding skips line breaks anywhere and ignores the unused low bits of a final group; the
  padded encoding wants its padding and nothing after it. Encoding then decoding gives the bytes back.
\<close>

section \<open>Alphabets\<close>

definition std_alphabet :: string where
  "std_alphabet = ''ABCDEFGHIJKLMNOPQRSTUVWXYZabcdefghijklmnopqrstuvwxyz0123456789+/''"

definition url_alphabet :: string where
  "url_alphabet = ''ABCDEFGHIJKLMNOPQRSTUVWXYZabcdefghijklmnopqrstuvwxyz0123456789-_''"

fun index_of :: "string \<Rightarrow> char \<Rightarrow> nat option" where
  "index_of [] c = None"
| "index_of (x # xs) c = (if x = c then Some 0 else map_option Suc (index_of xs c))"

section \<open>Decoding\<close>

definition byte :: "nat \<Rightarrow> char" where
  "byte n = char_of n"

definition dec1 :: "nat \<Rightarrow> nat \<Rightarrow> char" where
  "dec1 u v = byte (u * 4 + v div 16)"

definition dec2 :: "nat \<Rightarrow> nat \<Rightarrow> char" where
  "dec2 v w = byte (v mod 16 * 16 + w div 4)"

definition dec3 :: "nat \<Rightarrow> nat \<Rightarrow> char" where
  "dec3 w x = byte (w mod 4 * 64 + x)"

fun b64_groups :: "string \<Rightarrow> bool \<Rightarrow> string \<Rightarrow> bytes option" where
  "b64_groups al pad [] = Some []"
| "b64_groups al pad [a] = None"
| "b64_groups al pad [a, b] =
     (case (index_of al a, index_of al b) of
        (Some u, Some v) \<Rightarrow> if pad then None else Some [dec1 u v]
      | _ \<Rightarrow> None)"
| "b64_groups al pad [a, b, c] =
     (case (index_of al a, index_of al b, index_of al c) of
        (Some u, Some v, Some w) \<Rightarrow> if pad then None else Some [dec1 u v, dec2 v w]
      | _ \<Rightarrow> None)"
| "b64_groups al pad (a # b # c # d # s) =
     (case (index_of al a, index_of al b, index_of al c, index_of al d) of
        (Some u, Some v, Some w, Some x) \<Rightarrow>
          map_option ((@) [dec1 u v, dec2 v w, dec3 w x]) (b64_groups al pad s)
      | (Some u, Some v, Some w, None) \<Rightarrow>
          if pad \<and> d = CHR ''='' \<and> s = [] then Some [dec1 u v, dec2 v w] else None
      | (Some u, Some v, None, _) \<Rightarrow>
          if pad \<and> c = CHR ''='' \<and> d = CHR ''='' \<and> s = [] then Some [dec1 u v] else None
      | _ \<Rightarrow> None)"

definition no_breaks :: "string \<Rightarrow> string" where
  "no_breaks s = filter (\<lambda>c. c \<noteq> CHR 0x0A \<and> c \<noteq> CHR 0x0D) s"

definition std_decode :: "string \<Rightarrow> bytes option" where
  "std_decode s = b64_groups std_alphabet True (no_breaks s)"

definition rawurl_decode :: "string \<Rightarrow> bytes option" where
  "rawurl_decode s = b64_groups url_alphabet False (no_breaks s)"

section \<open>Encoding\<close>

definition enc1 :: "char \<Rightarrow> nat" where
  "enc1 a = of_char a div 4"

definition enc2 :: "char \<Rightarrow> nat \<Rightarrow> nat" where
  "enc2 a n = of_char a mod 4 * 16 + n div 16"

definition enc3 :: "nat \<Rightarrow> nat \<Rightarrow> nat" where
  "enc3 m n = m mod 16 * 4 + n div 64"

fun rawurl_encode :: "bytes \<Rightarrow> string" where
  "rawurl_encode [] = []"
| "rawurl_encode [a] = map ((!) url_alphabet) [enc1 a, enc2 a 0]"
| "rawurl_encode [a, b] =
     map ((!) url_alphabet) [enc1 a, enc2 a (of_char b), enc3 (of_char b) 0]"
| "rawurl_encode (a # b # c # s) =
     map ((!) url_alphabet) [enc1 a, enc2 a (of_char b), enc3 (of_char b) (of_char c), of_char c mod 64]
       @ rawurl_encode s"

section \<open>Round trip\<close>

lemma index_alphabet: "n < 64 \<Longrightarrow> index_of url_alphabet (url_alphabet ! n) = Some n"
proof -
  have "\<forall>n \<in> set [0..<64]. index_of url_alphabet (url_alphabet ! n) = Some n"
    by code_simp
  then show "n < 64 \<Longrightarrow> ?thesis" by simp
qed

lemma alphabet_no_breaks: "n < 64 \<Longrightarrow> url_alphabet ! n \<noteq> CHR 0x0A \<and> url_alphabet ! n \<noteq> CHR 0x0D"
proof -
  have "\<forall>n \<in> set [0..<64]. url_alphabet ! n \<noteq> CHR 0x0A \<and> url_alphabet ! n \<noteq> CHR 0x0D"
    by code_simp
  then show "n < 64 \<Longrightarrow> ?thesis" by simp
qed

lemma of_char_less: "of_char (c :: char) < (256 :: nat)"
  by (cases c) (simp add: of_char_def split: prod.split)

lemma enc_bounds [simp]:
  "enc1 a < 64" "n < 256 \<Longrightarrow> enc2 a n < 64" "n < 256 \<Longrightarrow> enc3 m n < 64"
  using of_char_less [of a] mod_less_divisor [of 4 "of_char a :: nat"] mod_less_divisor [of 16 m]
  by (auto simp: enc1_def enc2_def enc3_def less_mult_imp_div_less simp del: mod_less_divisor)

lemma div_mod_digits:
  fixes m n k :: nat
  assumes "n < k"
  shows "(m * k + n) div k = m" and "(m * k + n) mod k = n"
  using assms by simp_all

lemma dec1_enc [simp]: "n < 256 \<Longrightarrow> dec1 (enc1 a) (enc2 a n) = a"
proof -
  assume "n < 256"
  then have "(of_char a mod 4 * 16 + n div 16) div 16 = (of_char a mod 4 :: nat)"
    by (intro div_mod_digits) auto
  then show ?thesis by (simp add: dec1_def enc1_def enc2_def byte_def)
qed

lemma dec2_enc [simp]: "n < 256 \<Longrightarrow> dec2 (enc2 a (of_char b)) (enc3 (of_char b) n) = b"
proof -
  assume "n < 256"
  then have "(of_char b mod 16 * 4 + n div 64) div 4 = (of_char b mod 16 :: nat)"
    by (intro div_mod_digits) auto
  moreover have "(of_char a mod 4 * 16 + of_char b div 16) mod 16 = (of_char b div 16 :: nat)"
    using of_char_less [of b] by (intro div_mod_digits less_mult_imp_div_less) simp
  ultimately show ?thesis by (simp add: dec2_def enc2_def enc3_def byte_def)
qed

lemma dec3_enc [simp]: "dec3 (enc3 m (of_char c)) (of_char c mod 64) = c"
proof -
  have "(m mod 16 * 4 + of_char c div 64) mod 4 = (of_char c div 64 :: nat)"
    using of_char_less [of c] by (intro div_mod_digits less_mult_imp_div_less) simp
  then show ?thesis by (simp add: dec3_def enc3_def byte_def)
qed

lemma groups_encode: "b64_groups url_alphabet False (rawurl_encode s) = Some s"
  by (induction s rule: rawurl_encode.induct) (simp_all add: index_alphabet of_char_less)

lemma encode_no_breaks: "no_breaks (rawurl_encode s) = rawurl_encode s"
  by (induction s rule: rawurl_encode.induct)
    (simp_all add: no_breaks_def alphabet_no_breaks of_char_less)

lemma rawurl_roundtrip: "rawurl_decode (rawurl_encode s) = Some s"
  by (simp add: rawurl_decode_def encode_no_breaks groups_encode)

end
