(* ===== verification/Aes_Gcm.thy ===== *)
theory Aes_Gcm
  imports Prelude "HOL-Library.Word"
begin

text \<open>
  Packages \<open>crypto/aes\<close> and \<open>crypto/cipher\<close> as the source uses them: AES with a 256-bit key and
  GCM with a 12-byte nonce, a 16-byte tag and no additional data. The locale \<open>aead\<close> states what a
  client relies on: opening a sealed text gives it back, and a sealed text is its plaintext's length
  and a tag longer. It is interpreted on AES-GCM.
\<close>

unbundle bit_operations_syntax

type_synonym u8 = "8 word"
type_synonym u128 = "128 word"

section \<open>AES-256\<close>

definition aes_sbox :: "u8 list" where
  "aes_sbox = [
    0x63, 0x7c, 0x77, 0x7b, 0xf2, 0x6b, 0x6f, 0xc5, 0x30, 0x01, 0x67, 0x2b, 0xfe, 0xd7, 0xab, 0x76,
    0xca, 0x82, 0xc9, 0x7d, 0xfa, 0x59, 0x47, 0xf0, 0xad, 0xd4, 0xa2, 0xaf, 0x9c, 0xa4, 0x72, 0xc0,
    0xb7, 0xfd, 0x93, 0x26, 0x36, 0x3f, 0xf7, 0xcc, 0x34, 0xa5, 0xe5, 0xf1, 0x71, 0xd8, 0x31, 0x15,
    0x04, 0xc7, 0x23, 0xc3, 0x18, 0x96, 0x05, 0x9a, 0x07, 0x12, 0x80, 0xe2, 0xeb, 0x27, 0xb2, 0x75,
    0x09, 0x83, 0x2c, 0x1a, 0x1b, 0x6e, 0x5a, 0xa0, 0x52, 0x3b, 0xd6, 0xb3, 0x29, 0xe3, 0x2f, 0x84,
    0x53, 0xd1, 0x00, 0xed, 0x20, 0xfc, 0xb1, 0x5b, 0x6a, 0xcb, 0xbe, 0x39, 0x4a, 0x4c, 0x58, 0xcf,
    0xd0, 0xef, 0xaa, 0xfb, 0x43, 0x4d, 0x33, 0x85, 0x45, 0xf9, 0x02, 0x7f, 0x50, 0x3c, 0x9f, 0xa8,
    0x51, 0xa3, 0x40, 0x8f, 0x92, 0x9d, 0x38, 0xf5, 0xbc, 0xb6, 0xda, 0x21, 0x10, 0xff, 0xf3, 0xd2,
    0xcd, 0x0c, 0x13, 0xec, 0x5f, 0x97, 0x44, 0x17, 0xc4, 0xa7, 0x7e, 0x3d, 0x64, 0x5d, 0x19, 0x73,
    0x60, 0x81, 0x4f, 0xdc, 0x22, 0x2a, 0x90, 0x88, 0x46, 0xee, 0xb8, 0x14, 0xde, 0x5e, 0x0b, 0xdb,
    0xe0, 0x32, 0x3a, 0x0a, 0x49, 0x06, 0x24, 0x5c, 0xc2, 0xd3, 0xac, 0x62, 0x91, 0x95, 0xe4, 0x79,
    0xe7, 0xc8, 0x37, 0x6d, 0x8d, 0xd5, 0x4e, 0xa9, 0x6c, 0x56, 0xf4, 0xea, 0x65, 0x7a, 0xae, 0x08,
    0xba, 0x78, 0x25, 0x2e, 0x1c, 0xa6, 0xb4, 0xc6, 0xe8, 0xdd, 0x74, 0x1f, 0x4b, 0xbd, 0x8b, 0x8a,
    0x70, 0x3e, 0xb5, 0x66, 0x48, 0x03, 0xf6, 0x0e, 0x61, 0x35, 0x57, 0xb9, 0x86, 0xc1, 0x1d, 0x9e,
    0xe1, 0xf8, 0x98, 0x11, 0x69, 0xd9, 0x8e, 0x94, 0x9b, 0x1e, 0x87, 0xe9, 0xce, 0x55, 0x28, 0xdf,
    0x8c, 0xa1, 0x89, 0x0d, 0xbf, 0xe6, 0x42, 0x68, 0x41, 0x99, 0x2d, 0x0f, 0xb0, 0x54, 0xbb, 0x16]"

definition sub_byte :: "u8 \<Rightarrow> u8" where
  "sub_byte b = aes_sbox ! unat b"

definition xtime :: "u8 \<Rightarrow> u8" where
  "xtime b = push_bit 1 b XOR (if bit b 7 then 0x1b else 0)"

text \<open>The key schedule: 60 words of four bytes, the latest first.\<close>

fun aes_schedule :: "nat \<Rightarrow> nat \<Rightarrow> u8 \<Rightarrow> u8 list list \<Rightarrow> u8 list list" where
  "aes_schedule i 0 rcon ws = ws"
| "aes_schedule i (Suc n) rcon ws =
     (let t = ws ! 0;
          t' = (if i mod 8 = 0
                then map2 (XOR) (map sub_byte [t ! 1, t ! 2, t ! 3, t ! 0]) [rcon, 0, 0, 0]
                else if i mod 8 = 4 then map sub_byte t else t)
      in aes_schedule (Suc i) n (if i mod 8 = 0 then xtime rcon else rcon) (map2 (XOR) (ws ! 7) t' # ws))"

fun groups4 :: "'a list \<Rightarrow> 'a list list" where
  "groups4 (a # b # c # d # r) = [a, b, c, d] # groups4 r"
| "groups4 _ = []"

definition round_keys :: "u8 list \<Rightarrow> u8 list list" where
  "round_keys k = map concat (groups4 (rev (aes_schedule 8 52 1 (rev (groups4 k)))))"

definition shift_rows :: "u8 list \<Rightarrow> u8 list" where
  "shift_rows s = map ((!) s) [0, 5, 10, 15, 4, 9, 14, 3, 8, 13, 2, 7, 12, 1, 6, 11]"

fun mix_column :: "u8 list \<Rightarrow> u8 list" where
  "mix_column [a, b, c, d] =
     [xtime a XOR xtime b XOR b XOR c XOR d, a XOR xtime b XOR xtime c XOR c XOR d,
      a XOR b XOR xtime c XOR xtime d XOR d, xtime a XOR a XOR b XOR c XOR xtime d]"
| "mix_column c = c"

definition mix_columns :: "u8 list \<Rightarrow> u8 list" where
  "mix_columns s = concat (map mix_column (groups4 s))"

fun aes_rounds :: "u8 list list \<Rightarrow> u8 list \<Rightarrow> u8 list" where
  "aes_rounds [] s = s"
| "aes_rounds [k] s = map2 (XOR) (shift_rows (map sub_byte s)) k"
| "aes_rounds (k # ks) s = aes_rounds ks (map2 (XOR) (mix_columns (shift_rows (map sub_byte s))) k)"

definition be16 :: "u128 \<Rightarrow> u8 list" where
  "be16 w = map (\<lambda>i. ucast (drop_bit (8 * i) w)) [15, 14, 13, 12, 11, 10, 9, 8, 7, 6, 5, 4, 3, 2, 1, 0]"

definition of_be :: "u8 list \<Rightarrow> u128" where
  "of_be bs = foldl (\<lambda>w b. push_bit 8 w OR ucast b) 0 bs"

definition aes_encrypt :: "u8 list \<Rightarrow> u128 \<Rightarrow> u128" where
  "aes_encrypt k b =
     (case round_keys k of
        [] \<Rightarrow> b
      | k0 # ks \<Rightarrow> of_be (aes_rounds ks (map2 (XOR) (be16 b) k0)))"

section \<open>GCM\<close>

fun gf_mult_loop :: "nat \<Rightarrow> u128 \<Rightarrow> u128 \<Rightarrow> u128 \<Rightarrow> u128" where
  "gf_mult_loop 0 x v z = z"
| "gf_mult_loop (Suc n) x v z =
     gf_mult_loop n x
       (if bit v 0 then drop_bit 1 v XOR push_bit 120 0xe1 else drop_bit 1 v)
       (if bit x n then z XOR v else z)"

definition gf_mult :: "u128 \<Rightarrow> u128 \<Rightarrow> u128" where
  "gf_mult x y = gf_mult_loop 128 x y 0"

definition pad16 :: "u8 list \<Rightarrow> u8 list" where
  "pad16 bs = bs @ replicate (16 - length bs) 0"

function ghash :: "u128 \<Rightarrow> u128 \<Rightarrow> u8 list \<Rightarrow> u128" where
  "ghash h y bs =
     (if bs = [] then y else ghash h (gf_mult (y XOR of_be (pad16 (take 16 bs))) h) (drop 16 bs))"
  by pat_completeness auto
termination
  by (relation "measure (\<lambda>(_, _, bs). length bs)") auto

declare ghash.simps [simp del]

text \<open>The first counter block, and the counter mode that increments its low 32 bits.\<close>

definition gcm_j0 :: "u8 list \<Rightarrow> u128" where
  "gcm_j0 nonce = of_be (nonce @ [0, 0, 0, 1])"

definition inc32 :: "u128 \<Rightarrow> u128" where
  "inc32 c = (c AND NOT 0xFFFFFFFF) OR ucast (ucast c + 1 :: 32 word)"

function ctr_xor :: "(u128 \<Rightarrow> u128) \<Rightarrow> u128 \<Rightarrow> u8 list \<Rightarrow> u8 list" where
  "ctr_xor e c bs =
     (if bs = [] then []
      else map2 (XOR) (take 16 bs) (be16 (e c)) @ ctr_xor e (inc32 c) (drop 16 bs))"
  by pat_completeness auto
termination
  by (relation "measure (\<lambda>(_, _, bs). length bs)") auto

declare ctr_xor.simps [simp del]

definition gcm_tag :: "u8 list \<Rightarrow> u8 list \<Rightarrow> u8 list \<Rightarrow> u8 list" where
  "gcm_tag k nonce ct =
     (let e = aes_encrypt k; h = e 0;
          s = gf_mult (ghash h 0 ct XOR of_int (8 * int (length ct))) h
      in be16 (s XOR e (gcm_j0 nonce)))"

definition gcm_seal :: "u8 list \<Rightarrow> u8 list \<Rightarrow> u8 list \<Rightarrow> u8 list" where
  "gcm_seal k nonce pt =
     (let ct = ctr_xor (aes_encrypt k) (inc32 (gcm_j0 nonce)) pt in ct @ gcm_tag k nonce ct)"

definition gcm_open :: "u8 list \<Rightarrow> u8 list \<Rightarrow> u8 list \<Rightarrow> u8 list option" where
  "gcm_open k nonce sealed =
     (if length sealed < 16 \<or> int (length sealed) > (2 ^ 32 - 2) * 16 + 16 then None
      else
        let ct = take (length sealed - 16) sealed; tag = drop (length sealed - 16) sealed in
        if tag = gcm_tag k nonce ct
        then Some (ctr_xor (aes_encrypt k) (inc32 (gcm_j0 nonce)) ct)
        else None)"

section \<open>Opening what was sealed\<close>

lemma length_be16 [simp]: "length (be16 w) = 16"
  by (simp add: be16_def)

lemma length_gcm_tag [simp]: "length (gcm_tag k nonce ct) = 16"
  by (simp add: gcm_tag_def Let_def)

lemma xor_block_twice:
  fixes p ks :: "u8 list"
  shows "length p \<le> length ks \<Longrightarrow> map2 (XOR) (map2 (XOR) p ks) ks = p"
  by (induction p ks rule: list_induct2') (simp_all add: xor.assoc)

lemma ctr_xor_Nil [simp]: "ctr_xor e c [] = []"
  by (simp add: ctr_xor.simps)

lemma length_ctr_xor [simp]: "length (ctr_xor e c bs) = length bs"
proof (induction e c bs rule: ctr_xor.induct)
  case (1 e c bs)
  then show ?case by (subst ctr_xor.simps) (auto simp: min_def)
qed

lemma ctr_xor_twice: "ctr_xor e c (ctr_xor e c bs) = bs"
proof (induction e c bs rule: ctr_xor.induct)
  case (1 e c bs)
  show ?case
  proof (cases "bs = []")
    case False
    let ?x = "map2 (XOR) (take 16 bs) (be16 (e c))"
    have step: "ctr_xor e c bs = ?x @ ctr_xor e (inc32 c) (drop 16 bs)"
      using False by (subst ctr_xor.simps) simp
    have twice: "map2 (XOR) ?x (be16 (e c)) = take 16 bs" by (rule xor_block_twice) simp
    show ?thesis
    proof (cases "length bs \<le> 16")
      case True
      then have x: "ctr_xor e c bs = ?x" and len: "length ?x \<le> 16"
        using step by (simp_all add: ctr_xor.simps)
      have "?x \<noteq> []" using False by (metis length_0_conv length_ctr_xor x)
      then have "ctr_xor e c ?x = map2 (XOR) ?x (be16 (e c))"
        using len by (subst ctr_xor.simps) (simp add: ctr_xor.simps [of _ _ "[]"])
      with twice True show ?thesis by (simp add: x)
    next
      case len: False
      then have "length ?x = 16" by simp
      then have "ctr_xor e c (?x @ r) = map2 (XOR) ?x (be16 (e c)) @ ctr_xor e (inc32 c) r" for r
        by (subst ctr_xor.simps) auto
      then show ?thesis using step twice 1 [OF False] by (simp del: map2_map_map)
    qed
  qed (simp add: ctr_xor.simps)
qed

definition gcm_max :: int where
  "gcm_max = (2 ^ 32 - 2) * 16"

lemma gcm_open_seal: "int (length pt) \<le> gcm_max \<Longrightarrow> gcm_open k nonce (gcm_seal k nonce pt) = Some pt"
  by (simp add: gcm_open_def gcm_seal_def Let_def ctr_xor_twice gcm_max_def)

lemma gcm_open_sound: "gcm_open k nonce c = Some pt \<Longrightarrow> c = gcm_seal k nonce pt"
proof -
  assume "gcm_open k nonce c = Some pt"
  then have "drop (length c - 16) c = gcm_tag k nonce (take (length c - 16) c)"
    and pt: "pt = ctr_xor (aes_encrypt k) (inc32 (gcm_j0 nonce)) (take (length c - 16) c)"
    by (auto simp: gcm_open_def Let_def split: if_splits)
  then have "gcm_seal k nonce pt = take (length c - 16) c @ drop (length c - 16) c"
    by (simp add: gcm_seal_def Let_def ctr_xor_twice)
  then show ?thesis by simp
qed

lemma length_gcm_seal: "length (gcm_seal k nonce pt) = length pt + 16"
  by (simp add: gcm_seal_def Let_def)

section \<open>The contract of an authenticated cipher\<close>

definition to_u8 :: "bytes \<Rightarrow> u8 list" where
  "to_u8 s = map of_char s"

definition of_u8 :: "u8 list \<Rightarrow> bytes" where
  "of_u8 ws = map (\<lambda>w. char_of (uint w)) ws"

definition seal_bytes :: "bytes \<Rightarrow> bytes \<Rightarrow> bytes \<Rightarrow> bytes" where
  "seal_bytes k nonce pt = of_u8 (gcm_seal (to_u8 k) (to_u8 nonce) (to_u8 pt))"

definition open_bytes :: "bytes \<Rightarrow> bytes \<Rightarrow> bytes \<Rightarrow> bytes option" where
  "open_bytes k nonce c = map_option of_u8 (gcm_open (to_u8 k) (to_u8 nonce) (to_u8 c))"

lemma length_to_u8: "length (to_u8 s) = length s"
  by (simp add: to_u8_def)

lemma of_u8_to_u8 [simp]: "of_u8 (to_u8 s) = s"
proof -
  have "char_of (uint (of_char c :: u8)) = c" for c :: char
    by (cases c) (simp add: of_char_def char_of_def split: prod.split)
  then show ?thesis by (simp add: of_u8_def to_u8_def o_def)
qed

lemma to_u8_of_u8 [simp]: "to_u8 (of_u8 ws) = ws"
proof -
  have "of_char (char_of (uint w)) = w" for w :: u8
  proof -
    have "uint w < 256" using uint_lt2p [of w] by simp
    then have "of_char (char_of (uint w)) = uint w" by simp
    then have "of_int (of_char (char_of (uint w))) = (of_int (uint w) :: u8)" by (rule arg_cong)
    then show ?thesis by (simp only: of_int_of_char) simp
  qed
  then show ?thesis by (simp add: of_u8_def to_u8_def o_def)
qed

locale aead =
  fixes sealf :: "bytes \<Rightarrow> bytes \<Rightarrow> bytes \<Rightarrow> bytes" and openf :: "bytes \<Rightarrow> bytes \<Rightarrow> bytes \<Rightarrow> bytes option"
    and maxlen :: int
  assumes open_seal: "int (length pt) \<le> maxlen \<Longrightarrow> openf k n (sealf k n pt) = Some pt"
    and open_sound: "openf k n c = Some pt \<Longrightarrow> c = sealf k n pt"
    and length_seal: "length (sealf k n pt) = length pt + 16"

interpretation gcm: aead seal_bytes open_bytes gcm_max
proof
  fix pt k n :: bytes
  show "length (seal_bytes k n pt) = length pt + 16"
    by (simp add: seal_bytes_def of_u8_def length_gcm_seal to_u8_def)
next
  fix pt k n :: bytes
  assume "int (length pt) \<le> gcm_max"
  then show "open_bytes k n (seal_bytes k n pt) = Some pt"
    using gcm_open_seal [of "to_u8 pt"] by (simp add: open_bytes_def seal_bytes_def length_to_u8)
next
  fix k n c pt :: bytes
  assume "open_bytes k n c = Some pt"
  then obtain w where "gcm_open (to_u8 k) (to_u8 n) (to_u8 c) = Some w" and "pt = of_u8 w"
    by (auto simp: open_bytes_def)
  then have "to_u8 c = gcm_seal (to_u8 k) (to_u8 n) (to_u8 pt)"
    using gcm_open_sound by simp
  then show "c = seal_bytes k n pt" by (metis of_u8_to_u8 seal_bytes_def)
qed

end
