(* ===== verification/Secretbox.thy ===== *)
theory Secretbox
  imports Json_Value Base64 Aes_Gcm
begin

text \<open>
  Package sdk/secretbox: the envelope of an encrypted config value, key parsing, and the in-place
  decryption of the config fields a manifest declares secret. The cipher is AES-GCM, reached through
  the locale \<open>aead\<close>. Shown: opening what the control plane seals gives the plaintext, and only
  such a string opens; a declared field ends up decrypted exactly when it can be, every other value
  is left alone.
\<close>

section \<open>Envelope\<close>

datatype sb_error = ErrInvalid | ErrNoKey string

definition prefixV1 :: string where
  "prefixV1 = ''enc:v1:''"

definition nonceLen :: nat where
  "nonceLen = 12"

definition ParseKey :: "string \<Rightarrow> (sb_error, bytes) result" where
  "ParseKey b64 =
     (let raw = (case std_decode (trimSpace b64) of
                   None \<Rightarrow> rawurl_decode (trimSpace b64)
                 | Some r \<Rightarrow> Some r)
      in case raw of
           None \<Rightarrow> Inl (ErrNoKey ''illegal base64 data'')
         | Some r \<Rightarrow>
             if length r \<noteq> 32 then Inl (ErrNoKey (''key must be 32 bytes, got '' @ dec_nat (length r)))
             else Inr r)"

text \<open>The environment is a function; an unset variable reads as the empty string.\<close>

definition LoadKeyFromEnv :: "(string \<Rightarrow> string) \<Rightarrow> (sb_error, bytes) result" where
  "LoadKeyFromEnv getenv =
     (let raw = getenv ''RECON_SECRETS_KEY'' in if raw = [] then Inl (ErrNoKey []) else ParseKey raw)"

definition decrypt_with ::
  "(bytes \<Rightarrow> bytes \<Rightarrow> bytes \<Rightarrow> bytes option) \<Rightarrow> bytes \<Rightarrow> string \<Rightarrow> (sb_error, bytes) result" where
  "decrypt_with openf k encoded =
     (if \<not> hasPrefix encoded prefixV1 then Inl ErrInvalid
      else
        let body = drop (length prefixV1) encoded in
        case rawurl_decode body of
          None \<Rightarrow> Inl ErrInvalid
        | Some raw \<Rightarrow>
            if length raw < nonceLen + 16 then Inl ErrInvalid
            else
              case openf k (take nonceLen raw) (drop nonceLen raw) of
                None \<Rightarrow> Inl ErrInvalid
              | Some pt \<Rightarrow> Inr pt)"

definition Decrypt :: "bytes \<Rightarrow> string \<Rightarrow> (sb_error, bytes) result" where
  "Decrypt k encoded = decrypt_with open_bytes k encoded"

definition IsEncrypted :: "string \<Rightarrow> bool" where
  "IsEncrypted s \<longleftrightarrow> hasPrefix s ''enc:v'' \<and> length s \<ge> 7 \<and> s ! 6 = CHR '':''"

text \<open>The envelope the control plane writes, for any cipher.\<close>

definition envelope :: "(bytes \<Rightarrow> bytes \<Rightarrow> bytes \<Rightarrow> bytes) \<Rightarrow> bytes \<Rightarrow> bytes \<Rightarrow> bytes \<Rightarrow> string" where
  "envelope sealf k nonce pt = prefixV1 @ rawurl_encode (nonce @ sealf k nonce pt)"

section \<open>Config fields\<close>

definition splitPath :: "string \<Rightarrow> string list" where
  "splitPath path =
     (let path = trimSpace path in
      if path = [] then []
      else filter (\<lambda>p. p \<noteq> []) (map trimSpace (split_on (CHR ''.'') path)))"

fun walkValue :: "gval \<Rightarrow> string list \<Rightarrow> gval option" where
  "walkValue cur [] = Some cur"
| "walkValue (GMap mp) (seg # segs) =
     (case map_of mp seg of None \<Rightarrow> None | Some v \<Rightarrow> walkValue v segs)"
| "walkValue _ (seg # segs) = None"

fun setValue :: "(string \<times> gval) list \<Rightarrow> string list \<Rightarrow> gval \<Rightarrow> (string \<times> gval) list" where
  "setValue m [] v = m"
| "setValue m [seg] v = (if map_of m seg = None then m else map_put m seg v)"
| "setValue m (seg # seg' # segs) v =
     (case map_of m seg of
        Some (GMap nested) \<Rightarrow> map_put m seg (GMap (setValue nested (seg' # segs) v))
      | _ \<Rightarrow> m)"

text \<open>The loop returns the updated config, the number of decrypted fields and the failed paths.\<close>

fun decrypt_loop ::
  "bytes \<Rightarrow> string list \<Rightarrow> (string \<times> gval) list \<Rightarrow> nat \<Rightarrow> string list
   \<Rightarrow> (string \<times> gval) list \<times> nat \<times> string list" where
  "decrypt_loop k [] cfg decrypted failed = (cfg, decrypted, failed)"
| "decrypt_loop k (path # paths) cfg decrypted failed =
     (let segments = splitPath path in
      if segments = [] then decrypt_loop k paths cfg decrypted failed
      else case walkValue (GMap cfg) segments of
        Some (GStr s) \<Rightarrow>
          (if s = [] \<or> \<not> IsEncrypted s then decrypt_loop k paths cfg decrypted failed
           else case Decrypt k s of
             Inl e \<Rightarrow> decrypt_loop k paths cfg decrypted (failed @ [path])
           | Inr pt \<Rightarrow> decrypt_loop k paths (setValue cfg segments (GStr pt)) (Suc decrypted) failed)
      | _ \<Rightarrow> decrypt_loop k paths cfg decrypted failed)"

definition DecryptFields ::
  "(string \<times> gval) list option \<Rightarrow> string list \<Rightarrow> bytes
   \<Rightarrow> (string \<times> gval) list option \<times> nat \<times> string list" where
  "DecryptFields cfg secretFields k =
     (case cfg of
        None \<Rightarrow> (None, 0, [])
      | Some m \<Rightarrow>
          (if secretFields = [] then (cfg, 0, [])
           else (let r = decrypt_loop k secretFields m 0 [] in (Some (fst r), snd r))))"

section \<open>What opens\<close>

context aead
begin

lemma decrypt_envelope:
  assumes "length nonce = nonceLen" and "int (length pt) \<le> maxlen"
  shows "decrypt_with openf k (envelope sealf k nonce pt) = Inr pt"
  using assms open_seal
  by (simp add: decrypt_with_def envelope_def rawurl_roundtrip length_seal)

lemma decrypt_only_envelopes:
  assumes "decrypt_with openf k s = Inr pt"
  shows "\<exists>nonce body. length nonce = nonceLen \<and> s = prefixV1 @ body
    \<and> rawurl_decode body = Some (nonce @ sealf k nonce pt)"
proof -
  from assms have "hasPrefix s prefixV1"
    by (auto simp: decrypt_with_def split: if_splits)
  then obtain body where s: "s = prefixV1 @ body" by (rule hasPrefixE)
  from assms obtain raw where raw: "rawurl_decode body = Some raw" and len: "\<not> length raw < nonceLen + 16"
      and op: "openf k (take nonceLen raw) (drop nonceLen raw) = Some pt"
    by (auto simp: decrypt_with_def s Let_def split: if_splits option.splits)
  have "drop nonceLen raw = sealf k (take nonceLen raw) pt" using op by (rule open_sound)
  then have "raw = take nonceLen raw @ sealf k (take nonceLen raw) pt"
    by (metis append_take_drop_id)
  moreover have "length (take nonceLen raw) = nonceLen" using len by simp
  ultimately show ?thesis using s raw by metis
qed

end

section \<open>Reading and writing at a path\<close>

lemma walk_set_same:
  "p \<noteq> [] \<Longrightarrow> walkValue (GMap m) p \<noteq> None \<Longrightarrow> walkValue (GMap (setValue m p v)) p = Some v"
proof (induction m p v rule: setValue.induct)
  case (3 m seg seg' segs v)
  then show ?case by (auto split: option.splits gval.splits)
qed (auto split: option.splits)

text \<open>A path that neither extends nor is extended by the written one keeps its value.\<close>

lemma walk_set_other:
  "\<not> prefix p q \<Longrightarrow> \<not> prefix q p \<Longrightarrow> walkValue (GMap (setValue m p v)) q = walkValue (GMap m) q"
proof (induction m p v arbitrary: q rule: setValue.induct)
  case (2 m seg v)
  then show ?case by (cases q) auto
next
  case (3 m seg seg' segs v)
  then show ?case by (cases q) (auto split: option.splits gval.splits)
qed simp

lemma walk_prefix_map:
  "walkValue v (p @ seg # r) = Some w \<Longrightarrow> \<exists>m. walkValue v p = Some (GMap m)"
proof (induction v p rule: walkValue.induct)
  case (1 cur)
  then show ?case by (cases cur) auto
next
  case (2 mp seg segs)
  then show ?case by (auto split: option.splits)
qed auto

lemma walk_other_leaf:
  assumes "walkValue v p = Some (GStr s)" and "walkValue v q = Some (GStr t)" and "p \<noteq> q"
  shows "\<not> prefix p q \<and> \<not> prefix q p"
proof -
  have "\<not> prefix a b" if "walkValue v a = Some (GStr x)" and "walkValue v b = Some (GStr y)" and "a \<noteq> b" for a b x y
  proof
    assume "prefix a b"
    with that(3) obtain c r where "b = a @ c # r" by (auto elim!: prefixE) (metis neq_Nil_conv)
    with walk_prefix_map [of v a c r] that(1,2) show False by simp
  qed
  with assms show ?thesis by blast
qed

text \<open>What the loop should leave at a leaf that was \<open>s\<close>.\<close>

definition opened :: "bytes \<Rightarrow> string \<Rightarrow> string" where
  "opened k s = (if IsEncrypted s then (case Decrypt k s of Inl e \<Rightarrow> s | Inr pt \<Rightarrow> pt) else s)"

text \<open>What one path does to the config.\<close>

definition field_step :: "bytes \<Rightarrow> string \<Rightarrow> (string \<times> gval) list \<Rightarrow> (string \<times> gval) list" where
  "field_step k path cfg =
     (if splitPath path = [] then cfg
      else case walkValue (GMap cfg) (splitPath path) of
        Some (GStr s) \<Rightarrow>
          (if IsEncrypted s
           then (case Decrypt k s of Inl e \<Rightarrow> cfg | Inr pt \<Rightarrow> setValue cfg (splitPath path) (GStr pt))
           else cfg)
      | _ \<Rightarrow> cfg)"

lemma not_encrypted_Nil [simp]: "\<not> IsEncrypted []"
  by (simp add: IsEncrypted_def)

lemma decrypt_loop_fst: "fst (decrypt_loop k paths cfg n failed) = fold (field_step k) paths cfg"
proof (induction k paths cfg n failed rule: decrypt_loop.induct)
  case (2 k path paths cfg n failed)
  then show ?case
    by (auto simp: Let_def field_step_def [of k path cfg]
        split: option.splits gval.splits if_splits sum.splits)
qed simp

lemma field_step_other:
  assumes "walkValue (GMap cfg) p = Some (GStr s)" and "splitPath path \<noteq> p"
  shows "walkValue (GMap (field_step k path cfg)) p = Some (GStr s)"
proof (cases "\<exists>t. walkValue (GMap cfg) (splitPath path) = Some (GStr t)")
  case True
  then obtain t where t: "walkValue (GMap cfg) (splitPath path) = Some (GStr t)" by blast
  from walk_set_other [of "splitPath path" p cfg] walk_other_leaf [OF t assms(1) assms(2)] assms(1)
  show ?thesis by (simp add: field_step_def t split: sum.split)
next
  case False
  then show ?thesis using assms(1) by (auto simp: field_step_def split: option.splits gval.splits)
qed

lemma field_step_same:
  assumes "walkValue (GMap cfg) (splitPath path) = Some (GStr s)"
  shows "walkValue (GMap (field_step k path cfg)) (splitPath path) = Some (GStr (opened k s))"
  using assms walk_set_same [of "splitPath path" cfg] by (auto simp: field_step_def opened_def split: sum.split)

lemma fold_step_other:
  "walkValue (GMap cfg) p = Some (GStr s) \<Longrightarrow> p \<notin> set (map splitPath paths) \<Longrightarrow>
   walkValue (GMap (fold (field_step k) paths cfg)) p = Some (GStr s)"
  by (induction paths arbitrary: cfg) (fastforce simp: field_step_other)+

lemma fold_step_leaf:
  assumes "walkValue (GMap cfg) p = Some (GStr s)" and "distinct (map splitPath paths)"
    and "p \<in> set (map splitPath paths)"
  shows "walkValue (GMap (fold (field_step k) paths cfg)) p = Some (GStr (opened k s))"
  using assms
proof (induction paths arbitrary: cfg)
  case (Cons path paths)
  show ?case
  proof (cases "splitPath path = p")
    case True
    with Cons.prems have "walkValue (GMap (field_step k path cfg)) p = Some (GStr (opened k s))"
      using field_step_same by blast
    then show ?thesis using Cons.prems(2) True by (simp add: fold_step_other)
  next
    case False
    then show ?thesis using Cons field_step_other [OF Cons.prems(1) False] by simp
  qed
qed simp

text \<open>Without the assumption that paths are declared once: a string is opened once for each declaration.\<close>

lemma fold_step_count:
  "walkValue (GMap cfg) p = Some (GStr s) \<Longrightarrow>
   walkValue (GMap (fold (field_step k) paths cfg)) p = Some (GStr ((opened k ^^ count_list (map splitPath paths) p) s))"
proof (induction paths arbitrary: cfg s)
  case (Cons path paths)
  show ?case
  proof (cases "splitPath path = p")
    case True
    with Cons.prems have "walkValue (GMap (field_step k path cfg)) p = Some (GStr (opened k s))"
      using field_step_same by blast
    from Cons.IH [OF this] show ?thesis using True by (simp add: funpow_swap1)
  next
    case False
    then show ?thesis using Cons.IH [OF field_step_other [OF Cons.prems False]] by simp
  qed
qed simp

lemma DecryptFields_fold: "fst (DecryptFields (Some cfg) fields k) = Some (fold (field_step k) fields cfg)"
  using decrypt_loop_fst [of k fields cfg 0 "[]"] by (auto simp: DecryptFields_def Let_def)

lemma DecryptFields_opened:
  assumes "walkValue (GMap cfg) p = Some (GStr s)" and "distinct (map splitPath fields)"
    and "DecryptFields (Some cfg) fields k = (Some cfg', n, failed)"
  shows "walkValue (GMap cfg') p = Some (GStr (if p \<in> set (map splitPath fields) then opened k s else s))"
proof -
  have cfg': "cfg' = fold (field_step k) fields cfg"
    using assms(3) decrypt_loop_fst [of k fields cfg 0 "[]"]
    by (auto simp: DecryptFields_def Let_def split: if_splits)
  show ?thesis
    using fold_step_leaf [OF assms(1,2), of k] fold_step_other [OF assms(1), of fields k]
    by (cases "p \<in> set (map splitPath fields)") (auto simp: cfg')
qed

section \<open>Properties\<close>

text \<open>
  C9: opening the envelope the control plane writes for a plaintext, under the same key, gives the
  plaintext back, and the envelope is recognised as encrypted.
\<close>

theorem Decrypt_roundtrip:
  assumes "length nonce = nonceLen" and "int (length pt) \<le> gcm_max"
  shows "Decrypt k (envelope seal_bytes k nonce pt) = Inr pt \<and> IsEncrypted (envelope seal_bytes k nonce pt)"
  using gcm.decrypt_envelope [OF assms]
  by (simp add: Decrypt_def IsEncrypted_def envelope_def prefixV1_def hasPrefix_def)

theorem Decrypt_roundtrip_witness:
  "Decrypt (replicate 32 CHR ''k'') (envelope seal_bytes (replicate 32 CHR ''k'') (replicate 12 CHR ''n'') ''sk_live'')
     = Inr ''sk_live''"
  using Decrypt_roundtrip [of "replicate 12 CHR ''n''" "''sk_live''"] by (simp add: nonceLen_def gcm_max_def)

text \<open>
  C23: only an envelope opens: when \<open>Decrypt\<close> returns a plaintext, the string is the version prefix and
  an encoding of some nonce followed by the sealing of exactly this plaintext under this key.
\<close>

theorem Decrypt_only_sealed:
  assumes "Decrypt k s = Inr pt"
  shows "\<exists>nonce body. length nonce = nonceLen \<and> s = prefixV1 @ body
    \<and> rawurl_decode body = Some (nonce @ seal_bytes k nonce pt)"
  using gcm.decrypt_only_envelopes assms by (simp add: Decrypt_def)

theorem Decrypt_only_sealed_witness:
  "\<exists>nonce body. length nonce = nonceLen
    \<and> envelope seal_bytes ''k'' (replicate 12 CHR ''n'') ''pw'' = prefixV1 @ body
    \<and> rawurl_decode body = Some (nonce @ seal_bytes ''k'' nonce ''pw'')"
  by (rule Decrypt_only_sealed)
    (simp add: Decrypt_def gcm.decrypt_envelope nonceLen_def gcm_max_def)

text \<open>
  After \<open>DecryptFields\<close> a string in the config reads as its plaintext when its path is declared
  secret, it carries the sentinel and it opens under the key, and as before in every other case; the
  declared paths are assumed to be different.
\<close>

theorem DecryptFields_leaf:
  assumes "walkValue (GMap cfg) p = Some (GStr s)" and "distinct (map splitPath fields)"
    and "DecryptFields (Some cfg) fields k = (Some cfg', n, failed)"
  shows "walkValue (GMap cfg') p = Some (GStr
    (if p \<in> set (map splitPath fields) \<and> IsEncrypted s
     then (case Decrypt k s of Inl e \<Rightarrow> s | Inr pt \<Rightarrow> pt) else s))"
  using DecryptFields_opened [OF assms] by (simp add: opened_def)

theorem DecryptFields_leaf_witness:
  "walkValue (GMap (the (fst (DecryptFields
      (Some [(''api'', GMap [(''key'', GStr ''plain'')])]) [''api.key''] ''k'')))) [''api'', ''key'']
   = Some (GStr ''plain'')"
proof -
  let ?cfg = "[(''api'', GMap [(''key'', GStr ''plain'')])]"
  let ?r = "decrypt_loop ''k'' [''api.key''] ?cfg 0 []"
  have "DecryptFields (Some ?cfg) [''api.key''] ''k'' = (Some (fst ?r), fst (snd ?r), snd (snd ?r))"
    by (simp add: DecryptFields_def Let_def del: decrypt_loop.simps)
  from DecryptFields_leaf [OF _ _ this, of "[''api'', ''key'']" "''plain''"]
  show ?thesis by (simp add: DecryptFields_def Let_def IsEncrypted_def hasPrefix_def del: decrypt_loop.simps)
qed

section \<open>Which cipher operations run\<close>

text \<open>The same function with the operations of the cipher it runs: key, nonce and text of each.\<close>

datatype aead_op = AeadSeal bytes bytes bytes | AeadOpen bytes bytes bytes

definition constantTimeDummyVerify :: "bytes \<Rightarrow> aead_op list" where
  "constantTimeDummyVerify k = [AeadSeal k (replicate nonceLen (CHR 0x00)) ''x'']"

definition Decrypt_traced :: "bytes \<Rightarrow> string \<Rightarrow> (sb_error, bytes) result \<times> aead_op list" where
  "Decrypt_traced k encoded =
     (if \<not> hasPrefix encoded prefixV1 then (Inl ErrInvalid, constantTimeDummyVerify k)
      else
        let body = drop (length prefixV1) encoded in
        case rawurl_decode body of
          None \<Rightarrow> (Inl ErrInvalid, constantTimeDummyVerify k)
        | Some raw \<Rightarrow>
            if length raw < nonceLen + 16 then (Inl ErrInvalid, constantTimeDummyVerify k)
            else
              (case open_bytes k (take nonceLen raw) (drop nonceLen raw) of
                 None \<Rightarrow> Inl ErrInvalid
               | Some pt \<Rightarrow> Inr pt,
               [AeadOpen k (take nonceLen raw) (drop nonceLen raw)]))"

text \<open>
  Whatever the text and whatever the outcome, \<open>Decrypt\<close> runs the cipher exactly once, so that the number
  of cipher calls does not tell why a text was refused; only texts that open were opened.
\<close>

theorem Decrypt_runs_cipher_once:
  "fst (Decrypt_traced k encoded) = Decrypt k encoded \<and> length (snd (Decrypt_traced k encoded)) = 1
   \<and> (\<forall>pt. Decrypt k encoded = Inr pt \<longrightarrow> (\<exists>nonce ct. snd (Decrypt_traced k encoded) = [AeadOpen k nonce ct]))"
  by (auto simp: Decrypt_traced_def Decrypt_def decrypt_with_def constantTimeDummyVerify_def Let_def split: option.split)

end
