(* ===== verification/Api_Keys.thy ===== *)
theory Api_Keys
  imports Database Secretbox
begin

text \<open>
  The glue with the registry of API keys (worker/apikeys.go): resolving a key id to its plaintext, and
  writing a tool's feedback on expiry and quota into the key's row by a statement whose \<open>SET\<close>
  list and arguments are assembled from the fields that are present. Shown: the statement writes
  exactly the reported fields of exactly the named row.
\<close>

section \<open>Resolving a key\<close>

definition sb_go_error :: "sb_error \<Rightarrow> go_error" where
  "sb_go_error e = (case e of
       ErrInvalid \<Rightarrow> ErrorText ''secretbox: ciphertext invalid or wrong key'' None
     | ErrNoKey t \<Rightarrow> ErrorText (''secretbox: RECON_SECRETS_KEY missing or malformed'' @ t) None)"

definition fetchAPIKeyValue ::
  "bool \<Rightarrow> bytes option \<Rightarrow> string \<Rightarrow> db \<times> fault list \<Rightarrow> (go_error, string) result \<times> db \<times> fault list" where
  "fetchAPIKeyValue has_pool key i st =
     (case key of
        None \<Rightarrow> (Inr [], st)
      | Some k \<Rightarrow>
          (if \<not> has_pool \<or> i = [] then (Inr [], st)
           else
             let q = pgquery (\<lambda>d. map_option ak_value (lookup ak_id (db_keys d) i)) st in
             (case fst q of
                Inl e \<Rightarrow> Inl e
              | Inr None \<Rightarrow> Inr []
              | Inr (Some enc) \<Rightarrow>
                  (if \<not> hasPrefix enc ''enc:v'' then Inr enc
                   else case Decrypt k enc of Inl e \<Rightarrow> Inl (sb_go_error e) | Inr pt \<Rightarrow> Inr pt),
              snd q)))"

section \<open>Feedback\<close>

datatype fb_arg = ArgText string | ArgTime time | ArgInt int

text \<open>
  One item of the \<open>SET\<close> list: \<open>NOW()\<close>, or a column with the number of the placeholder it takes.
\<close>

datatype set_clause = SeenNow | SetCol string nat

fun set_clause_text :: "set_clause \<Rightarrow> string" where
  "set_clause_text SeenNow = ''upstream_quota_seen_at = NOW()''"
| "set_clause_text (SetCol c n) = c @ '' = $'' @ dec_nat n"

definition feedback_sets :: "string \<Rightarrow> secretFeedback \<Rightarrow> set_clause list \<times> fb_arg list" where
  "feedback_sets i fb =
     (let sets = [SeenNow]; args = [ArgText i];
          (sets, args) = (case sf_ExpiresAt fb of
             None \<Rightarrow> (sets, args)
           | Some t \<Rightarrow> (sets @ [SetCol ''expires_at'' 2], args @ [ArgTime t]));
          (sets, args) = (case sf_QuotaRemaining fb of
             None \<Rightarrow> (sets, args)
           | Some n \<Rightarrow> (let args = args @ [ArgInt n] in
               (sets @ [SetCol ''upstream_quota_remaining'' (length args)], args)));
          (sets, args) = (case sf_QuotaLimit fb of
             None \<Rightarrow> (sets, args)
           | Some n \<Rightarrow> (let args = args @ [ArgInt n] in
               (sets @ [SetCol ''upstream_quota_limit'' (length args)], args)))
      in (sets, args))"

text \<open>
  The effect of an item on a row. A placeholder without an argument, a column that the row does
  not have and an argument of another type are errors of the statement.
\<close>

fun assign :: "time \<Rightarrow> fb_arg list \<Rightarrow> set_clause \<Rightarrow> key_row \<Rightarrow> key_row option" where
  "assign now args SeenNow r = Some (r\<lparr>ak_seen := Some now\<rparr>)"
| "assign now args (SetCol c n) r =
     (if n = 0 \<or> length args < n then None
      else case args ! (n - 1) of
        ArgTime t \<Rightarrow> if c = ''expires_at'' then Some (r\<lparr>ak_expires := Some t\<rparr>) else None
      | ArgInt k \<Rightarrow>
          (if c = ''upstream_quota_remaining'' then Some (r\<lparr>ak_quota_remaining := Some k\<rparr>)
           else if c = ''upstream_quota_limit'' then Some (r\<lparr>ak_quota_limit := Some k\<rparr>) else None)
      | ArgText _ \<Rightarrow> None)"

fun assign_all :: "time \<Rightarrow> fb_arg list \<Rightarrow> set_clause list \<Rightarrow> key_row \<Rightarrow> key_row option" where
  "assign_all now args [] r = Some r"
| "assign_all now args (s # ss) r =
     (case assign now args s r of None \<Rightarrow> None | Some r' \<Rightarrow> assign_all now args ss r')"

definition feedback_stmt :: "time \<Rightarrow> string \<Rightarrow> set_clause list \<Rightarrow> fb_arg list \<Rightarrow> db \<Rightarrow> db option" where
  "feedback_stmt now i sets args d =
     map_option (\<lambda>t. d\<lparr>db_keys := t\<rparr>)
       (those (map (\<lambda>r. if ak_id r = i then assign_all now args sets r else Some r) (db_keys d)))"

definition persistSecretFeedback ::
  "pg \<Rightarrow> bool \<Rightarrow> string \<Rightarrow> secretFeedback option \<Rightarrow> db \<times> fault list \<Rightarrow> go_error option \<times> db \<times> fault list" where
  "persistSecretFeedback env has_pool i fb st =
     (case fb of
        None \<Rightarrow> (None, st)
      | Some f \<Rightarrow>
          (if \<not> has_pool \<or> i = [] then (None, st)
           else let sa = feedback_sets i f in
             pgexec (feedback_stmt (pg_now env) i (fst sa) (snd sa)) st))"

section \<open>Properties\<close>

definition with_feedback :: "time \<Rightarrow> secretFeedback \<Rightarrow> key_row \<Rightarrow> key_row" where
  "with_feedback now fb r =
     r\<lparr>ak_seen := Some now,
       ak_expires := (case sf_ExpiresAt fb of None \<Rightarrow> ak_expires r | t \<Rightarrow> t),
       ak_quota_remaining := (case sf_QuotaRemaining fb of None \<Rightarrow> ak_quota_remaining r | n \<Rightarrow> n),
       ak_quota_limit := (case sf_QuotaLimit fb of None \<Rightarrow> ak_quota_limit r | n \<Rightarrow> n)\<rparr>"

lemma assign_all_feedback:
  "assign_all now (snd (feedback_sets i fb)) (fst (feedback_sets i fb)) r = Some (with_feedback now fb r)"
  by (cases "sf_ExpiresAt fb"; cases "sf_QuotaRemaining fb"; cases "sf_QuotaLimit fb")
    (simp_all add: feedback_sets_def with_feedback_def)

lemma those_map_Some: "those (map (\<lambda>x. Some (f x)) xs) = Some (map f xs)"
  by (induction xs) auto

text \<open>
  The assembled statement is never rejected for its placeholders, and it sets in the row of the
  named key the time of the report and every field that was reported; fields that were not reported and
  all other rows stay as they are.
\<close>

theorem persistSecretFeedback_effect:
  assumes "i \<noteq> []"
  shows "persistSecretFeedback env True i (Some fb) (d, []) =
    (None, d\<lparr>db_keys := map (\<lambda>r. if ak_id r = i then with_feedback (pg_now env) fb r else r) (db_keys d)\<rparr>, [])"
proof -
  have "(if ak_id r = i then assign_all (pg_now env) (snd (feedback_sets i fb)) (fst (feedback_sets i fb)) r else Some r)
      = Some (if ak_id r = i then with_feedback (pg_now env) fb r else r)" for r
    by (simp add: assign_all_feedback)
  then have "feedback_stmt (pg_now env) i (fst (feedback_sets i fb)) (snd (feedback_sets i fb)) d
      = Some (d\<lparr>db_keys := map (\<lambda>r. if ak_id r = i then with_feedback (pg_now env) fb r else r) (db_keys d)\<rparr>)"
    by (simp only: feedback_stmt_def those_map_Some option.map)
  then show ?thesis using assms by (simp add: persistSecretFeedback_def Let_def)
qed

theorem persistSecretFeedback_effect_witness:
  "fst (persistSecretFeedback \<lparr>pg_jsonb = (\<lambda>t. None), pg_digest = (\<lambda>_. []), pg_gen_id = (\<lambda>s k v. []),
      pg_first_seen = 0, pg_now = 7\<rparr> True ''k'' (Some \<lparr>sf_ExpiresAt = None, sf_QuotaRemaining = Some 3, sf_QuotaLimit = None\<rparr>)
      (empty_db, [])) = None"
  by (subst persistSecretFeedback_effect) simp_all

text \<open>
  Resolving a key never fails the job for a missing pool, cluster key, id or row: it returns the
  empty string; a stored value that is sealed is returned only when it opens, any other value as it is.
\<close>

lemma fetchAPIKeyValue_result:
  "fst (fetchAPIKeyValue has_pool key i (d, [])) =
     (if \<not> has_pool \<or> key = None \<or> i = [] then Inr []
      else case lookup ak_id (db_keys d) i of
        None \<Rightarrow> Inr []
      | Some r \<Rightarrow>
          (if hasPrefix (ak_value r) ''enc:v''
           then (case Decrypt (the key) (ak_value r) of Inl e \<Rightarrow> Inl (sb_go_error e) | Inr pt \<Rightarrow> Inr pt)
           else Inr (ak_value r)))"
  by (simp add: fetchAPIKeyValue_def Let_def split: option.split)

end
