(* ===== verification/Manifest.thy ===== *)
theory Manifest
  imports Tool
begin

text \<open>
  The worker manifest (worker/manifest.go): its structure, the identifier pattern, validation and
  loading. Reading the file and parsing YAML are parameters. Shown: the matcher accepts exactly the
  language of the pattern; validation accepts exactly the well-formed manifests, fills the default of
  \<open>default_enabled\<close>, and reports the first offending phase.
\<close>

section \<open>Structure\<close>

record consumeSpec =
  cs_Kinds :: "string list"
  cs_Filter :: string

record produceSpec =
  ps_Assets :: "string list"
  ps_FindingKinds :: "string list"

record uiTab =
  tb_Label :: string
  tb_Icon :: string
  tb_Badge :: string
  tb_AttrsPath :: string

record uiColumn =
  cl_Field :: string
  cl_Label :: string
  cl_Align :: string
  cl_Monospace :: bool
  cl_Mask :: bool
  cl_Link :: bool

record uiKVKey =
  kk_Field :: string
  kk_Label :: string
  kk_Hint :: string

record uiView =
  vw_Kind :: string
  vw_Title :: string
  vw_Columns :: "uiColumn list"
  vw_Sort :: "string list"
  vw_Filters :: "string list"
  vw_Keys :: "uiKVKey list"
  vw_Source :: string

record uiFederated =
  fe_RemoteEntry :: string
  fe_Scope :: string
  fe_Slots :: "(string \<times> string) list"

record uiSpec =
  ui_Tab :: "uiTab option"
  ui_Views :: "uiView list"
  ui_Federated :: "uiFederated option"

record phase =
  ph_Name :: string
  ph_Consumes :: consumeSpec
  ph_Produces :: produceSpec
  ph_ConcurrencyPerHost :: int
  ph_AvgDurationMS :: int
  ph_TimeoutSeconds :: int
  ph_PriorityHint :: int
  ph_UI :: "uiSpec option"

record externalListSpec =
  el_Name :: string
  el_DefaultURL :: string
  el_Description :: string
  el_RefreshIntervalSeconds :: int

record manifest =
  mf_Tool :: string
  mf_Version :: string
  mf_Maintainer :: string
  mf_Description :: string
  mf_DefaultEnabled :: "bool option"
  mf_Config :: gmap
  mf_Secrets :: "string list"
  mf_ExternalLists :: "externalListSpec list"
  mf_Readme :: string
  mf_Phases :: "phase list"

definition IsDefaultEnabled :: "manifest \<Rightarrow> bool" where
  "IsDefaultEnabled m = (case mf_DefaultEnabled m of None \<Rightarrow> True | Some b \<Rightarrow> b)"

section \<open>Identifiers\<close>

definition lower :: "char \<Rightarrow> bool" where
  "lower c \<longleftrightarrow> CHR ''a'' \<le> c \<and> c \<le> CHR ''z''"

definition alnum :: "char \<Rightarrow> bool" where
  "alnum c \<longleftrightarrow> lower c \<or> CHR ''0'' \<le> c \<and> c \<le> CHR ''9''"

definition name_sep :: "char \<Rightarrow> bool" where
  "name_sep c \<longleftrightarrow> c = CHR ''-'' \<or> c = CHR ''_''"

text \<open>
  The automaton of \<open>^[a-z][a-z0-9]*(?:[-_][a-z0-9]+)*$\<close> after its first letter: \<open>True\<close> where the
  name may end, \<open>False\<close> right after a separator.
\<close>

fun name_rest :: "bool \<Rightarrow> string \<Rightarrow> bool" where
  "name_rest ok [] = ok"
| "name_rest ok (c # s) =
     (if alnum c then name_rest True s else ok \<and> name_sep c \<and> name_rest False s)"

definition nameRe_MatchString :: "string \<Rightarrow> bool" where
  "nameRe_MatchString s = (case s of [] \<Rightarrow> False | c # r \<Rightarrow> lower c \<and> name_rest True r)"

section \<open>Validation\<close>

datatype manifest_error =
    ToolInvalid string
  | VersionRequired
  | PhasesRequired
  | PhaseNameInvalid nat string
  | PhaseNameDuplicated nat string
  | KindsRequired nat string
  | KindInvalid nat nat string
  | PriorityRange nat
  | TimeoutNegative nat

fun check_kinds :: "nat \<Rightarrow> nat \<Rightarrow> string list \<Rightarrow> manifest_error option" where
  "check_kinds i j [] = None"
| "check_kinds i j (k # ks) =
     (if \<not> nameRe_MatchString k then Some (KindInvalid i j k) else check_kinds i (Suc j) ks)"

fun check_phases :: "nat \<Rightarrow> string list \<Rightarrow> phase list \<Rightarrow> manifest_error option" where
  "check_phases i seen [] = None"
| "check_phases i seen (p # ps) =
     (if \<not> nameRe_MatchString (ph_Name p) then Some (PhaseNameInvalid i (ph_Name p))
      else if ph_Name p \<in> set seen then Some (PhaseNameDuplicated i (ph_Name p))
      else if cs_Kinds (ph_Consumes p) = [] then Some (KindsRequired i (ph_Name p))
      else case check_kinds i 0 (cs_Kinds (ph_Consumes p)) of
        Some e \<Rightarrow> Some e
      | None \<Rightarrow>
          (if ph_PriorityHint p < 0 \<or> ph_PriorityHint p > 9 then Some (PriorityRange i)
           else if ph_TimeoutSeconds p < 0 then Some (TimeoutNegative i)
           else check_phases (Suc i) (ph_Name p # seen) ps))"

text \<open>\<open>Validate\<close> fills in \<open>DefaultEnabled\<close> on its way; the updated manifest is returned with the error.\<close>

definition Validate :: "manifest \<Rightarrow> manifest_error option \<times> manifest" where
  "Validate m =
     (if \<not> nameRe_MatchString (mf_Tool m) then (Some (ToolInvalid (mf_Tool m)), m)
      else if mf_Version m = [] then (Some VersionRequired, m)
      else
        let m = (if mf_DefaultEnabled m = None then m\<lparr>mf_DefaultEnabled := Some True\<rparr> else m) in
        if mf_Phases m = [] then (Some PhasesRequired, m)
        else (check_phases 0 [] (mf_Phases m), m))"

datatype load_error = ReadError go_error | ParseError go_error | ValidateError manifest_error

definition LoadManifest ::
  "(string \<Rightarrow> (go_error, bytes) result) \<Rightarrow> (bytes \<Rightarrow> (go_error, manifest) result) \<Rightarrow> string
   \<Rightarrow> (load_error, manifest) result" where
  "LoadManifest readFile unmarshal path =
     (case readFile path of
        Inl e \<Rightarrow> Inl (ReadError e)
      | Inr raw \<Rightarrow>
          (case unmarshal raw of
             Inl e \<Rightarrow> Inl (ParseError e)
           | Inr m \<Rightarrow>
               (case Validate m of
                  (Some e, m') \<Rightarrow> Inl (ValidateError e)
                | (None, m') \<Rightarrow> Inr m')))"

definition phaseNames :: "manifest \<Rightarrow> string list" where
  "phaseNames m = map ph_Name (mf_Phases m)"

section \<open>The language of the pattern\<close>

definition name_lang :: "string \<Rightarrow> bool" where
  "name_lang s \<longleftrightarrow> (\<exists>c h ws. lower c \<and> list_all alnum h
     \<and> list_all (\<lambda>w. name_sep (fst w) \<and> snd w \<noteq> [] \<and> list_all alnum (snd w)) ws
     \<and> s = c # h @ concat (map (\<lambda>w. fst w # snd w) ws))"

lemma sep_not_alnum: "name_sep c \<Longrightarrow> \<not> alnum c"
  by (auto simp: name_sep_def alnum_def lower_def)

definition seps :: "(char \<times> string) list \<Rightarrow> bool" where
  "seps ws \<longleftrightarrow> list_all (\<lambda>w. name_sep (fst w) \<and> snd w \<noteq> [] \<and> list_all alnum (snd w)) ws"

definition flat :: "(char \<times> string) list \<Rightarrow> string" where
  "flat ws = concat (map (\<lambda>w. fst w # snd w) ws)"

lemma name_rest_alnums: "list_all alnum h \<Longrightarrow> name_rest ok (h @ r) = name_rest (ok \<or> h \<noteq> []) r"
  by (induction h arbitrary: ok) auto

lemma name_rest_flat: "seps ws \<Longrightarrow> name_rest True (flat ws)"
proof (induction ws)
  case (Cons w ws)
  then have "name_sep (fst w)" "snd w \<noteq> []" "list_all alnum (snd w)" "name_rest True (flat ws)"
    by (simp_all add: seps_def)
  then show ?case
    by (simp add: flat_def name_rest_alnums sep_not_alnum)
qed (simp add: flat_def)

lemma name_rest_split:
  "name_rest ok s \<Longrightarrow> \<exists>h ws. list_all alnum h \<and> seps ws \<and> s = h @ flat ws \<and> (ok \<or> h \<noteq> [])"
proof (induction ok s rule: name_rest.induct)
  case (1 ok)
  then have "list_all alnum [] \<and> seps [] \<and> [] = [] @ flat [] \<and> (ok \<or> [] \<noteq> [])"
    by (simp add: seps_def flat_def)
  then show ?case by blast
next
  case (2 ok c s)
  show ?case
  proof (cases "alnum c")
    case True
    with 2 obtain h ws where "list_all alnum h" "seps ws" "s = h @ flat ws" by auto
    with True have "list_all alnum (c # h) \<and> seps ws \<and> c # s = (c # h) @ flat ws \<and> (ok \<or> c # h \<noteq> [])"
      by simp
    then show ?thesis by blast
  next
    case False
    with 2 have sep: "ok" "name_sep c" by auto
    from 2 False obtain h ws where "list_all alnum h" "seps ws" "s = h @ flat ws" "h \<noteq> []" by auto
    with sep have "list_all alnum [] \<and> seps ((c, h) # ws) \<and> c # s = [] @ flat ((c, h) # ws) \<and> (ok \<or> [] \<noteq> [])"
      by (simp add: seps_def flat_def)
    then show ?thesis by blast
  qed
qed

section \<open>Well-formed manifests\<close>

definition phase_ok :: "phase \<Rightarrow> bool" where
  "phase_ok p \<longleftrightarrow> nameRe_MatchString (ph_Name p) \<and> cs_Kinds (ph_Consumes p) \<noteq> []
     \<and> list_all nameRe_MatchString (cs_Kinds (ph_Consumes p))
     \<and> 0 \<le> ph_PriorityHint p \<and> ph_PriorityHint p \<le> 9 \<and> 0 \<le> ph_TimeoutSeconds p"

lemma check_kinds_None: "check_kinds i j ks = None \<longleftrightarrow> list_all nameRe_MatchString ks"
  by (induction ks arbitrary: j) auto

lemma check_phases_None:
  "check_phases i seen ps = None \<longleftrightarrow>
     list_all phase_ok ps \<and> distinct (map ph_Name ps) \<and> set seen \<inter> ph_Name ` set ps = {}"
proof (induction ps arbitrary: i seen)
  case (Cons p ps)
  have "check_phases i seen (p # ps) = None \<longleftrightarrow>
      phase_ok p \<and> ph_Name p \<notin> set seen \<and> check_phases (Suc i) (ph_Name p # seen) ps = None"
    by (auto simp: phase_ok_def check_kinds_None split: option.splits)
      (metis check_kinds_None option.distinct(1))+
  then show ?case using Cons.IH [of "Suc i" "ph_Name p # seen"] by auto
qed simp

fun error_index :: "manifest_error \<Rightarrow> nat option" where
  "error_index (PhaseNameInvalid i _) = Some i"
| "error_index (PhaseNameDuplicated i _) = Some i"
| "error_index (KindsRequired i _) = Some i"
| "error_index (KindInvalid i _ _) = Some i"
| "error_index (PriorityRange i) = Some i"
| "error_index (TimeoutNegative i) = Some i"
| "error_index _ = None"

lemma check_kinds_index: "check_kinds i j ks = Some e \<Longrightarrow> error_index e = Some i"
  by (induction ks arbitrary: j) (auto split: if_splits)

lemma check_phases_index:
  "check_phases i seen ps = Some e \<Longrightarrow>
   \<exists>n < length ps. error_index e = Some (i + n) \<and> check_phases i seen (take n ps) = None
     \<and> check_phases i seen (take (Suc n) ps) \<noteq> None"
proof (induction ps arbitrary: i seen)
  case (Cons p ps)
  show ?case
  proof (cases "check_phases i seen [p]")
    case None
    then have step: "check_phases i seen (p # qs) = check_phases (Suc i) (ph_Name p # seen) qs" for qs
      by (auto split: if_splits option.splits)
    with Cons.prems have "check_phases (Suc i) (ph_Name p # seen) ps = Some e" by simp
    from Cons.IH [OF this] obtain n where "n < length ps" "error_index e = Some (Suc i + n)"
        "check_phases (Suc i) (ph_Name p # seen) (take n ps) = None"
        "check_phases (Suc i) (ph_Name p # seen) (take (Suc n) ps) \<noteq> None" by blast
    then show ?thesis using step by (intro exI [of _ "Suc n"]) simp
  next
    case (Some e')
    then have "check_phases i seen (p # ps) = Some e'" and "error_index e' = Some i"
      by (auto split: if_splits option.splits dest: check_kinds_index)
    with Cons.prems Some show ?thesis by (intro exI [of _ 0]) simp
  qed
qed simp

section \<open>Properties\<close>

text \<open>
  C21: the identifier check accepts exactly the words of its pattern: a lower-case letter, then
  letters and digits, then any number of groups of one separator and at least one letter or digit.
\<close>

theorem nameRe_exact: "nameRe_MatchString s \<longleftrightarrow> name_lang s"
proof
  assume "nameRe_MatchString s"
  then obtain c r where s: "s = c # r" and c: "lower c" and r: "name_rest True r"
    by (auto simp: nameRe_MatchString_def split: list.splits)
  from name_rest_split [OF r] obtain h ws where "list_all alnum h" "seps ws" "r = h @ flat ws" by blast
  with c s show "name_lang s" unfolding name_lang_def seps_def flat_def by blast
next
  assume "name_lang s"
  then obtain c h ws where c: "lower c" and h: "list_all alnum h" and ws: "seps ws"
      and s: "s = c # h @ flat ws"
    unfolding name_lang_def seps_def flat_def by blast
  show "nameRe_MatchString s"
    using c name_rest_flat [OF ws] by (simp add: s nameRe_MatchString_def name_rest_alnums [OF h])
qed

text \<open>
  C20: validation accepts a manifest exactly when its tool name and version are given, it has phases,
  their names differ, and each phase has a valid name, valid non-empty kinds, a priority hint from 0 to
  9 and a timeout that is not negative; the accepted manifest differs from the given one only in
  \<open>default_enabled\<close>, which is then explicit and keeps its effective value. (docs/MANIFEST.md asks for the
  kinds as well, while the comment on the field gives an empty list a meaning.)
\<close>

theorem Validate_accepts_iff:
  "(fst (Validate m) = None \<longleftrightarrow>
      nameRe_MatchString (mf_Tool m) \<and> mf_Version m \<noteq> [] \<and> mf_Phases m \<noteq> []
      \<and> list_all phase_ok (mf_Phases m) \<and> distinct (phaseNames m))
   \<and> (fst (Validate m) = None \<longrightarrow> snd (Validate m) = m\<lparr>mf_DefaultEnabled := Some (IsDefaultEnabled m)\<rparr>)"
  by (cases "mf_DefaultEnabled m")
    (auto simp: Validate_def Let_def check_phases_None phaseNames_def IsDefaultEnabled_def)

definition phase0 :: "string \<Rightarrow> phase" where
  "phase0 n = \<lparr>ph_Name = n, ph_Consumes = \<lparr>cs_Kinds = [''host''], cs_Filter = []\<rparr>,
     ph_Produces = \<lparr>ps_Assets = [], ps_FindingKinds = []\<rparr>, ph_ConcurrencyPerHost = 0, ph_AvgDurationMS = 0,
     ph_TimeoutSeconds = 0, ph_PriorityHint = 0, ph_UI = None\<rparr>"

definition manifest0 :: "phase list \<Rightarrow> manifest" where
  "manifest0 ps = \<lparr>mf_Tool = ''tm-x'', mf_Version = ''1'', mf_Maintainer = [], mf_Description = [],
     mf_DefaultEnabled = None, mf_Config = [], mf_Secrets = [], mf_ExternalLists = [], mf_Readme = [],
     mf_Phases = ps\<rparr>"

theorem Validate_accepts_iff_witness:
  "snd (Validate (manifest0 [phase0 ''a'', phase0 ''b''])) =
     (manifest0 [phase0 ''a'', phase0 ''b''])\<lparr>mf_DefaultEnabled := Some True\<rparr>"
proof -
  have "fst (Validate (manifest0 [phase0 ''a'', phase0 ''b''])) = None" by code_simp
  then show ?thesis
    using Validate_accepts_iff [of "manifest0 [phase0 ''a'', phase0 ''b'']"]
    by (simp add: IsDefaultEnabled_def manifest0_def)
qed

text \<open>
  When the phases are rejected the error names the first offending phase: the phases before it are
  accepted on their own, and with it they are not.
\<close>

theorem Validate_reports_first_phase:
  assumes "fst (Validate m) = Some e" and "error_index e = Some i"
  shows "i < length (mf_Phases m) \<and> check_phases 0 [] (take i (mf_Phases m)) = None
    \<and> check_phases 0 [] (take (Suc i) (mf_Phases m)) \<noteq> None"
proof -
  have "check_phases 0 [] (mf_Phases m) = Some e"
    using assms by (auto simp: Validate_def Let_def split: if_splits)
  from check_phases_index [OF this] show ?thesis using assms(2) by auto
qed

theorem Validate_reports_first_phase_witness:
  "check_phases 0 [] (take 1 [phase0 ''a'', phase0 ''a'']) = None
   \<and> check_phases 0 [] (take 2 [phase0 ''a'', phase0 ''a'']) \<noteq> None"
proof -
  have "fst (Validate (manifest0 [phase0 ''a'', phase0 ''a''])) = Some (PhaseNameDuplicated 1 ''a'')"
    by code_simp
  from Validate_reports_first_phase [OF this, of 1] show ?thesis by (simp add: manifest0_def)
qed

end
