(* ===== verification/Metrics.thy ===== *)
theory Metrics
  imports Tool
begin

text \<open>
  The Prometheus collectors of the SDK (sdk/metrics/metrics.go) and what the queue adapter does with them.
  The library is a parameter: whether it accepts the label values of a call. A call with the wrong
  number of values or with refused ones panics. The histogram of durations is represented by its
  observations, without the observed seconds.
\<close>

section \<open>Collectors\<close>

datatype collector = JobsTotal | JobDuration | AssetsEmitted | FindingsEmitted

fun metric_name :: "collector \<Rightarrow> string" where
  "metric_name JobsTotal = ''reconmesh_worker_jobs_total''"
| "metric_name JobDuration = ''reconmesh_worker_job_duration_seconds''"
| "metric_name AssetsEmitted = ''reconmesh_worker_assets_emitted_total''"
| "metric_name FindingsEmitted = ''reconmesh_worker_findings_emitted_total''"

fun label_names :: "collector \<Rightarrow> string list" where
  "label_names JobsTotal = [''tool'', ''phase'', ''outcome'']"
| "label_names JobDuration = [''tool'', ''phase'']"
| "label_names AssetsEmitted = [''tool'', ''phase'', ''kind'']"
| "label_names FindingsEmitted = [''tool'', ''phase'', ''severity'']"

definition registered :: "collector list" where
  "registered = [JobsTotal, JobDuration, AssetsEmitted, FindingsEmitted]"

text \<open>The label values the library accepts, and the increments and observations so far.\<close>

record metrics =
  mt_accepts :: "collector \<Rightarrow> string list \<Rightarrow> bool"
  mt_calls :: "(collector \<times> string list) list"

text \<open>\<open>WithLabelValues\<close> followed by \<open>Inc\<close> or \<open>Observe\<close>; \<open>False\<close> is a panic.\<close>

definition accepted :: "metrics \<Rightarrow> collector \<Rightarrow> string list \<Rightarrow> bool" where
  "accepted m c vals \<longleftrightarrow> length vals = length (label_names c) \<and> mt_accepts m c vals"

definition inc :: "collector \<Rightarrow> string list \<Rightarrow> metrics \<Rightarrow> bool \<times> metrics" where
  "inc c vals m = (if accepted m c vals then (True, m\<lparr>mt_calls := mt_calls m @ [(c, vals)]\<rparr>) else (False, m))"

fun inc_each :: "collector \<Rightarrow> string \<Rightarrow> string \<Rightarrow> string list \<Rightarrow> metrics \<Rightarrow> bool \<times> metrics" where
  "inc_each c tool phase [] m = (True, m)"
| "inc_each c tool phase (x # xs) m =
     (case inc c [tool, phase, x] m of
        (False, m) \<Rightarrow> (False, m)
      | (True, m) \<Rightarrow> inc_each c tool phase xs m)"

text \<open>The calls of \<open>Work\<close> after a successful run, up to the first that panics.\<close>

definition count_result :: "string \<Rightarrow> string \<Rightarrow> tool_result \<Rightarrow> metrics \<Rightarrow> bool \<times> metrics" where
  "count_result tool phase res m =
     (case inc JobsTotal [tool, phase, ''ok''] m of
        (False, m) \<Rightarrow> (False, m)
      | (True, m) \<Rightarrow>
          (case inc_each AssetsEmitted tool phase (map as_Kind (re_NewAssets res)) m of
             (False, m) \<Rightarrow> (False, m)
           | (True, m) \<Rightarrow> inc_each FindingsEmitted tool phase (map fi_Severity (re_Findings res)) m))"

section \<open>What the calls leave\<close>

lemma registered_distinct: "distinct (map metric_name registered) \<and> (\<forall>c. c \<in> set registered \<and> distinct (label_names c))"
proof -
  have "c \<in> set registered" for c by (cases c) (simp_all add: registered_def)
  moreover have "distinct (label_names c)" for c by (cases c) simp_all
  ultimately show ?thesis by (simp add: registered_def)
qed

text \<open>The number of increments of a collector, over all label values or over those of interest.\<close>

definition samples :: "metrics \<Rightarrow> (collector \<times> string list \<Rightarrow> bool) \<Rightarrow> nat" where
  "samples m P = length (filter P (mt_calls m))"

lemma accepted_calls [simp]: "accepted (m\<lparr>mt_calls := cs\<rparr>) = accepted m"
  by (simp add: accepted_def fun_eq_iff)

lemma inc_accepted: "inc c vals m = (ok, m') \<Longrightarrow> accepted m' = accepted m"
  by (auto simp: inc_def split: if_splits)

lemma inc_samples: "inc c vals m = (True, m') \<Longrightarrow> samples m' P = samples m P + (if P (c, vals) then 1 else 0)"
  by (auto simp: inc_def samples_def split: if_splits)

lemma inc_each_samples:
  "inc_each c tool phase xs m = (True, m') \<Longrightarrow>
   samples m' P = samples m P + length (filter (\<lambda>x. P (c, [tool, phase, x])) xs) \<and> accepted m' = accepted m"
proof (induction xs arbitrary: m)
  case (Cons x xs)
  obtain ok m1 where i: "inc c [tool, phase, x] m = (ok, m1)" by (rule prod.exhaust)
  with Cons.prems have ok by (cases ok) simp_all
  with i inc_samples [of c _ m m1 P] inc_accepted [OF i] Cons.IH [of m1] Cons.prems show ?case by simp
qed simp

lemma inc_each_ok: "list_all (\<lambda>x. accepted m c [tool, phase, x]) xs \<Longrightarrow> fst (inc_each c tool phase xs m)"
  by (induction xs arbitrary: m) (auto simp: inc_def)

lemma count_result_samples:
  assumes "count_result tool phase res m = (True, m')"
  shows "samples m' P = samples m P + (if P (JobsTotal, [tool, phase, ''ok'']) then 1 else 0)
    + length (filter (\<lambda>a. P (AssetsEmitted, [tool, phase, as_Kind a])) (re_NewAssets res))
    + length (filter (\<lambda>f. P (FindingsEmitted, [tool, phase, fi_Severity f])) (re_Findings res))"
proof -
  obtain m1 m2 where "inc JobsTotal [tool, phase, ''ok''] m = (True, m1)"
    "inc_each AssetsEmitted tool phase (map as_Kind (re_NewAssets res)) m1 = (True, m2)"
    "inc_each FindingsEmitted tool phase (map fi_Severity (re_Findings res)) m2 = (True, m')"
    using assms by (auto simp: count_result_def split: prod.splits bool.splits)
  from inc_samples [OF this(1)] inc_each_samples [OF this(2)] inc_each_samples [OF this(3)]
  show ?thesis by (simp add: filter_map o_def)
qed

text \<open>The labels of every call that a run with this result makes are accepted.\<close>

definition result_labels_ok :: "metrics \<Rightarrow> string \<Rightarrow> string \<Rightarrow> tool_result \<Rightarrow> bool" where
  "result_labels_ok m tool phase res \<longleftrightarrow> accepted m JobsTotal [tool, phase, ''ok'']
     \<and> (\<forall>a \<in> set (re_NewAssets res). accepted m AssetsEmitted [tool, phase, as_Kind a])
     \<and> (\<forall>f \<in> set (re_Findings res). accepted m FindingsEmitted [tool, phase, fi_Severity f])"

lemma count_result_ok:
  assumes "result_labels_ok m tool phase res"
  shows "fst (count_result tool phase res m)"
proof -
  define m1 where "m1 = m\<lparr>mt_calls := mt_calls m @ [(JobsTotal, [tool, phase, ''ok''])]\<rparr>"
  have m1: "inc JobsTotal [tool, phase, ''ok''] m = (True, m1)" "accepted m1 = accepted m"
    using assms by (simp_all add: result_labels_ok_def inc_def m1_def)
  obtain ok m2 where m2: "inc_each AssetsEmitted tool phase (map as_Kind (re_NewAssets res)) m1 = (ok, m2)" by (rule prod.exhaust)
  have ok: ok using inc_each_ok [of m1 AssetsEmitted tool phase "map as_Kind (re_NewAssets res)"] m2 assms m1(2)
    by (simp add: result_labels_ok_def list_all_iff)
  with m2 have "accepted m2 = accepted m" using inc_each_samples [of AssetsEmitted tool phase _ m1 m2] m1(2) by simp
  then have "fst (inc_each FindingsEmitted tool phase (map fi_Severity (re_Findings res)) m2)"
    using assms by (intro inc_each_ok) (simp add: result_labels_ok_def list_all_iff)
  with m1 m2 ok show ?thesis by (simp add: count_result_def)
qed

lemma count_result_findings:
  assumes "\<forall>f \<in> set (re_Findings res) \<union> set fs. accepted m FindingsEmitted [tool, phase, fi_Severity f]"
  shows "fst (count_result tool phase (res\<lparr>re_Findings := fs, re_Stats := st\<rparr>) m) = fst (count_result tool phase res m)"
proof -
  obtain ok1 m1 where m1: "inc JobsTotal [tool, phase, ''ok''] m = (ok1, m1)" by (rule prod.exhaust)
  obtain ok2 m2 where m2: "inc_each AssetsEmitted tool phase (map as_Kind (re_NewAssets res)) m1 = (ok2, m2)" by (rule prod.exhaust)
  have "fst (inc_each FindingsEmitted tool phase (map fi_Severity gs) m2)" if ok2 "set gs \<subseteq> set (re_Findings res) \<union> set fs" for gs
  proof (rule inc_each_ok)
    have "accepted m2 = accepted m" using that(1) m2 inc_each_samples [of AssetsEmitted tool phase _ m1 m2] inc_accepted [OF m1] by simp
    with assms that(2) show "list_all (\<lambda>x. accepted m2 FindingsEmitted [tool, phase, x]) (map fi_Severity gs)"
      by (auto simp: list_all_iff)
  qed
  then show ?thesis using m1 m2 by (simp add: count_result_def split: bool.split)
qed

end
