(* ===== verification/River_Adapter.thy ===== *)
theory River_Adapter
  imports Asset_Writer Health Api_Keys Manifest Metrics
begin

text \<open>
  The bridge from the job queue to a tool (worker/river_adapter.go): one job from dispatch to
  acknowledgement, the persistence of a result, and the queues and the worker a manifest registers. The
  tool's \<open>Run\<close>, \<open>uuid.Parse\<close> and the queue client are parameters; spans and log
  lines are left out, and error texts are abbreviated where they quote values. Shown: how every outcome
  of a run is answered, that a failed run writes nothing, that a retried persist converges, which
  fields of a result are never stored, which jobs a registered worker accepts, and that the exported
  metrics and the health counters count the same runs.
\<close>

section \<open>Jobs\<close>

record river_job =
  rj_ID :: int
  rj_Args :: cascadeArgs
  rj_Priority :: int

text \<open>
  What the adapter uses of the runtime: whether it has a pool, and the cached cluster key. Of the tool a
  worker holds the name here; its \<open>Run\<close> is an argument of \<open>Work\<close>.
\<close>

record rt_view =
  rt_pool :: bool
  rt_secretsKey :: "bytes option"

record cascadeWorker =
  cw_tool :: string
  cw_rt :: "rt_view option"
  cw_phase :: string

type_synonym tool_run = "job \<Rightarrow> (go_error, tool_result) result"

text \<open>
  The answer to the queue: \<open>nil\<close>, an error (the queue retries), \<open>river.JobCancel\<close> (it does not), or
  a panic of the adapter.
\<close>

datatype work_outcome = Acked | Nacked go_error | Cancelled go_error | Panicked

record work_state =
  ws_db :: "db \<times> fault list"
  ws_counters :: health_counters
  ws_reports :: "(healthReport \<times> string) list"
  ws_metrics :: metrics

text \<open>A call into the metrics library, which may panic, and what follows it.\<close>

definition with_metrics ::
  "(metrics \<Rightarrow> bool \<times> metrics) \<Rightarrow> (work_state \<Rightarrow> work_outcome \<times> work_state) \<Rightarrow> work_state
   \<Rightarrow> work_outcome \<times> work_state" where
  "with_metrics call rest s =
     (case call (ws_metrics s) of
        (True, m) \<Rightarrow> rest (s\<lparr>ws_metrics := m\<rparr>)
      | (False, m) \<Rightarrow> (Panicked, s\<lparr>ws_metrics := m\<rparr>))"

definition persist_merge ::
  "pg \<Rightarrow> cascadeArgs \<Rightarrow> tool_result \<Rightarrow> db \<times> fault list \<Rightarrow> go_error option \<times> db \<times> fault list" where
  "persist_merge env args res st =
     (if (case re_AssetUpdate res of None \<Rightarrow> False | Some m \<Rightarrow> m \<noteq> [])
      then MergeUpdate env (ca_AssetID args) (re_AssetUpdate res) st else (None, st))"

definition persist_assets ::
  "pg \<Rightarrow> (string \<Rightarrow> uuid option) \<Rightarrow> cascadeArgs \<Rightarrow> tool_result \<Rightarrow> db \<times> fault list
   \<Rightarrow> (go_error option \<times> db \<times> fault list) option" where
  "persist_assets env parse args res st =
     (if re_NewAssets res \<noteq> [] then
        map_option (\<lambda>r. (map_option (errorf_w (''upsert batch ('' @ dec_nat (length (re_NewAssets res)) @ '' assets)''))
            (fst r), snd r))
          (UpsertAssetsBatch env parse (ca_ScopeID args) (Some (ca_AssetID args)) (re_NewAssets res) st)
      else Some (None, st))"

definition persist ::
  "pg \<Rightarrow> (string \<Rightarrow> uuid option) \<Rightarrow> cascadeArgs \<Rightarrow> tool_result \<Rightarrow> db \<times> fault list
   \<Rightarrow> (go_error option \<times> db \<times> fault list) option" where
  "persist env parse args res st =
     (case persist_merge env args res st of
        (Some e, st') \<Rightarrow> Some (Some (errorf_w ''merge update'' e), st')
      | (None, st') \<Rightarrow> persist_assets env parse args res st')"

definition build_job :: "river_job \<Rightarrow> asset \<Rightarrow> time option \<Rightarrow> job" where
  "build_job j a deadline =
     \<lparr>jb_ID = rj_ID j, jb_RunID = ca_RunID (rj_Args j), jb_ScopeID = ca_ScopeID (rj_Args j),
      jb_Phase = ca_Phase (rj_Args j), jb_Asset = a, jb_Priority = rj_Priority j,
      jb_Deadline = (case deadline of None \<Rightarrow> 0 | Some t \<Rightarrow> t), jb_TraceID = [],
      jb_ForceFresh = ca_ForceFresh (rj_Args j), jb_APIKey = [], jb_APIKeyID = []\<rparr>"

text \<open>The job with the key of the pool entry named by the arguments, when it resolves.\<close>

definition resolve_key ::
  "cascadeWorker \<Rightarrow> cascadeArgs \<Rightarrow> job \<Rightarrow> db \<times> fault list \<Rightarrow> job \<times> db \<times> fault list" where
  "resolve_key w args jb st =
     (case (ca_APIKeyID args, cw_rt w) of
        (Some i, Some rt) \<Rightarrow>
          (if rt_pool rt then
             (case fetchAPIKeyValue True (rt_secretsKey rt) i st of
                (Inr v, st') \<Rightarrow> (if v \<noteq> [] then jb\<lparr>jb_APIKey := v, jb_APIKeyID := i\<rparr> else jb, st')
              | (Inl e, st') \<Rightarrow> (jb, st'))
           else (jb, st))
      | _ \<Rightarrow> (jb, st))"

definition record_outcome ::
  "cascadeWorker \<Rightarrow> go_error option \<Rightarrow> string \<Rightarrow> work_state \<Rightarrow> work_state" where
  "record_outcome w err key s =
     (case cw_rt w of
        None \<Rightarrow> s
      | Some rt \<Rightarrow>
          (let r = recordRunOutcome err key (ws_counters s) in
           s\<lparr>ws_counters := fst r,
             ws_reports := ws_reports s @ (case snd r of None \<Rightarrow> [] | Some x \<Rightarrow> [x])\<rparr>))"

definition store_result ::
  "pg \<Rightarrow> (string \<Rightarrow> uuid option) \<Rightarrow> cascadeWorker \<Rightarrow> cascadeArgs \<Rightarrow> job \<Rightarrow> tool_result \<Rightarrow> work_state
   \<Rightarrow> work_outcome \<times> work_state" where
  "store_result env parse w args jb res s =
     (case persist env parse args res (ws_db s) of
        None \<Rightarrow> (Panicked, s)
      | Some (Some e, st) \<Rightarrow> (Nacked (errorf_w ''persist result'' e), s\<lparr>ws_db := st\<rparr>)
      | Some (None, st) \<Rightarrow>
          (if re_SecretFeedback res \<noteq> None \<and> jb_APIKeyID jb \<noteq> [] \<and> (\<exists>rt. cw_rt w = Some rt \<and> rt_pool rt)
           then (Acked, s\<lparr>ws_db := snd (persistSecretFeedback env True (jb_APIKeyID jb) (re_SecretFeedback res) st)\<rparr>)
           else (Acked, s\<lparr>ws_db := st\<rparr>)))"

definition Work ::
  "pg \<Rightarrow> (string \<Rightarrow> uuid option) \<Rightarrow> tool_run \<Rightarrow> cascadeWorker \<Rightarrow> time option \<Rightarrow> river_job \<Rightarrow> work_state
   \<Rightarrow> work_outcome \<times> work_state" where
  "Work env parse run w deadline j s =
     (if cw_phase w \<noteq> [] \<and> ca_Phase (rj_Args j) \<noteq> cw_phase w
      then (Nacked (ErrorText ''phase mismatch'' None), s)
      else
        case FetchAsset (ca_AssetID (rj_Args j)) (ws_db s) of
          (Inl e, st) \<Rightarrow> (Nacked (errorf_w ''fetch asset'' e), s\<lparr>ws_db := st\<rparr>)
        | (Inr None, st) \<Rightarrow> (Acked, s\<lparr>ws_db := st\<rparr>)
        | (Inr (Some a), st) \<Rightarrow>
            (let jk = resolve_key w (rj_Args j) (build_job j a deadline) st;
                 jb = fst jk;
                 tool = cw_tool w;
                 phase = ca_Phase (rj_Args j)
             in with_metrics (inc JobDuration [tool, phase])
                  (\<lambda>s. case run jb of
                     Inl e \<Rightarrow>
                       with_metrics (inc JobsTotal [tool, phase, ''error''])
                         (\<lambda>s. (if IsFatal (Some e) then Cancelled e else Nacked e, s))
                         (record_outcome w (Some e) (jb_APIKeyID jb) s)
                   | Inr res \<Rightarrow>
                       with_metrics (count_result tool phase res)
                         (store_result env parse w (rj_Args j) jb res)
                         (record_outcome w None (jb_APIKeyID jb) s))
                  (s\<lparr>ws_db := snd jk\<rparr>)))"

section \<open>Registration\<close>

definition queueParallelism :: "phase \<Rightarrow> int" where
  "queueParallelism p = (if ph_ConcurrencyPerHost p > 0 then ph_ConcurrencyPerHost p else 8)"

definition consumer_queues :: "manifest \<Rightarrow> (string \<times> int) list" where
  "consumer_queues m = fold (\<lambda>p q. map_put q (ph_Name p) (queueParallelism p)) (mf_Phases m) []"

definition consumer_worker :: "string \<Rightarrow> rt_view option \<Rightarrow> manifest \<Rightarrow> cascadeWorker option" where
  "consumer_worker tool rt m =
     (case mf_Phases m of
        [] \<Rightarrow> None
      | [p] \<Rightarrow> Some \<lparr>cw_tool = tool, cw_rt = rt, cw_phase = ph_Name p\<rparr>
      | _ \<Rightarrow> Some \<lparr>cw_tool = tool, cw_rt = rt, cw_phase = []\<rparr>)"

text \<open>\<open>newClient\<close> and \<open>start\<close> stand for the queue client; each may fail.\<close>

definition startConsumer ::
  "((string \<times> int) list \<Rightarrow> cascadeWorker option \<Rightarrow> (go_error, 'c) result) \<Rightarrow> ('c \<Rightarrow> go_error option)
   \<Rightarrow> string \<Rightarrow> rt_view option \<Rightarrow> manifest \<Rightarrow> (go_error, 'c) result" where
  "startConsumer newClient start tool rt m =
     (case newClient (consumer_queues m) (consumer_worker tool rt m) of
        Inl e \<Rightarrow> Inl (errorf_w ''river client'' e)
      | Inr rc \<Rightarrow>
          (case start rc of
             Some e \<Rightarrow> Inl (errorf_w ''river start'' e)
           | None \<Rightarrow> Inr rc))"

section \<open>The batch never panics\<close>

lemma upsertChunk_total:
  assumes "length as \<le> 500"
  shows "\<exists>r. upsertChunk env parse scope parent as st = Some r"
proof -
  obtain r where "chunk_loop parse scope parent 0 [] [] as = Some r"
    using chunk_loop_result [of 0 as parse scope parent "[]" "[]"] assms by auto
  then show ?thesis
    by (cases r) (simp_all add: upsertChunk_def del: split_paired_Ex split: prod.split)
qed

lemma batch_loop_total: "\<exists>r. batch_loop env parse scope parent as st = Some r"
proof (induction env parse scope parent as st rule: batch_loop.induct)
  case (1 env parse scope parent as st)
  obtain r where "upsertChunk env parse scope parent (take 500 as) st = Some r"
    using upsertChunk_total [of "take 500 as" env parse scope parent st] by (auto simp del: split_paired_Ex)
  moreover obtain e st' where "r = (e, st')" by (rule prod.exhaust)
  ultimately show ?case
    using 1 by (subst batch_loop.simps) (cases e; simp del: split_paired_Ex)
qed

lemma UpsertAssetsBatch_total: "\<exists>r. UpsertAssetsBatch env parse scope parent as st = Some r"
  using batch_loop_total [of env parse scope parent as st]
  by (simp add: UpsertAssetsBatch_def del: split_paired_Ex)

lemma persist_total: "\<exists>r. persist env parse args res st = Some r"
proof -
  obtain e st' where m: "persist_merge env args res st = (e, st')" by (rule prod.exhaust)
  obtain r where "UpsertAssetsBatch env parse (ca_ScopeID args) (Some (ca_AssetID args)) (re_NewAssets res) st' = Some r"
    using UpsertAssetsBatch_total by blast
  then show ?thesis by (cases e) (simp_all add: persist_def m persist_assets_def del: split_paired_Ex)
qed

section \<open>Merging twice\<close>

lemma map_put_same: "map_of m k = Some v \<Longrightarrow> map_put m k v = m"
  by (induction m) (auto split: if_splits)

lemma concat_absorb:
  "\<forall>(k, v) \<in> set j. map_of a k = Some v \<Longrightarrow> jsonb_concat a j = a"
  by (induction j) (auto simp: jsonb_concat_def map_put_same)

lemma concat_twice: "go_map j \<Longrightarrow> jsonb_concat (jsonb_concat a j) j = jsonb_concat a j"
  by (rule concat_absorb) (auto simp: map_of_concat go_map_in_iff map_add_Some_iff)

lemma update_where_twice:
  assumes "\<And>r. p r \<Longrightarrow> p (f r)" and "\<And>r. p r \<Longrightarrow> f (f r) = f r"
  shows "update_where p f (update_where p f t) = update_where p f t"
  using assms by (simp add: update_where_def)

lemma MergeUpdate_twice:
  assumes "MergeUpdate env i delta (d, []) = (None, d1, [])" and "\<And>t j. pg_jsonb env t = Some j \<Longrightarrow> go_map j"
  shows "MergeUpdate env i delta (d1, []) = (None, d1, [])"
proof (cases "delta = None \<or> delta = Some []")
  case True
  then show ?thesis using assms(1) by (auto simp: MergeUpdate_def)
next
  case False
  then obtain m where m: "delta = Some m" "m \<noteq> []" by auto
  obtain t where t: "marshal (GMap m) = Some t"
    using assms(1) m by (auto simp: MergeUpdate_def simp del: marshal.simps split: option.splits)
  obtain j where j: "pg_jsonb env t = Some j"
    using assms(1) m t by (auto simp: MergeUpdate_def simp del: marshal.simps split: option.splits if_splits)
  have d1: "d1 = d\<lparr>db_assets := update_where (\<lambda>r. ar_id r = i)
      (\<lambda>r. r\<lparr>ar_attrs := jsonb_concat (ar_attrs r) j, ar_last_seen := pg_now env,
         ar_fingerprint := Some (pg_digest env (jsonb_concat (ar_attrs r) j))\<rparr>) (db_assets d)\<rparr>"
    using assms(1) m t j by (simp add: MergeUpdate_def del: marshal.simps)
  show ?thesis
    using m t j assms(2) [OF j]
    by (simp add: MergeUpdate_def d1 update_where_twice concat_twice del: marshal.simps)
qed

section \<open>What a successful batch stores\<close>

lemma those_set: "those (map f xs) = Some ys \<Longrightarrow> x \<in> set xs \<Longrightarrow> \<exists>y \<in> set ys. f x = Some y"
  by (induction xs arbitrary: ys) (auto split: option.splits)

lemma upsert_stmt_keys:
  assumes "upsert_stmt env (map (asset_args parse scope parent) as) d = Some d'"
  shows "asset_key ` set (db_assets d) \<subseteq> asset_key ` set (db_assets d')
    \<and> (\<forall>a \<in> set as. (scope, as_Kind a, as_Value a) \<in> asset_key ` set (db_assets d'))"
proof -
  obtain rows t where rows: "those (map (new_row env) (map (asset_args parse scope parent) as)) = Some rows"
      and t: "upsert_assets env rows (db_assets d) = Some t" and d': "d' = d\<lparr>db_assets := t\<rparr>"
    using assms by (auto simp: upsert_stmt_def split: option.splits)
  have "(scope, as_Kind a, as_Value a) \<in> asset_key ` set rows" if "a \<in> set as" for a
  proof -
    have "asset_args parse scope parent a \<in> set (map (asset_args parse scope parent) as)" using that by simp
    from those_set [OF rows this] obtain r where "r \<in> set rows"
        and "new_row env (asset_args parse scope parent a) = Some r" by blast
    then show ?thesis by (force simp: asset_args_def asset_key_def)
  qed
  then show ?thesis using assets_tbl.keys_insert [OF t] by (auto simp: d')
qed

lemma upsertChunk_keys:
  assumes "upsertChunk env parse scope parent as (d, fs) = Some (None, d', fs')" and "length as \<le> 500"
  shows "asset_key ` set (db_assets d) \<subseteq> asset_key ` set (db_assets d')
    \<and> (\<forall>a \<in> set as. (scope, as_Kind a, as_Value a) \<in> asset_key ` set (db_assets d'))"
proof -
  from assms(1) obtain vs args where c: "chunk_loop parse scope parent 0 [] [] as = Some (Inr (vs, args))"
    by (auto simp: upsertChunk_def split: option.splits sum.splits)
  have args: "args = map (asset_args parse scope parent) as"
    using chunk_loop_result [of 0 as parse scope parent "[]" "[]"] c assms(2) by auto
  have "upsert_stmt env args d = Some d'"
    using assms(1) c by (intro pgexec_ok [of _ _ fs _ fs']) (simp add: upsertChunk_def)
  then show ?thesis using upsert_stmt_keys by (simp add: args)
qed

lemma batch_loop_keys:
  "batch_loop env parse scope parent as (d, fs) = Some (None, d', fs') \<Longrightarrow>
   asset_key ` set (db_assets d) \<subseteq> asset_key ` set (db_assets d')
    \<and> (\<forall>a \<in> set as. (scope, as_Kind a, as_Value a) \<in> asset_key ` set (db_assets d'))"
proof (induction "length as" arbitrary: as d fs rule: less_induct)
  case less
  show ?case
  proof (cases "as = []")
    case True
    with less.prems show ?thesis by (simp add: batch_loop.simps)
  next
    case False
    then obtain d1 fs1 where c: "upsertChunk env parse scope parent (take 500 as) (d, fs) = Some (None, d1, fs1)"
        and rest: "batch_loop env parse scope parent (drop 500 as) (d1, fs1) = Some (None, d', fs')"
      using less.prems by (subst (asm) batch_loop.simps) (auto split: option.splits)
    have len: "length (drop 500 as) < length as" "length (take 500 as) \<le> 500"
      using False by simp_all
    note first = upsertChunk_keys [OF c len(2)] and later = less.hyps [OF len(1) rest]
    have "(scope, as_Kind a, as_Value a) \<in> asset_key ` set (db_assets d')" if "a \<in> set as" for a
    proof -
      have "a \<in> set (take 500 as) \<or> a \<in> set (drop 500 as)"
        using that append_take_drop_id [of 500 as] by (metis Un_iff set_append)
      then show ?thesis using first later by (meson subsetD)
    qed
    moreover have "asset_key ` set (db_assets d) \<subseteq> asset_key ` set (db_assets d')"
      using first later by (meson order_trans)
    ultimately show ?thesis by blast
  qed
qed

lemma persist_keys:
  assumes "persist env parse args res (d, fs) = Some (None, d', fs')"
  shows "\<forall>a \<in> set (re_NewAssets res). (ca_ScopeID args, as_Kind a, as_Value a) \<in> asset_key ` set (db_assets d')"
proof -
  obtain e d1 fs1 where m: "persist_merge env args res (d, fs) = (e, d1, fs1)" by (rule prod_cases3)
  with assms have "e = None" by (cases e) (simp_all add: persist_def)
  with m assms have a: "persist_assets env parse args res (d1, fs1) = Some (None, d', fs')"
    by (simp add: persist_def)
  show ?thesis
  proof (cases "re_NewAssets res = []")
    case False
    with a have "batch_loop env parse (ca_ScopeID args) (Some (ca_AssetID args)) (re_NewAssets res) (d1, fs1)
        = Some (None, d', fs')"
      by (auto simp: persist_assets_def UpsertAssetsBatch_def)
    from batch_loop_keys [OF this] show ?thesis by blast
  qed simp
qed

section \<open>Reads leave the database alone\<close>

lemma pgquery_db [simp]: "fst (snd (pgquery q st)) = fst st"
  by (auto simp: pgquery_def split: list.splits option.splits prod.splits)

lemma FetchAsset_db [simp]: "fst (snd (FetchAsset i st)) = fst st"
  by (simp add: FetchAsset_def)

lemma fetchAPIKeyValue_db [simp]: "fst (snd (fetchAPIKeyValue p k i st)) = fst st"
  by (simp add: fetchAPIKeyValue_def Let_def split: option.split)

lemma resolve_key_db [simp]: "fst (snd (resolve_key w args jb st)) = fst st"
proof -
  have "fst (snd (resolve_key w args jb st)) = fst (snd (case fetchAPIKeyValue True k i st of
      (Inr v, st') \<Rightarrow> (if v \<noteq> [] then jb\<lparr>jb_APIKey := v, jb_APIKeyID := i\<rparr> else jb, st')
    | (Inl e, st') \<Rightarrow> (jb, st')))" if "ca_APIKeyID args = Some i" "cw_rt w = Some rt" "rt_pool rt" "rt_secretsKey rt = k" for i rt k
    using that by (simp add: resolve_key_def)
  moreover have "fst (snd (case x of
      (Inr v, st') \<Rightarrow> (if v \<noteq> [] then jb\<lparr>jb_APIKey := v, jb_APIKeyID := i\<rparr> else jb, st')
    | (Inl e, st') \<Rightarrow> (jb, st'))) = fst (snd x)" for x :: "(go_error, string) result \<times> db \<times> fault list" and i
    by (auto split: prod.splits sum.splits)
  ultimately show ?thesis
    by (cases "ca_APIKeyID args"; cases "cw_rt w") (auto simp: resolve_key_def)
qed

lemma record_outcome_db [simp]: "ws_db (record_outcome w err k s) = ws_db s"
  by (simp add: record_outcome_def Let_def split: option.split)

lemma record_outcome_metrics [simp]: "ws_metrics (record_outcome w err k s) = ws_metrics s"
  by (simp add: record_outcome_def Let_def split: option.split)

lemma feedback_assets: "db_assets (fst (snd (persistSecretFeedback env p i fb (d, fs)))) = db_assets d"
proof -
  obtain r d' fs' where e: "persistSecretFeedback env p i fb (d, fs) = (r, d', fs')" by (rule prod_cases3)
  then have "d' = d \<or> (\<exists>now sets args. feedback_stmt now i sets args d = Some d')"
    by (auto simp: persistSecretFeedback_def Let_def split: option.splits if_splits dest!: pgexec_cases)
  then show ?thesis by (auto simp: e feedback_stmt_def)
qed

section \<open>Properties\<close>

lemma Work_run_error_db:
  assumes "\<And>jb. run jb = Inl e"
  shows "fst (ws_db (snd (Work env parse run w deadline j s))) = fst (ws_db s)"
proof -
  obtain r d fs where f: "FetchAsset (ca_AssetID (rj_Args j)) (ws_db s) = (r, d, fs)" by (rule prod_cases3)
  then have "d = fst (ws_db s)" using FetchAsset_db [of "ca_AssetID (rj_Args j)" "ws_db s"] by simp
  then show ?thesis
    using assms by (auto simp: Work_def f Let_def with_metrics_def split: sum.split option.split prod.split bool.split)
qed

text \<open>The library accepts the labels of a failed run, the tool's name and the job's phase.\<close>

definition error_labels_ok :: "metrics \<Rightarrow> cascadeWorker \<Rightarrow> river_job \<Rightarrow> bool" where
  "error_labels_ok m w j \<longleftrightarrow> accepted m JobDuration [cw_tool w, ca_Phase (rj_Args j)]
     \<and> accepted m JobsTotal [cw_tool w, ca_Phase (rj_Args j), ''error'']"

text \<open>
  A run that returns an error writes nothing: whatever faults the connection has and whichever
  answer the queue gets, the database is the one before the job; and only a label that the metrics
  library refuses makes handling it panic.
\<close>

theorem failed_run_writes_nothing:
  assumes "\<And>jb. run jb = Inl e"
  shows "fst (ws_db (snd (Work env parse run w deadline j s))) = fst (ws_db s)
    \<and> (fst (Work env parse run w deadline j s) = Panicked \<longrightarrow> \<not> error_labels_ok (ws_metrics s) w j)"
proof
  show "fst (ws_db (snd (Work env parse run w deadline j s))) = fst (ws_db s)"
    using assms by (rule Work_run_error_db)
  show "fst (Work env parse run w deadline j s) = Panicked \<longrightarrow> \<not> error_labels_ok (ws_metrics s) w j"
    using assms by (auto simp: Work_def Let_def with_metrics_def inc_def error_labels_ok_def split: prod.split sum.split option.split)
qed

definition args0 :: cascadeArgs where
  "args0 = \<lparr>ca_ScopeID = ''s'', ca_AssetID = ''a'', ca_Phase = ''p'', ca_RunID = ''r'', ca_EventType = [],
     ca_ForceFresh = False, ca_APIKeyID = None\<rparr>"

definition job0 :: river_job where
  "job0 = \<lparr>rj_ID = 1, rj_Args = args0, rj_Priority = 1\<rparr>"

definition row0 :: asset_row where
  "row0 = \<lparr>ar_id = ''a'', ar_scope = ''s'', ar_kind = ''host'', ar_value = ''h'', ar_parent = None, ar_attrs = [],
     ar_fingerprint = None, ar_state = ''discovered'', ar_last_seen = 0\<rparr>"

definition state0 :: work_state where
  "state0 = \<lparr>ws_db = (empty_db\<lparr>db_assets := [row0]\<rparr>, []),
     ws_counters = \<lparr>hc_totalRuns = 0, hc_consecutiveFailures = 0\<rparr>, ws_reports = [],
     ws_metrics = \<lparr>mt_accepts = (\<lambda>_ _. True), mt_calls = []\<rparr>\<rparr>"

definition worker0 :: cascadeWorker where
  "worker0 = \<lparr>cw_tool = ''t'', cw_rt = None, cw_phase = ''p''\<rparr>"

theorem failed_run_writes_nothing_witness:
  "fst (ws_db (snd (Work pg0 (\<lambda>_. None) (\<lambda>_. Inl FatalErr) worker0 None job0 state0))) = fst (ws_db state0)"
  using failed_run_writes_nothing [of "\<lambda>_. Inl FatalErr" FatalErr] by simp

text \<open>
  C25: how the error of a run is answered, for a job that reaches the tool: it is cancelled when the
  error itself is marked fatal and handed back for a retry otherwise; in particular a fatal error that
  is wrapped is retried, and so is a health error.
\<close>

theorem Work_answers_errors:
  assumes "ws_db s = (d, [])" and "cw_phase w = [] \<or> ca_Phase (rj_Args j) = cw_phase w"
    and "lookup ar_id (db_assets d) (ca_AssetID (rj_Args j)) \<noteq> None" and "\<And>jb. run jb = Inl e" and "error_labels_ok (ws_metrics s) w j"
  shows "fst (Work env parse run w deadline j s) = (if IsFatal (Some e) then Cancelled e else Nacked e)
    \<and> \<not> IsFatal (Some (errorf_w p FatalErr)) \<and> \<not> IsFatal (Some (HealthError c msg))"
  using assms by (auto simp: Work_def FetchAsset_def Let_def errorf_w_def with_metrics_def inc_def error_labels_ok_def)

theorem Work_answers_errors_witness:
  "fst (Work pg0 (\<lambda>_. None) (\<lambda>_. Inl (errorf_w ''bad input'' FatalErr)) worker0 None job0 state0)
     = Nacked (errorf_w ''bad input'' FatalErr)
   \<and> fst (Work pg0 (\<lambda>_. None) (\<lambda>_. Inl FatalErr) worker0 None job0 state0) = Cancelled FatalErr"
  using Work_answers_errors [of state0 "fst (ws_db state0)" worker0 job0 "\<lambda>_. Inl (errorf_w ''bad input'' FatalErr)"]
    Work_answers_errors [of state0 "fst (ws_db state0)" worker0 job0 "\<lambda>_. Inl FatalErr" FatalErr]
  by (simp add: state0_def worker0_def job0_def args0_def row0_def lookup_def errorf_w_def error_labels_ok_def accepted_def)

text \<open>What a job leaves besides the metrics.\<close>

definition stored :: "work_outcome \<times> work_state \<Rightarrow> work_outcome \<times> (db \<times> fault list) \<times> health_counters \<times> (healthReport \<times> string) list" where
  "stored r = (fst r, ws_db (snd r), ws_counters (snd r), ws_reports (snd r))"

lemma store_result_metrics:
  "store_result env parse w args jb res (s\<lparr>ws_metrics := m\<rparr>) =
     (fst (store_result env parse w args jb res s), (snd (store_result env parse w args jb res s))\<lparr>ws_metrics := m\<rparr>)"
  by (auto simp: store_result_def split: option.split prod.split)

lemma store_result_findings:
  "store_result env parse w args jb (res\<lparr>re_Findings := f, re_Stats := g\<rparr>) = store_result env parse w args jb res"
proof -
  let ?res = "res\<lparr>re_Findings := f, re_Stats := g\<rparr>"
  have m: "persist_merge env args ?res = persist_merge env args res"
    by (simp add: persist_merge_def fun_eq_iff)
  have a: "persist_assets env parse args ?res = persist_assets env parse args res"
    by (simp add: persist_assets_def fun_eq_iff)
  have fb: "re_SecretFeedback ?res = re_SecretFeedback res" by simp
  show ?thesis unfolding fun_eq_iff store_result_def persist_def m a fb by simp
qed

lemma stored_with_metrics:
  assumes "fst (f (ws_metrics s)) = fst (g (ws_metrics s))"
  shows "stored (with_metrics f (store_result env parse w args jb res) s) = stored (with_metrics g (store_result env parse w args jb res) s)"
  using assms by (auto simp: with_metrics_def stored_def store_result_metrics split: prod.splits bool.splits)

text \<open>
  The findings and the statistics of a result are never stored: a run that reports others, or none,
  leads to the same answer and the same state but for the metrics, as long as the severities are labels that
  the metrics library accepts.
\<close>

theorem findings_not_stored:
  assumes "\<And>jb res f. run jb = Inr res \<Longrightarrow> f \<in> set (re_Findings res) \<union> set (fs jb) \<Longrightarrow>
      accepted (ws_metrics s) FindingsEmitted [cw_tool w, ca_Phase (rj_Args j), fi_Severity f]"
  shows "stored (Work env parse (\<lambda>jb. case run jb of Inl e \<Rightarrow> Inl e
       | Inr res \<Rightarrow> Inr (res\<lparr>re_Findings := fs jb, re_Stats := st jb\<rparr>)) w deadline j s)
   = stored (Work env parse run w deadline j s)"
proof -
  let ?tool = "cw_tool w"
  have ran: "stored (with_metrics (count_result ?tool phase (res\<lparr>re_Findings := fs jb, re_Stats := st jb\<rparr>)) (store_result env parse w args jb res) s1)
      = stored (with_metrics (count_result ?tool phase res) (store_result env parse w args jb res) s1)"
    if "run jb = Inr res" "accepted (ws_metrics s1) = accepted (ws_metrics s)" "phase = ca_Phase (rj_Args j)" for jb res s1 args phase
    by (rule stored_with_metrics, rule count_result_findings) (use assms [OF that(1)] that(2,3) in simp)
  have out: "stored (with_metrics (inc c v) f s1) = stored (with_metrics (inc c v) g s1)"
    if "\<And>s2. accepted (ws_metrics s2) = accepted (ws_metrics s1) \<Longrightarrow> stored (f s2) = stored (g s2)" for c v f g s1
    using that by (auto simp: with_metrics_def inc_def split: prod.splits bool.splits)
  show ?thesis
    unfolding Work_def Let_def
    by (auto intro!: out simp: ran store_result_findings split: sum.split prod.split option.split)
qed

text \<open>
  C2: a job that is acknowledged after its run has stored the run's new assets: each of them has a row
  under the job's scope with the kind and the value as the tool gave them, whatever happened on the connection.
  (docs/ASSETS.md says that the asset writer brings the value into a canonical form before the insert; no code does.)
\<close>

theorem acked_assets_stored:
  assumes "Work env parse run w deadline j s = (Acked, s')" and "\<And>jb. run jb = Inr res"
    and "lookup ar_id (db_assets (fst (ws_db s))) (ca_AssetID (rj_Args j)) \<noteq> None"
    and "a \<in> set (re_NewAssets res)"
  shows "(ca_ScopeID (rj_Args j), as_Kind a, as_Value a) \<in> asset_key ` set (db_assets (fst (ws_db s')))"
proof -
  obtain r d fs where f: "FetchAsset (ca_AssetID (rj_Args j)) (ws_db s) = (r, d, fs)" by (rule prod_cases3)
  have "r \<noteq> Inr None"
    using f assms(3) by (auto simp: FetchAsset_def pgquery_def split: list.splits option.splits)
  with assms(1,2) f obtain jb s1 where st: "store_result env parse w (rj_Args j) jb res s1 = (Acked, s')"
    by (auto simp: Work_def Let_def with_metrics_def split: sum.splits option.splits if_splits prod.splits bool.splits)
  obtain d1 fs1 where s1: "ws_db s1 = (d1, fs1)" by (rule prod.exhaust)
  from st obtain d2 fs2 where p: "persist env parse (rj_Args j) res (d1, fs1) = Some (None, d2, fs2)"
      and s': "s' = s1\<lparr>ws_db := snd (persistSecretFeedback env True (jb_APIKeyID jb) (re_SecretFeedback res) (d2, fs2))\<rparr>
        \<or> s' = s1\<lparr>ws_db := (d2, fs2)\<rparr>"
    by (auto simp: store_result_def s1 split: option.splits if_splits)
  have "db_assets (fst (ws_db s')) = db_assets d2"
    using s' feedback_assets [of env True "jb_APIKeyID jb" "re_SecretFeedback res" d2 fs2] by auto
  with persist_keys [OF p] assms(4) show ?thesis by simp
qed

definition result0 :: "asset list \<Rightarrow> tool_result" where
  "result0 as = \<lparr>re_NewAssets = as, re_Findings = [], re_AssetUpdate = None, re_Stats = None, re_SecretFeedback = None\<rparr>"

theorem acked_assets_stored_witness:
  "(''s'', ''host'', ''x'') \<in> asset_key ` set (db_assets (fst (ws_db
      (snd (Work pg0 (\<lambda>_. None) (\<lambda>_. Inr (result0 [asset0 ''x''])) worker0 None job0 state0)))))"
proof -
  let ?W = "Work pg0 (\<lambda>_. None) (\<lambda>_. Inr (result0 [asset0 ''x''])) worker0 None job0 state0"
  have ok: "\<forall>a \<in> set [asset0 ''x'']. asset_ok pg0 a" by (simp add: asset0_ok)
  have "upsert_assets pg0 (map (asset_new pg0 (\<lambda>_. None) ''s'' (Some ''a'')) [asset0 ''x'']) [row0] \<noteq> None"
    by (simp add: insert_on_conflict_Cons1)
  then have "fst ?W = Acked"
    using upsertChunk_ok [OF ok, of "\<lambda>_. None" "''s''" "Some ''a''" "empty_db\<lparr>db_assets := [row0]\<rparr>"]
    by (auto simp: Work_def FetchAsset_def Let_def state0_def worker0_def job0_def args0_def row0_def lookup_def
        result0_def store_result_def persist_def persist_merge_def persist_assets_def UpsertAssetsBatch_def
        resolve_key_def record_outcome_def with_metrics_def count_result_def inc_def accepted_def
        batch_loop.simps [of _ _ _ _ "[asset0 ''x'']"] batch_loop.simps [of _ _ _ _ "[]"])
  then have W: "?W = (Acked, snd ?W)" by (metis prod.collapse)
  have "(ca_ScopeID (rj_Args job0), as_Kind (asset0 ''x''), as_Value (asset0 ''x''))
      \<in> asset_key ` set (db_assets (fst (ws_db (snd ?W))))"
    by (rule acked_assets_stored [OF W, of "result0 [asset0 ''x'']"])
      (simp_all add: state0_def job0_def args0_def row0_def lookup_def result0_def)
  then show ?thesis by (simp add: job0_def args0_def asset0_def)
qed

section \<open>Retrying\<close>

lemma pgexec_answered: "pgexec stmt (d, None # fs) =
    (fst (pgexec stmt (d, [])), fst (snd (pgexec stmt (d, []))), fs)"
  by (auto simp: pgexec_def Let_def)

lemma pgexec_lost: "pgexec stmt (d, Some (e, False) # fs) = (Some e, d, fs)"
  by (simp add: pgexec_def Let_def)

lemma MergeUpdate_answered:
  assumes "m \<noteq> []" and "MergeUpdate env i (Some m) (d, []) = (r, dm, [])"
  shows "\<exists>fs'. MergeUpdate env i (Some m) (d, None # fs) = (r, dm, fs') \<and> (r = None \<longrightarrow> fs' = fs)"
  using assms
  by (auto simp: MergeUpdate_def pgexec_answered simp del: marshal.simps pgexec_no_fault split: option.splits)

lemma MergeUpdate_failed:
  "MergeUpdate env i delta (d, []) = (Some e, st) \<Longrightarrow> st = (d, [])"
  by (auto simp: MergeUpdate_def simp del: marshal.simps split: option.splits if_splits)

lemma MergeUpdate_faults: "snd (snd (MergeUpdate env i delta (d, []))) = []"
  by (auto simp: MergeUpdate_def simp del: marshal.simps split: option.splits)

lemma upsertChunk_lost:
  "upsertChunk env parse scope parent as (d, [Some (e, False)]) = Some (r, st') \<Longrightarrow> r \<noteq> None \<and> fst st' = d"
  by (auto simp: upsertChunk_def pgexec_lost split: option.splits sum.splits)

lemma persist_assets_lost:
  assumes "persist_assets env parse args res (d, [Some (e, False)]) = Some (r, st')"
  shows "fst st' = d"
proof (cases "re_NewAssets res = []")
  case False
  obtain c st where c: "upsertChunk env parse (ca_ScopeID args) (Some (ca_AssetID args)) (take 500 (re_NewAssets res))
      (d, [Some (e, False)]) = Some (c, st)"
    using upsertChunk_total [of "take 500 (re_NewAssets res)"] by fastforce
  from upsertChunk_lost [OF this] obtain x where "c = Some x" and d: "fst st = d" by auto
  with c False have "UpsertAssetsBatch env parse (ca_ScopeID args) (Some (ca_AssetID args)) (re_NewAssets res)
      (d, [Some (e, False)]) = Some (Some x, st)"
    by (simp add: UpsertAssetsBatch_def batch_loop.simps)
  then show ?thesis using assms False d by (auto simp: persist_assets_def)
qed (use assms in \<open>auto simp: persist_assets_def\<close>)

text \<open>
  C11: when the connection is lost between the two phases of storing a result, so that the update of the
  consumed asset took effect and the new assets did not, running the whole step again leaves the
  database that an undisturbed run leaves.
\<close>

theorem persist_retry_converges:
  assumes "re_AssetUpdate res = Some m" and "m \<noteq> []"
    and "\<And>t j. pg_jsonb env t = Some j \<Longrightarrow> go_map j"
    and "persist env parse args res (d, [None, Some (e, False)]) = Some (r, d1, fs)"
  shows "persist env parse args res (d1, []) = persist env parse args res (d, [])"
proof -
  let ?M = "MergeUpdate env (ca_AssetID args) (Some m)"
  have merge: "persist_merge env args res st = ?M st" for st
    using assms(1,2) by (simp add: persist_merge_def)
  obtain e0 dm where M0: "?M (d, []) = (e0, dm, [])"
    using MergeUpdate_faults [of env "ca_AssetID args" "Some m" d] by (metis prod.collapse)
  obtain fs' where M1: "?M (d, [None, Some (e, False)]) = (e0, dm, fs')" and fs': "e0 = None \<longrightarrow> fs' = [Some (e, False)]"
    using MergeUpdate_answered [OF assms(2) M0] by blast
  show ?thesis
  proof (cases e0)
    case (Some x)
    then have "dm = d" using MergeUpdate_failed M0 by blast
    then have "d1 = d" using assms(4) M1 Some by (simp add: persist_def merge)
    then show ?thesis by simp
  next
    case None
    with M1 fs' have "persist_assets env parse args res (dm, [Some (e, False)]) = Some (r, d1, fs)"
      using assms(4) by (simp add: persist_def merge)
    from persist_assets_lost [OF this] have "d1 = dm" by simp
    moreover have "?M (dm, []) = (None, dm, [])"
      using MergeUpdate_twice [OF _ assms(3)] M0 None by simp
    ultimately show ?thesis using M0 None by (simp add: persist_def merge)
  qed
qed

theorem persist_retry_converges_witness:
  "\<exists>r d1 fs. persist pg0 (\<lambda>_. None) args0 ((result0 [asset0 ''x''])\<lparr>re_AssetUpdate := Some [(''ip'', GStr ''i'')]\<rparr>)
      (empty_db\<lparr>db_assets := [row0]\<rparr>, [None, Some (TransientErr, False)]) = Some (r, d1, fs)
    \<and> persist pg0 (\<lambda>_. None) args0 ((result0 [asset0 ''x''])\<lparr>re_AssetUpdate := Some [(''ip'', GStr ''i'')]\<rparr>) (d1, [])
      = persist pg0 (\<lambda>_. None) args0 ((result0 [asset0 ''x''])\<lparr>re_AssetUpdate := Some [(''ip'', GStr ''i'')]\<rparr>)
          (empty_db\<lparr>db_assets := [row0]\<rparr>, [])"
proof -
  let ?res = "(result0 [asset0 ''x''])\<lparr>re_AssetUpdate := Some [(''ip'', GStr ''i'')]\<rparr>"
  obtain r d1 fs where p: "persist pg0 (\<lambda>_. None) args0 ?res
      (empty_db\<lparr>db_assets := [row0]\<rparr>, [None, Some (TransientErr, False)]) = Some (r, d1, fs)"
    using persist_total [of pg0 "\<lambda>_. None" args0 ?res] by fastforce
  from persist_retry_converges [OF _ _ _ p] show ?thesis using p by (force simp: pg0_def)
qed

section \<open>Registered queues\<close>

lemma queues_fold:
  "distinct (map ph_Name ps) \<Longrightarrow>
   map_of (fold (\<lambda>p q. map_put q (ph_Name p) (queueParallelism p)) ps q0) n =
     (case find (\<lambda>p. ph_Name p = n) ps of None \<Rightarrow> map_of q0 n | Some p \<Rightarrow> Some (queueParallelism p))"
proof (induction ps arbitrary: q0)
  case (Cons p ps)
  have "find (\<lambda>x. ph_Name x = n) ps = None" if "ph_Name p = n"
    using Cons.prems that by (simp add: find_None_iff image_iff) metis
  with Cons show ?case by (auto split: option.split)
qed simp

text \<open>
  The worker that a validated manifest registers accepts the jobs of every phase of the manifest,
  each phase has a queue of its own with at least one slot, and a worker with a single phase hands
  back a job of any other phase before touching the database.
\<close>

lemma registered_phases_accepted:
  assumes "fst (Validate m) = None" and "p \<in> set (mf_Phases m)"
  shows "\<exists>w. consumer_worker tool rt m = Some w \<and> (cw_phase w = [] \<or> cw_phase w = ph_Name p)
    \<and> map_of (consumer_queues m) (ph_Name p) = Some (queueParallelism p) \<and> 1 \<le> queueParallelism p
    \<and> (length (mf_Phases m) = 1 \<longrightarrow> ca_Phase (rj_Args j) \<noteq> ph_Name p \<longrightarrow>
         Work env parse run w deadline j s = (Nacked (ErrorText ''phase mismatch'' None), s))"
proof -
  have dist: "distinct (map ph_Name (mf_Phases m))" and ok: "list_all phase_ok (mf_Phases m)"
    using assms(1) by (auto simp: Validate_def Let_def check_phases_None split: if_splits)
  have name: "ph_Name p \<noteq> []"
    using ok assms(2) by (auto simp: list_all_iff phase_ok_def nameRe_MatchString_def)
  have "find (\<lambda>x. ph_Name x = ph_Name p) (mf_Phases m) = Some p"
  proof -
    obtain q where q: "find (\<lambda>x. ph_Name x = ph_Name p) (mf_Phases m) = Some q"
      using assms(2) by (cases "find (\<lambda>x. ph_Name x = ph_Name p) (mf_Phases m)") (auto simp: find_None_iff)
    then have "q \<in> set (mf_Phases m)" and "ph_Name q = ph_Name p" by (auto simp: find_Some_iff)
    with dist assms(2) have "q = p" by (auto simp: distinct_map inj_on_def)
    with q show ?thesis by simp
  qed
  then have queue: "map_of (consumer_queues m) (ph_Name p) = Some (queueParallelism p)"
    by (simp add: consumer_queues_def queues_fold [OF dist])
  have pos: "1 \<le> queueParallelism p" by (simp add: queueParallelism_def)
  show ?thesis
  proof (cases "mf_Phases m" rule: remdups_adj.cases)
    case 1
    then show ?thesis using assms(2) by simp
  next
    case (2 x)
    then have "x = p" using assms(2) by simp
    with 2 queue pos name show ?thesis by (simp add: consumer_worker_def Work_def)
  next
    case (3 x y xs)
    with queue pos show ?thesis by (simp add: consumer_worker_def)
  qed
qed

text \<open>
  C40: handling a job always ends with an answer to the queue: the loop over the chunks of a batch
  terminates, and the digits of its placeholders never overrun the buffer they are written to. Only a
  label that the metrics library refuses, such as the kind of an asset, makes handling a job panic.
\<close>

theorem Work_never_panics:
  assumes "error_labels_ok (ws_metrics s) w j"
    and "\<And>jb res. run jb = Inr res \<Longrightarrow> result_labels_ok (ws_metrics s) (cw_tool w) (ca_Phase (rj_Args j)) res"
  shows "fst (Work env parse run w deadline j s) \<noteq> Panicked"
proof -
  have stores: "fst (store_result env parse w args jb res s) \<noteq> Panicked" for args jb res s
    using persist_total [of env parse args res "ws_db s"]
    by (auto simp: store_result_def simp del: split_paired_Ex split: option.split)
  have ok: "result_labels_ok (m\<lparr>mt_calls := c\<rparr>) t p res = result_labels_ok m t p res" for m c t p res
    by (simp add: result_labels_ok_def)
  have "fst (with_metrics (inc JobDuration [cw_tool w, ca_Phase (rj_Args j)]) rest s1) \<noteq> Panicked"
    if "ws_metrics s1 = ws_metrics s" "\<And>s2 c. ws_metrics s2 = (ws_metrics s)\<lparr>mt_calls := c\<rparr> \<Longrightarrow> fst (rest s2) \<noteq> Panicked" for rest s1
    using that(2) [of "s1\<lparr>ws_metrics := _\<rparr>"] that(1) assms(1) by (simp add: with_metrics_def inc_def error_labels_ok_def)
  moreover have "fst (with_metrics (inc JobsTotal [cw_tool w, ca_Phase (rj_Args j), ''error'']) (\<lambda>s. (if b then Cancelled e else Nacked e, s)) s1)
      \<noteq> Panicked" if "ws_metrics s1 = (ws_metrics s)\<lparr>mt_calls := c\<rparr>" for b e s1 c
    using assms(1) that by (simp add: with_metrics_def inc_def error_labels_ok_def)
  moreover have "fst (with_metrics (count_result (cw_tool w) (ca_Phase (rj_Args j)) res) (store_result env parse w args jb res) s1) \<noteq> Panicked"
    if "run jb = Inr res" "ws_metrics s1 = (ws_metrics s)\<lparr>mt_calls := c\<rparr>" for jb res s1 c args
    using count_result_ok [of "ws_metrics s1" "cw_tool w" "ca_Phase (rj_Args j)" res] assms(2) [OF that(1)] that(2) stores
    by (auto simp: with_metrics_def ok split: prod.splits bool.splits)
  ultimately show ?thesis
    by (auto simp: Work_def Let_def split: prod.split sum.split option.split)
qed

theorem Work_never_panics_witness:
  "fst (Work pg0 (\<lambda>_. None) (\<lambda>_. Inr (result0 [asset0 ''x''])) worker0 None job0 state0) \<noteq> Panicked"
  by (rule Work_never_panics) (simp_all add: error_labels_ok_def result_labels_ok_def accepted_def state0_def)

section \<open>Metrics and health counters\<close>

abbreviation of_collector :: "collector \<Rightarrow> collector \<times> string list \<Rightarrow> bool" where
  "of_collector c \<equiv> \<lambda>call. fst call = c"

text \<open>Between two states one run was counted, or none: by the health counter, the counter of jobs and the histogram alike.\<close>

definition counted :: "nat \<Rightarrow> work_state \<Rightarrow> work_state \<Rightarrow> bool" where
  "counted n s s' \<longleftrightarrow> hc_totalRuns (ws_counters s') = hc_totalRuns (ws_counters s) + of_nat n
     \<and> samples (ws_metrics s') (of_collector JobsTotal) = samples (ws_metrics s) (of_collector JobsTotal) + n
     \<and> samples (ws_metrics s') (of_collector JobDuration) = samples (ws_metrics s) (of_collector JobDuration) + n"

lemma counted_same: "ws_counters s' = ws_counters s \<Longrightarrow> ws_metrics s' = ws_metrics s \<Longrightarrow> counted 0 s s'"
  by (simp add: counted_def)

lemma counted_trans: "counted a s s' \<Longrightarrow> counted b s' s'' \<Longrightarrow> counted (a + b) s s''"
  by (simp add: counted_def)

lemma with_metricsE:
  assumes "with_metrics call rest s = (out, s')" and "out \<noteq> Panicked"
  obtains m where "call (ws_metrics s) = (True, m)" and "rest (s\<lparr>ws_metrics := m\<rparr>) = (out, s')"
  using assms by (auto simp: with_metrics_def split: prod.splits bool.splits)

lemma store_result_counters:
  "ws_counters (snd (store_result env parse w args jb res s)) = ws_counters s
   \<and> ws_metrics (snd (store_result env parse w args jb res s)) = ws_metrics s"
  by (auto simp: store_result_def split: option.split prod.split)

lemma record_outcome_runs: "cw_rt w \<noteq> None \<Longrightarrow> hc_totalRuns (ws_counters (record_outcome w err k s)) = hc_totalRuns (ws_counters s) + 1"
  by (auto simp: record_outcome_def recordRunOutcome_def Let_def split: option.split)

lemma Work_counts:
  assumes "Work env parse run w deadline j s = (out, s')" and "out \<noteq> Panicked" and "cw_rt w \<noteq> None"
  shows "\<exists>n. counted n s s'"
proof -
  let ?t = "cw_tool w" and ?p = "ca_Phase (rj_Args j)"
  have ran: "counted 1 s s'"
    if "with_metrics (inc JobDuration [?t, ?p])
          (\<lambda>s. case run jb of
             Inl e \<Rightarrow> with_metrics (inc JobsTotal [?t, ?p, ''error'']) (\<lambda>s. (if IsFatal (Some e) then Cancelled e else Nacked e, s))
               (record_outcome w (Some e) (jb_APIKeyID jb) s)
           | Inr res \<Rightarrow> with_metrics (count_result ?t ?p res) (store_result env parse w (rj_Args j) jb res)
               (record_outcome w None (jb_APIKeyID jb) s)) (s\<lparr>ws_db := st\<rparr>) = (out, s')" for jb st
  proof -
    from with_metricsE [OF that assms(2)] obtain m where m: "inc JobDuration [?t, ?p] (ws_metrics s) = (True, m)"
      and rest: "(case run jb of
             Inl e \<Rightarrow> with_metrics (inc JobsTotal [?t, ?p, ''error'']) (\<lambda>s. (if IsFatal (Some e) then Cancelled e else Nacked e, s))
               (record_outcome w (Some e) (jb_APIKeyID jb) (s\<lparr>ws_db := st, ws_metrics := m\<rparr>))
           | Inr res \<Rightarrow> with_metrics (count_result ?t ?p res) (store_result env parse w (rj_Args j) jb res)
               (record_outcome w None (jb_APIKeyID jb) (s\<lparr>ws_db := st, ws_metrics := m\<rparr>))) = (out, s')" by auto
    note m = inc_samples [OF m]
    show ?thesis
    proof (cases "run jb")
      case (Inl e)
      with rest assms(2) obtain m2 where "inc JobsTotal [?t, ?p, ''error''] m = (True, m2)"
        "s' = (record_outcome w (Some e) (jb_APIKeyID jb) (s\<lparr>ws_db := st, ws_metrics := m\<rparr>))\<lparr>ws_metrics := m2\<rparr>"
        by (auto elim!: with_metricsE)
      with inc_samples [OF this(1)] m record_outcome_runs [OF assms(3)] show ?thesis by (simp add: counted_def)
    next
      case (Inr res)
      with rest assms(2) obtain m2 where m2: "count_result ?t ?p res m = (True, m2)" and
        s': "store_result env parse w (rj_Args j) jb res
          ((record_outcome w None (jb_APIKeyID jb) (s\<lparr>ws_db := st, ws_metrics := m\<rparr>))\<lparr>ws_metrics := m2\<rparr>) = (out, s')"
        by (auto elim!: with_metricsE)
      have "ws_counters s' = ws_counters (record_outcome w None (jb_APIKeyID jb) (s\<lparr>ws_db := st, ws_metrics := m\<rparr>))" "ws_metrics s' = m2"
        using store_result_counters [of env parse w "rj_Args j" jb res
            "(record_outcome w None (jb_APIKeyID jb) (s\<lparr>ws_db := st, ws_metrics := m\<rparr>))\<lparr>ws_metrics := m2\<rparr>"] s' by simp_all
      with count_result_samples [OF m2] m record_outcome_runs [OF assms(3)] show ?thesis by (simp add: counted_def)
    qed
  qed
  show ?thesis
  proof (cases "\<exists>st. s' = s\<lparr>ws_db := st\<rparr> \<or> s' = s")
    case True
    then show ?thesis using counted_same [of s' s] by auto
  next
    case False
    with assms(1) ran have "counted 1 s s'"
      by (auto simp: Work_def Let_def split: if_splits prod.splits sum.splits option.splits)
    then show ?thesis ..
  qed
qed

text \<open>A sequence of jobs, each with its own run; none where handling one panics.\<close>

fun handle_jobs ::
  "pg \<Rightarrow> (string \<Rightarrow> uuid option) \<Rightarrow> cascadeWorker \<Rightarrow> (tool_run \<times> time option \<times> river_job) list \<Rightarrow> work_state
   \<Rightarrow> work_state option" where
  "handle_jobs env parse w [] s = Some s"
| "handle_jobs env parse w ((run, deadline, j) # js) s =
     (case Work env parse run w deadline j s of
        (Panicked, _) \<Rightarrow> None
      | (_, s') \<Rightarrow> handle_jobs env parse w js s')"

lemma handle_jobs_counts:
  "handle_jobs env parse w js s = Some s' \<Longrightarrow> cw_rt w \<noteq> None \<Longrightarrow> \<exists>n. counted n s s'"
proof (induction js arbitrary: s)
  case Nil
  then show ?case using counted_same [of s s] by auto
next
  case (Cons x js)
  obtain run deadline j where x: "x = (run, deadline, j)" by (rule prod_cases3)
  obtain out s1 where w: "Work env parse run w deadline j s = (out, s1)" by (rule prod.exhaust)
  with Cons.prems have "out \<noteq> Panicked" "handle_jobs env parse w js s1 = Some s'" by (auto simp: x split: work_outcome.splits)
  with Work_counts [OF w] Cons.IH Cons.prems(2) show ?case by (meson counted_trans)
qed

text \<open>
  C37: the exported metrics and the passive health counters count the same runs: after any sequence of
  jobs, whatever their outcomes and the faults of the connection, the jobs counted for Prometheus are as
  many as the observed durations, and the health counter of a worker with a runtime is their number at
  32 bits.
\<close>

theorem metrics_agree_with_health:
  assumes "handle_jobs env parse w js s = Some s'" and "cw_rt w \<noteq> None"
    and "hc_totalRuns (ws_counters s) = 0" and "mt_calls (ws_metrics s) = []"
  shows "unat (hc_totalRuns (ws_counters s')) = samples (ws_metrics s') (of_collector JobsTotal) mod 2 ^ 32
    \<and> samples (ws_metrics s') (of_collector JobDuration) = samples (ws_metrics s') (of_collector JobsTotal)"
proof -
  obtain n where "counted n s s'" using handle_jobs_counts [OF assms(1,2)] by blast
  then show ?thesis using assms(3,4) by (simp add: counted_def samples_def unat_of_nat)
qed

theorem metrics_agree_with_health_witness:
  "\<exists>s'. handle_jobs pg0 (\<lambda>_. None) (worker0\<lparr>cw_rt := Some \<lparr>rt_pool = True, rt_secretsKey = None\<rparr>\<rparr>)
      [(\<lambda>_. Inl FatalErr, None, job0), (\<lambda>_. Inr (result0 []), None, job0)] state0 = Some s'
    \<and> unat (hc_totalRuns (ws_counters s')) = 2 \<and> samples (ws_metrics s') (of_collector JobDuration) = 2"
proof -
  let ?w = "worker0\<lparr>cw_rt := Some \<lparr>rt_pool = True, rt_secretsKey = None\<rparr>\<rparr>"
  obtain s' where h: "handle_jobs pg0 (\<lambda>_. None) ?w [(\<lambda>_. Inl FatalErr, None, job0), (\<lambda>_. Inr (result0 []), None, job0)] state0 = Some s'"
    and n: "samples (ws_metrics s') (of_collector JobsTotal) = 2"
    by (simp add: Work_def FetchAsset_def Let_def state0_def worker0_def job0_def args0_def row0_def lookup_def
        result0_def store_result_def persist_def persist_merge_def persist_assets_def resolve_key_def record_outcome_def
        recordRunOutcome_def with_metrics_def count_result_def inc_def accepted_def samples_def)
  have "cw_rt ?w \<noteq> None" "hc_totalRuns (ws_counters state0) = 0" "mt_calls (ws_metrics state0) = []" by (simp_all add: state0_def)
  with metrics_agree_with_health [OF h] h n show ?thesis by auto
qed

end
