(* ===== verification/Config.thy ===== *)
theory Config
  imports Manifest Database Secretbox Json_Parse
begin

text \<open>
  The effective configuration of a tool (worker/runtime.go: fetchMergedConfig, mergeConfigInto,
  decryptSecrets, injectExternalLists, fetchListContent, applyConfig), as values. The parameters are how a
  float is read and printed, gunzip and the tool's \<open>ReloadConfig\<close>. Shown: what every path of the merged
  configuration reads as, whatever the order in which the maps are visited, and what the tool receives.
\<close>

section \<open>Merging\<close>

fun mergeConfigInto :: "gmap \<Rightarrow> gmap \<Rightarrow> gmap" where
  "mergeConfigInto out [] = out"
| "mergeConfigInto out ((k, v) # b) =
     mergeConfigInto
       (map_put out k
         (case v of
            GMap vmap \<Rightarrow> (case map_of out k of Some (GMap existing) \<Rightarrow> GMap (mergeConfigInto existing vmap) | _ \<Rightarrow> v)
          | _ \<Rightarrow> v)) b"

text \<open>
  The statement reads the row of the tool; \<open>num\<close> is how a float64 is read and printed again.
\<close>

definition fetchMergedConfig ::
  "(string \<Rightarrow> string option) \<Rightarrow> manifest \<Rightarrow> db \<times> fault list \<Rightarrow> gmap \<times> db \<times> fault list" where
  "fetchMergedConfig num m st =
     (let q = pgquery (\<lambda>d. map_of (db_configs d) (mf_Tool m)) st in
      (case fst q of
         Inr (Some raw) \<Rightarrow>
           (if raw = [] then mf_Config m
            else case unmarshal_map num raw of
              None \<Rightarrow> mf_Config m
            | Some override \<Rightarrow> mergeConfigInto (mf_Config m) override)
       | _ \<Rightarrow> mf_Config m,
       snd q))"

section \<open>Secrets and lists\<close>

text \<open>The second component is the cached cluster key after the call.\<close>

definition decryptSecrets ::
  "(string \<Rightarrow> string) \<Rightarrow> string list \<Rightarrow> bytes option \<Rightarrow> gmap \<Rightarrow> gmap \<times> bytes option" where
  "decryptSecrets getenv secrets cached merged =
     (if secrets = [] then (merged, cached)
      else
        case (case cached of Some k \<Rightarrow> Inr k | None \<Rightarrow> LoadKeyFromEnv getenv) of
          Inl e \<Rightarrow> (merged, cached)
        | Inr k \<Rightarrow> (the (fst (DecryptFields (Some merged) secrets k)), Some k))"

definition fetchListContent ::
  "(bytes \<Rightarrow> (go_error, bytes) result) \<Rightarrow> string \<Rightarrow> db \<times> fault list
   \<Rightarrow> (go_error, bytes \<times> string \<times> string) result \<times> db \<times> fault list" where
  "fetchListContent gunzip name st =
     (let q = pgquery (\<lambda>d. lookup li_name (db_lists d) name) st in
      (case fst q of
         Inl e \<Rightarrow> Inl e
       | Inr None \<Rightarrow> Inl (ErrorText ''no rows in result set'' None)
       | Inr (Some r) \<Rightarrow>
           (let gz = (case li_content_gz r of None \<Rightarrow> [] | Some b \<Rightarrow> b);
                hash = (case li_content_hash r of None \<Rightarrow> [] | Some h \<Rightarrow> h)
            in if gz = [] then Inr ([], hash, li_last_status r)
               else case gunzip gz of
                 Inl e \<Rightarrow> Inl e
               | Inr body \<Rightarrow> Inr (body, hash, li_last_status r)),
       snd q))"

fun fetch_lists ::
  "(bytes \<Rightarrow> (go_error, bytes) result) \<Rightarrow> externalListSpec list \<Rightarrow> gmap \<Rightarrow> db \<times> fault list
   \<Rightarrow> gmap \<times> db \<times> fault list" where
  "fetch_lists gunzip [] acc st = (acc, st)"
| "fetch_lists gunzip (l # ls) acc st =
     (case fetchListContent gunzip (el_Name l) st of
        (Inl e, st') \<Rightarrow> fetch_lists gunzip ls acc st'
      | (Inr (content, hash, status), st') \<Rightarrow>
          fetch_lists gunzip ls
            (map_put acc (el_Name l)
              (GMap [(''content'', GStr content), (''content_hash'', GStr hash), (''status'', GStr status)])) st')"

definition injectExternalLists ::
  "(bytes \<Rightarrow> (go_error, bytes) result) \<Rightarrow> externalListSpec list \<Rightarrow> gmap \<Rightarrow> db \<times> fault list
   \<Rightarrow> gmap \<times> db \<times> fault list" where
  "injectExternalLists gunzip specs merged st =
     (if specs = [] then (merged, st)
      else
        let r = fetch_lists gunzip specs [] st in
        (if fst r \<noteq> [] then map_put merged ''lists'' (GMap (fst r)) else merged, snd r))"

text \<open>
  \<open>applyConfig\<close>: the error of \<open>ReloadConfig\<close>, which receives the effective configuration, the cached
  key, and the state of the connection. \<open>None\<close> for \<open>reload\<close> is a tool that is not \<open>Configurable\<close>.
\<close>

definition effective_config ::
  "(string \<Rightarrow> string option) \<Rightarrow> (bytes \<Rightarrow> (go_error, bytes) result) \<Rightarrow> (string \<Rightarrow> string) \<Rightarrow> manifest
   \<Rightarrow> bytes option \<Rightarrow> db \<times> fault list \<Rightarrow> gmap \<times> bytes option \<times> db \<times> fault list" where
  "effective_config num gunzip getenv m cached st =
     (let r = fetchMergedConfig num m st;
          s = decryptSecrets getenv (mf_Secrets m) cached (fst r);
          t = injectExternalLists gunzip (mf_ExternalLists m) (fst s) (snd r)
      in (fst t, snd s, snd t))"

definition applyConfig ::
  "(string \<Rightarrow> string option) \<Rightarrow> (bytes \<Rightarrow> (go_error, bytes) result) \<Rightarrow> (string \<Rightarrow> string)
   \<Rightarrow> (gmap \<Rightarrow> go_error option) option \<Rightarrow> manifest \<Rightarrow> bytes option \<Rightarrow> db \<times> fault list
   \<Rightarrow> go_error option \<times> bytes option \<times> db \<times> fault list" where
  "applyConfig num gunzip getenv reload m cached st =
     (case reload of
        None \<Rightarrow> (None, cached, st)
      | Some f \<Rightarrow>
          (let r = effective_config num gunzip getenv m cached st in (f (fst r), snd r)))"

section \<open>The override\<close>

definition config_override :: "(string \<Rightarrow> string option) \<Rightarrow> manifest \<Rightarrow> db \<times> fault list \<Rightarrow> gmap option" where
  "config_override num m st =
     (case fst (pgquery (\<lambda>d. map_of (db_configs d) (mf_Tool m)) st) of
        Inr (Some raw) \<Rightarrow> (if raw = [] then None else unmarshal_map num raw)
      | _ \<Rightarrow> None)"

lemma fetchMergedConfig_override:
  "fetchMergedConfig num m st =
     (case config_override num m st of None \<Rightarrow> mf_Config m | Some b \<Rightarrow> mergeConfigInto (mf_Config m) b,
      snd (pgquery (\<lambda>d. map_of (db_configs d) (mf_Tool m)) st))"
  by (simp add: fetchMergedConfig_def config_override_def Let_def split: sum.split option.split)

lemma map_put_all: "list_all P m \<Longrightarrow> P (k, v) \<Longrightarrow> list_all P (map_put m k v)"
  by (induction m k v rule: map_put.induct) auto

lemma as_map_all: "list_all P ms \<Longrightarrow> list_all P old \<Longrightarrow> list_all P (as_map ms old)"
proof (induction ms arbitrary: old)
  case (Cons kv ms)
  then show ?case by (cases kv) (simp add: as_map_Cons map_put_all)
qed simp

lemma all_some_all: "all_some xs = Some ys \<Longrightarrow> (\<And>x y. x \<in> set xs \<Longrightarrow> x = Some y \<Longrightarrow> P y) \<Longrightarrow> list_all P ys"
  by (induction xs arbitrary: ys) (auto split: option.splits)

lemma wf_to_any: "to_any num v = Some w \<Longrightarrow> wf_val w"
proof (induction num v arbitrary: w rule: to_any.induct)
  case (2 num vs)
  then obtain ws where ws: "all_some (map (to_any num) vs) = Some ws" "w = GList ws" by auto
  have "list_all wf_val ws" by (rule all_some_all [OF ws(1)]) (use 2(1) in auto)
  then show ?case by (simp add: ws(2))
next
  case (3 num ms)
  then obtain kvs where k: "all_some (map (\<lambda>kv. map_option (Pair (fst kv)) (to_any num (snd kv))) ms) = Some kvs" "w = GMap (as_map kvs [])"
    by auto
  have "list_all (\<lambda>kv. wf_val (snd kv)) kvs"
    by (rule all_some_all [OF k(1)]) (use 3(1) in \<open>auto dest!: sym [of "Some _" "map_option _ _"]\<close>)
  then show ?case by (simp add: k(2) go_map_as_map as_map_all)
qed auto

lemma wf_override: "config_override num m st = Some b \<Longrightarrow> wf_val (GMap b)"
  by (auto simp: config_override_def unmarshal_map_def split: sum.splits option.splits gval.splits if_splits simp del: to_any.simps dest!: wf_to_any)

section \<open>What a path of the merged configuration reads as\<close>

definition combine :: "gval option \<Rightarrow> gval \<Rightarrow> gval" where
  "combine old v =
     (case v of
        GMap vmap \<Rightarrow> (case old of Some (GMap existing) \<Rightarrow> GMap (mergeConfigInto existing vmap) | _ \<Rightarrow> v)
      | _ \<Rightarrow> v)"

lemma map_of_merge:
  "go_map b \<Longrightarrow> map_of (mergeConfigInto a b) k =
     (case map_of b k of None \<Rightarrow> map_of a k | Some v \<Rightarrow> Some (combine (map_of a k) v))"
proof (induction b arbitrary: a)
  case (Cons kv b)
  obtain k' v where kv: "kv = (k', v)" by (cases kv)
  have "mergeConfigInto a (kv # b) = mergeConfigInto (map_put a k' (combine (map_of a k') v)) b"
    by (simp add: kv combine_def)
  moreover have "map_of b k' = None" using Cons.prems kv by (simp add: map_of_eq_None_iff)
  ultimately show ?case using Cons by (auto simp: kv split: option.splits)
qed simp

lemma go_map_merge: "go_map a \<Longrightarrow> go_map (mergeConfigInto a b)"
  by (induction b arbitrary: a) (auto split: gval.splits option.splits)

text \<open>The override says nothing about the path: a segment is missing before it meets a value.\<close>

fun unset :: "gmap \<Rightarrow> string list \<Rightarrow> bool" where
  "unset b [] = False"
| "unset b (s # ss) =
     (case map_of b s of None \<Rightarrow> True | Some (GMap n) \<Rightarrow> unset n ss | Some _ \<Rightarrow> False)"

lemma wf_val_lookup: "wf_val (GMap m) \<Longrightarrow> map_of m k = Some v \<Longrightarrow> wf_val v"
  by (auto simp: list_all_iff dest!: map_of_SomeD)

lemma walk_unset: "unset b p \<Longrightarrow> walkValue (GMap b) p = None"
  by (induction b p rule: unset.induct) (auto split: option.splits gval.splits)

lemma walk_merge_unset:
  "unset b p \<Longrightarrow> wf_val (GMap b) \<Longrightarrow> walkValue (GMap (mergeConfigInto a b)) p = walkValue (GMap a) p"
proof (induction b p arbitrary: a rule: unset.induct)
  case (2 b s ss)
  have lk: "map_of (mergeConfigInto a b) s =
      (case map_of b s of None \<Rightarrow> map_of a s | Some v \<Rightarrow> Some (combine (map_of a s) v))"
    using 2(3) by (intro map_of_merge) simp
  show ?case
  proof (cases "map_of b s")
    case None
    then show ?thesis by (simp add: lk)
  next
    case (Some v)
    with 2(2) obtain n where v: "v = GMap n" and n: "unset n ss" by (cases v) auto
    have wf: "wf_val (GMap n)" using wf_val_lookup [OF 2(3) Some] v by simp
    have ne: "ss \<noteq> []" using n by auto
    show ?thesis
    proof (cases "\<exists>e. map_of a s = Some (GMap e)")
      case True
      then show ?thesis using 2(1) Some v n wf by (auto simp: lk combine_def)
    next
      case False
      then have "combine (map_of a s) v = v" by (auto simp: combine_def v split: option.splits gval.splits)
      moreover have "walkValue (GMap a) (s # ss) = None"
        using False ne by (cases ss) (auto split: option.splits, metis walkValue.simps gval.exhaust)
      ultimately show ?thesis using walk_unset [OF n] Some v by (simp add: lk)
    qed
  qed
qed simp

lemma walk_merge_set:
  "walkValue (GMap b) p = Some v \<Longrightarrow> (\<nexists>m. v = GMap m) \<Longrightarrow> wf_val (GMap b) \<Longrightarrow>
   walkValue (GMap (mergeConfigInto a b)) p = Some v"
proof (induction p arbitrary: a b)
  case (Cons s ss)
  from Cons.prems obtain w where w: "map_of b s = Some w" and rest: "walkValue w ss = Some v"
    by (auto split: option.splits)
  have lk: "map_of (mergeConfigInto a b) s = Some (combine (map_of a s) w)"
    using Cons.prems w by (subst map_of_merge) simp_all
  show ?case
  proof (cases "\<exists>n e. w = GMap n \<and> map_of a s = Some (GMap e)")
    case True
    then show ?thesis
      using Cons.IH rest Cons.prems(2) wf_val_lookup [OF Cons.prems(3) w] by (auto simp: lk combine_def)
  next
    case False
    then have "combine (map_of a s) w = w" by (auto simp: combine_def split: option.splits gval.splits)
    then show ?thesis using rest by (simp add: lk)
  qed
qed auto

section \<open>The order of the maps does not matter\<close>

inductive_cases same_val_mapE: "same_val (GMap m) w"
inductive_cases same_val_mapE2: "same_val v (GMap m)"

lemma keys_merge: "fst ` set (mergeConfigInto a b) = fst ` set a \<union> fst ` set b"
proof (induction b arbitrary: a)
  case (Cons kv b)
  then show ?case by (cases kv) simp
qed simp

lemma wf_val_go_map: "wf_val (GMap a) \<Longrightarrow> map_of a k = Some (GMap e) \<Longrightarrow> wf_val (GMap e)"
  by (rule wf_val_lookup)

lemma merge_same:
  "same_val v w \<Longrightarrow> v = GMap b \<Longrightarrow> w = GMap b' \<Longrightarrow> wf_val (GMap a) \<Longrightarrow>
   same_val (GMap (mergeConfigInto a b)) (GMap (mergeConfigInto a b'))"
proof (induction arbitrary: a b b' rule: same_val.induct)
  case (same_map m m')
  then have b: "m = b" "m' = b'" by simp_all
  show ?case
  proof (rule same_val.same_map)
    show "go_map (mergeConfigInto a b)" "go_map (mergeConfigInto a b')"
      using same_map.prems(3) by (simp_all add: go_map_merge)
    show "fst ` set (mergeConfigInto a b) = fst ` set (mergeConfigInto a b')"
      using same_map(1-3) by (simp add: b keys_merge)
  next
    fix k x y
    assume x: "map_of (mergeConfigInto a b) k = Some x" and y: "map_of (mergeConfigInto a b') k = Some y"
    show "same_val x y"
    proof (cases "map_of b k")
      case None
      then have "map_of b' k = None" using same_map(3) by (simp add: b map_of_eq_None_iff)
      with None x y same_map(1,2) show ?thesis by (simp add: b map_of_merge same_refl)
    next
      case (Some vb)
      then obtain wb where wb: "map_of b' k = Some wb"
        using same_map(3) map_of_key [of k b'] by (metis b map_of_SomeD fst_conv image_eqI)
      have "same_val (combine (map_of a k) vb) (combine (map_of a k) wb)"
      proof (cases "\<exists>e. map_of a k = Some (GMap e)")
        case True
        then obtain e where e: "map_of a k = Some (GMap e)" by blast
        have wf: "wf_val (GMap e)" using wf_val_go_map [OF same_map.prems(3) e] .
        show ?thesis
          using same_map(4) [of k vb wb] same_map(5) [of k vb wb _ _ e] Some wb wf
          by (auto simp: b combine_def e same_refl split: gval.splits elim: same_val_mapE same_val_mapE2)
      next
        case False
        then have "combine (map_of a k) u = u" for u
          by (auto simp: combine_def split: option.splits gval.splits)
        then show ?thesis using same_map(4) [of k vb wb] Some wb by (simp add: b)
      qed
      then show ?thesis using x y Some wb same_map(1,2) by (simp add: b map_of_merge)
    qed
  qed
qed (simp_all add: same_refl)

section \<open>Properties\<close>

text \<open>
  In the merged configuration a path on which the override is silent reads as in the manifest, and
  a path that is a value other than a map in the override reads as in the override.
\<close>

theorem merged_config_paths:
  assumes "wf_val (GMap b)"
  shows "(unset b p \<longrightarrow> walkValue (GMap (mergeConfigInto a b)) p = walkValue (GMap a) p)
    \<and> (\<forall>v. walkValue (GMap b) p = Some v \<longrightarrow> (\<nexists>m. v = GMap m) \<longrightarrow>
         walkValue (GMap (mergeConfigInto a b)) p = Some v)"
  using walk_merge_unset [OF _ assms] walk_merge_set [OF _ _ assms] by blast

theorem merged_config_paths_witness:
  "walkValue (GMap (mergeConfigInto [(''api'', GMap [(''url'', GStr ''u''), (''key'', GStr ''k'')])]
      [(''api'', GMap [(''key'', GStr ''x'')])])) [''api'', ''url''] = Some (GStr ''u'')
   \<and> walkValue (GMap (mergeConfigInto [(''api'', GMap [(''url'', GStr ''u''), (''key'', GStr ''k'')])]
      [(''api'', GMap [(''key'', GStr ''x'')])])) [''api'', ''key''] = Some (GStr ''x'')"
proof -
  let ?a = "[(''api'', GMap [(''url'', GStr ''u''), (''key'', GStr ''k'')])]"
  let ?b = "[(''api'', GMap [(''key'', GStr ''x'')])]"
  have "wf_val (GMap ?b)" by simp
  note m = merged_config_paths [OF this, where a = ?a]
  have "unset ?b [''api'', ''url'']" by simp
  moreover have "walkValue (GMap ?a) [''api'', ''url''] = Some (GStr ''u'')" by simp
  moreover have "walkValue (GMap ?b) [''api'', ''key''] = Some (GStr ''x'')" by simp
  ultimately show ?thesis using m [of "[''api'', ''url'']"] m [of "[''api'', ''key'']"] by (simp del: mergeConfigInto.simps)
qed

text \<open>
  The merged configuration does not depend on the order in which the maps of the override are
  visited: overrides that are presentations of one value merge to presentations of one value.
\<close>

theorem merge_order_independent:
  assumes "same_val (GMap b) (GMap b')" and "wf_val (GMap a)"
  shows "same_val (GMap (mergeConfigInto a b)) (GMap (mergeConfigInto a b'))"
  using merge_same [OF assms(1) refl refl assms(2)] .

theorem merge_order_independent_witness:
  "same_val (GMap (mergeConfigInto [(''x'', GNil)] [(''a'', GInt 1), (''b'', GInt 2)]))
     (GMap (mergeConfigInto [(''x'', GNil)] [(''b'', GInt 2), (''a'', GInt 1)]))"
proof (rule merge_order_independent)
  show "same_val (GMap [(''a'', GInt 1), (''b'', GInt 2)]) (GMap [(''b'', GInt 2), (''a'', GInt 1)])"
    by (rule same_map) (auto split: if_splits intro: same_refl)
qed simp

lemma DecryptFields_Some: "\<exists>cfg' n failed. DecryptFields (Some cfg) fs k = (Some cfg', n, failed)"
  by (auto simp: DecryptFields_def Let_def)

lemma inject_other:
  "p \<noteq> [] \<Longrightarrow> hd p \<noteq> ''lists'' \<Longrightarrow>
   walkValue (GMap (fst (injectExternalLists gunzip specs m st))) p = walkValue (GMap m) p"
  by (cases p) (auto simp: injectExternalLists_def Let_def)

text \<open>
  What a path reads as before secrets are opened: as in the override where it says something about the path, as in
  the manifest otherwise. And the key that opens secrets: the cached one, or at the first reload the one
  of the environment.
\<close>

definition source_value :: "gmap option \<Rightarrow> gmap \<Rightarrow> string list \<Rightarrow> gval option" where
  "source_value ov cfg p =
     (case ov of
        None \<Rightarrow> walkValue (GMap cfg) p
      | Some b \<Rightarrow> if unset b p then walkValue (GMap cfg) p else walkValue (GMap b) p)"

definition key_in_use :: "(string \<Rightarrow> string) \<Rightarrow> bytes option \<Rightarrow> bytes option" where
  "key_in_use getenv cached =
     (case cached of
        Some k \<Rightarrow> Some k
      | None \<Rightarrow> (case LoadKeyFromEnv getenv of Inl e \<Rightarrow> None | Inr k \<Rightarrow> Some k))"

lemma merged_leaf:
  assumes "source_value (config_override num m st) (mf_Config m) p = Some (GStr s)"
  shows "walkValue (GMap (fst (fetchMergedConfig num m st))) p = Some (GStr s)"
proof (cases "config_override num m st")
  case (Some b)
  have wf: "wf_val (GMap b)" by (rule wf_override [OF Some])
  show ?thesis
    using assms walk_merge_unset [OF _ wf] walk_merge_set [OF _ _ wf]
    by (auto simp: fetchMergedConfig_override source_value_def Some split: if_splits)
qed (use assms in \<open>simp add: fetchMergedConfig_override source_value_def\<close>)

lemma decrypted_leaf:
  assumes "walkValue (GMap cfg) p = Some (GStr s)"
  shows "walkValue (GMap (fst (decryptSecrets getenv secrets cached cfg))) p = Some (GStr
    (case key_in_use getenv cached of None \<Rightarrow> s | Some k \<Rightarrow> (opened k ^^ count_list (map splitPath secrets) p) s))"
proof (cases "secrets = [] \<or> key_in_use getenv cached = None")
  case True
  then show ?thesis
    using assms by (auto simp: decryptSecrets_def key_in_use_def split: option.splits sum.splits)
next
  case False
  then obtain k where k: "key_in_use getenv cached = Some k" by auto
  have "(case cached of Some k \<Rightarrow> Inr k | None \<Rightarrow> LoadKeyFromEnv getenv) = Inr k"
    using k by (auto simp: key_in_use_def split: option.splits sum.splits)
  then have "fst (decryptSecrets getenv secrets cached cfg) = fold (field_step k) secrets cfg"
    using False by (simp add: decryptSecrets_def DecryptFields_fold)
  then show ?thesis by (simp add: k fold_step_count [OF assms])
qed

text \<open>
  C6: the string a tool receives at a path outside the injected lists: the string of the override where it says
  something about the path, otherwise of the manifest, opened with the cluster key (the cached one, or the
  one of the environment) once for each time the path is declared secret; without a key it stays as it is.
\<close>

theorem effective_config_leaf:
  assumes "source_value (config_override num m st) (mf_Config m) p = Some (GStr s)"
    and "hd p \<noteq> ''lists'' \<or> mf_ExternalLists m = []"
  shows "walkValue (GMap (fst (effective_config num gunzip getenv m cached st))) p = Some (GStr
    (case key_in_use getenv cached of
       None \<Rightarrow> s
     | Some k \<Rightarrow> (opened k ^^ count_list (map splitPath (mf_Secrets m)) p) s))"
proof -
  note merged = merged_leaf [OF assms(1)]
  have ne: "p \<noteq> []" using merged by auto
  have "walkValue (GMap (fst (injectExternalLists gunzip (mf_ExternalLists m) cfg st'))) p = walkValue (GMap cfg) p" for cfg st'
  proof (cases "hd p = ''lists''")
    case True
    then show ?thesis using assms(2) by (simp add: injectExternalLists_def)
  qed (rule inject_other [OF ne])
  then show ?thesis by (simp add: effective_config_def Let_def decrypted_leaf [OF merged])
qed

text \<open>A manifest with a sealed secret, an override of another path, and the key in the environment as at boot.\<close>

definition key0 :: bytes where
  "key0 = replicate 32 CHR ''k''"

definition sealed0 :: string where
  "sealed0 = envelope seal_bytes key0 (replicate 12 CHR ''n'') ''sk_live''"

lemma opened_sealed0: "opened key0 sealed0 = ''sk_live''"
  by (simp add: opened_def IsEncrypted_def sealed0_def Decrypt_def gcm.decrypt_envelope nonceLen_def gcm_max_def)
    (simp add: envelope_def prefixV1_def hasPrefix_def)

definition manifest2 :: manifest where
  "manifest2 = (manifest0 [])\<lparr>mf_Config := [(''api'', GMap [(''key'', GStr sealed0), (''url'', GStr ''a'')])], mf_Secrets := [''api.key'']\<rparr>"

definition env2 :: "string \<Rightarrow> string" where
  "env2 v = (if v = ''RECON_SECRETS_KEY'' then ''a2tra2tra2tra2tra2tra2tra2tra2tra2tra2tra2s='' else [])"

definition db2 :: db where
  "db2 = empty_db\<lparr>db_configs := [(mf_Tool manifest2, ''{\"api\":{\"url\":\"b\"}}'')]\<rparr>"

lemma split_api_key: "splitPath ''api.key'' = [''api'', ''key'']"
proof -
  have "trimSpace ''api.key'' = ''api.key''" "trimSpace ''api'' = ''api''" "trimSpace ''key'' = ''key''"
    by (rule trimSpace_id; simp add: space_runes_def char_of_def bit_simps)+
  then show ?thesis by (simp add: splitPath_def Let_def)
qed

theorem effective_config_leaf_witness:
  "walkValue (GMap (fst (effective_config Some (\<lambda>_. Inr []) env2 manifest2 None (db2, [])))) [''api'', ''key''] = Some (GStr ''sk_live'')
   \<and> walkValue (GMap (fst (effective_config Some (\<lambda>_. Inr []) env2 manifest2 None (db2, [])))) [''api'', ''url''] = Some (GStr ''b'')"
proof -
  have "unmarshal_map Some ''{\"api\":{\"url\":\"b\"}}'' = Some [(''api'', GMap [(''url'', GStr ''b'')])]" by code_simp
  then have ov: "config_override Some manifest2 (db2, []) = Some [(''api'', GMap [(''url'', GStr ''b'')])]"
    by (simp add: config_override_def pgquery_def db2_def)
  have "LoadKeyFromEnv env2 = Inr key0" by code_simp
  then have k: "key_in_use env2 None = Some key0" by (simp add: key_in_use_def)
  have src: "source_value (config_override Some manifest2 (db2, [])) (mf_Config manifest2) [''api'', ''key''] = Some (GStr sealed0)"
    "source_value (config_override Some manifest2 (db2, [])) (mf_Config manifest2) [''api'', ''url''] = Some (GStr ''b'')"
    unfolding ov by (simp_all add: source_value_def manifest2_def)
  have sec: "map splitPath (mf_Secrets manifest2) = [[''api'', ''key'']]" by (simp add: manifest2_def split_api_key)
  show ?thesis
    using effective_config_leaf [OF src(1), of "\<lambda>_. Inr []" env2 None] effective_config_leaf [OF src(2), of "\<lambda>_. Inr []" env2 None]
    by (simp add: k sec opened_sealed0 del: walkValue.simps)
qed

end
