(* ===== verification/Map_Store.thy ===== *)
theory Map_Store
  imports Secretbox Json_Parse
begin

text \<open>
  Go's maps as references into a store, for the code whose effect depends on which maps are shared: a
  value is read along paths of keys. A reference holds a tree when no two paths from it meet in one
  map; writing below it then changes exactly the paths through the written entry. Maps inside slices
  are never reached by a path and stay values.
\<close>

section \<open>The store\<close>

datatype hval = HRef nat | HVal gval

record store =
  so_next :: nat
  so_maps :: "nat \<Rightarrow> (string \<times> hval) list"

definition new_map :: "(string \<times> hval) list \<Rightarrow> store \<Rightarrow> nat \<times> store" where
  "new_map es s = (so_next s, s\<lparr>so_next := Suc (so_next s), so_maps := (so_maps s)(so_next s := es)\<rparr>)"

definition put :: "nat \<Rightarrow> string \<Rightarrow> hval \<Rightarrow> store \<Rightarrow> store" where
  "put a k v s = s\<lparr>so_maps := (so_maps s)(a := map_put (so_maps s a) k v)\<rparr>"

text \<open>A decoded value: every map in it is a new one, filled entry by entry.\<close>

fun load :: "gval \<Rightarrow> store \<Rightarrow> hval \<times> store" and load_into :: "nat \<Rightarrow> (string \<times> gval) list \<Rightarrow> store \<Rightarrow> store" where
  "load (GMap m) s = (let (a, s) = new_map [] s in (HRef a, load_into a m s))"
| "load v s = (HVal v, s)"
| "load_into a [] s = s"
| "load_into a ((k, v) # m) s = (let (h, s) = load v s in load_into a m (put a k h s))"

fun walk_store :: "store \<Rightarrow> hval \<Rightarrow> string list \<Rightarrow> hval option" where
  "walk_store s cur [] = Some cur"
| "walk_store s (HRef a) (seg # segs) =
     (case map_of (so_maps s a) seg of None \<Rightarrow> None | Some v \<Rightarrow> walk_store s v segs)"
| "walk_store s (HVal v) (seg # segs) = None"

fun set_store :: "nat \<Rightarrow> string list \<Rightarrow> gval \<Rightarrow> store \<Rightarrow> store" where
  "set_store a [] v s = s"
| "set_store a [seg] v s = (if map_of (so_maps s a) seg = None then s else put a seg (HVal v) s)"
| "set_store a (seg # seg' # segs) v s =
     (case map_of (so_maps s a) seg of Some (HRef b) \<Rightarrow> set_store b (seg' # segs) v s | _ \<Rightarrow> s)"

section \<open>Frames\<close>

text \<open>Later stores: nothing that existed has changed, or only the map \<open>a\<close>.\<close>

definition keeps_but :: "nat set \<Rightarrow> store \<Rightarrow> store \<Rightarrow> bool" where
  "keeps_but A s s' \<longleftrightarrow> so_next s \<le> so_next s' \<and> (\<forall>a < so_next s. a \<notin> A \<longrightarrow> so_maps s' a = so_maps s a)"

abbreviation keeps :: "store \<Rightarrow> store \<Rightarrow> bool" where
  "keeps \<equiv> keeps_but {}"

lemma keeps_refl [simp]: "keeps_but A s s"
  by (simp add: keeps_but_def)

lemma keeps_trans:
  assumes "keeps_but A s s'" and "keeps_but B s' s''" and "A \<subseteq> C" and "B \<subseteq> C \<union> {a. so_next s \<le> a}"
  shows "keeps_but C s s''"
  unfolding keeps_but_def
proof (intro conjI allI impI)
  show "so_next s \<le> so_next s''" using assms(1,2) by (simp add: keeps_but_def)
  fix a assume a: "a < so_next s" "a \<notin> C"
  with assms have "a \<notin> A" "a \<notin> B" "a < so_next s'" by (auto simp: keeps_but_def)
  with a assms(1,2) show "so_maps s'' a = so_maps s a" by (simp add: keeps_but_def)
qed

lemma new_mapD: "new_map es s = (a, s') \<Longrightarrow> keeps s s' \<and> a = so_next s \<and> so_next s' = Suc a \<and> so_maps s' a = es"
  by (auto simp: new_map_def keeps_but_def)

lemma keeps_put: "keeps_but {a} s (put a k v s)"
  by (simp add: keeps_but_def put_def)

lemma put_next [simp]: "so_next (put a k v s) = so_next s"
  by (simp add: put_def)

lemma set_store_next [simp]: "so_next (set_store a p v s) = so_next s"
  by (induction a p v s rule: set_store.induct) (auto split: option.split hval.split)

section \<open>Paths\<close>

lemma walkValue_append:
  "walkValue v (p @ q) = (case walkValue v p of None \<Rightarrow> None | Some w \<Rightarrow> walkValue w q)"
  by (induction v p rule: walkValue.induct) (auto split: option.split)

lemma walk_store_append:
  "walk_store s v (p @ q) = (case walk_store s v p of None \<Rightarrow> None | Some w \<Rightarrow> walk_store s w q)"
  by (induction s v p rule: walk_store.induct) (auto split: option.split)

text \<open>
  The value \<open>g\<close> as the store holds it at \<open>x\<close>: along every path the two agree, no two paths lead to one
  map, and every map on the way exists.
\<close>

fun matches :: "gval option \<Rightarrow> hval option \<Rightarrow> bool" where
  "matches None x = (x = None)"
| "matches (Some (GMap m)) x = (\<exists>b. x = Some (HRef b))"
| "matches (Some v) x = (x = Some (HVal v))"

definition refs :: "store \<Rightarrow> hval \<Rightarrow> string list \<Rightarrow> nat \<Rightarrow> bool" where
  "refs s x p b \<longleftrightarrow> walk_store s x p = Some (HRef b)"

definition unshared :: "store \<Rightarrow> hval \<Rightarrow> bool" where
  "unshared s x \<longleftrightarrow> (\<forall>p q b. refs s x p b \<longrightarrow> refs s x q b \<longrightarrow> p = q)"

definition tree :: "store \<Rightarrow> hval \<Rightarrow> gval \<Rightarrow> bool" where
  "tree s x g \<longleftrightarrow> (\<forall>p. matches (walkValue g p) (walk_store s x p)) \<and> unshared s x
     \<and> (\<forall>p b. refs s x p b \<longrightarrow> b < so_next s)"

lemma treeI:
  assumes "\<And>p. matches (walkValue g p) (walk_store s x p)"
    and "\<And>p q b. refs s x p b \<Longrightarrow> refs s x q b \<Longrightarrow> p = q" and "\<And>p b. refs s x p b \<Longrightarrow> b < so_next s"
  shows "tree s x g"
  using assms by (auto simp: tree_def unshared_def)

lemma treeD:
  assumes "tree s x g"
  shows "matches (walkValue g p) (walk_store s x p)"
    and "refs s x p b \<Longrightarrow> refs s x q b \<Longrightarrow> p = q" and "refs s x p b \<Longrightarrow> b < so_next s" and "unshared s x"
  using assms unfolding tree_def unshared_def by blast+

lemma matches_string: "matches x y \<Longrightarrow> x = Some (GStr t) \<longleftrightarrow> y = Some (HVal (GStr t))"
  by (cases "(x, y)" rule: matches.cases) auto

lemma matches_None: "matches x y \<Longrightarrow> x = None \<longleftrightarrow> y = None"
  by (cases "(x, y)" rule: matches.cases) auto

lemma matches_map: "matches x y \<Longrightarrow> (\<exists>m. x = Some (GMap m)) \<longleftrightarrow> (\<exists>b. y = Some (HRef b))"
  by (cases "(x, y)" rule: matches.cases) auto

lemmas tree_string = matches_string [OF treeD(1)]

lemma walk_store_HVal: "walk_store s (HVal v) p = (if p = [] then Some (HVal v) else None)"
  by (cases p) simp_all

lemma tree_HVal: "(\<nexists>m. v = GMap m) \<Longrightarrow> tree s (HVal v) v"
proof (rule treeI)
  assume v: "\<nexists>m. v = GMap m"
  then have "walkValue v (x # q) = None" for x q by (cases v) simp_all
  with v show "matches (walkValue v p) (walk_store s (HVal v) p)" for p by (cases p; cases v) auto
qed (auto simp: refs_def walk_store_HVal split: if_splits)

lemma tree_sub:
  assumes "tree s x g" and y: "walk_store s x p = Some y" and h: "walkValue g p = Some h"
  shows "tree s y h"
proof (rule treeI)
  have w: "walk_store s x (p @ q) = walk_store s y q" "walkValue g (p @ q) = walkValue h q" for q
    using y h by (simp_all add: walk_store_append walkValue_append)
  then show "matches (walkValue h q) (walk_store s y q)" for q using treeD(1) [OF assms(1), of "p @ q"] by simp
  show "q = r" if "refs s y q b" "refs s y r b" for q r b
    using that treeD(2) [OF assms(1), of "p @ q" b "p @ r"] by (simp add: refs_def w)
  show "b < so_next s" if "refs s y q b" for q b
    using that treeD(3) [OF assms(1), of "p @ q" b] by (simp add: refs_def w)
qed

text \<open>A tree does not change with the maps outside it.\<close>

lemma walk_frame:
  assumes "keeps_but A s s'" and "\<And>q b. refs s v q b \<Longrightarrow> b < so_next s \<and> b \<notin> A"
  shows "walk_store s' v p = walk_store s v p"
  using assms(2)
proof (induction p arbitrary: v)
  case (Cons seg segs)
  show ?case
  proof (cases v)
    case (HRef a)
    have "so_maps s' a = so_maps s a" using assms(1) Cons.prems [of "[]" a] HRef by (simp add: keeps_but_def refs_def)
    moreover have "walk_store s' w segs = walk_store s w segs" if "map_of (so_maps s a) seg = Some w" for w
      using Cons.IH [of w] Cons.prems [of "seg # _"] that HRef by (simp add: refs_def)
    ultimately show ?thesis by (simp add: HRef split: option.split)
  qed simp
qed simp

lemma tree_frame:
  assumes "tree s x g" and "keeps_but A s s'" and "\<And>q b. b \<in> A \<Longrightarrow> \<not> refs s x q b"
  shows "tree s' x g" and "walk_store s' x p = walk_store s x p"
proof -
  show w: "walk_store s' x p = walk_store s x p" for p
    by (rule walk_frame [OF assms(2)]) (use assms(3) treeD(3) [OF assms(1)] in blast)
  have "so_next s \<le> so_next s'" using assms(2) by (simp add: keeps_but_def)
  then show "tree s' x g"
    using assms(1) unfolding tree_def unshared_def refs_def w by (fastforce intro: order.strict_trans2)
qed

section \<open>Hanging a value under a key\<close>

lemma walk_put_unreached:
  assumes "\<And>q. \<not> refs s v q c"
  shows "walk_store (put c k x s) v p = walk_store s v p"
  using assms
proof (induction p arbitrary: v)
  case (Cons seg segs)
  show ?case
  proof (cases v)
    case (HRef a)
    have "a \<noteq> c" using Cons.prems [of "[]"] HRef by (auto simp: refs_def)
    moreover have "walk_store (put c k x s) w segs = walk_store s w segs" if "map_of (so_maps s a) seg = Some w" for w
      using Cons.IH [of w] Cons.prems [of "seg # _"] that HRef by (simp add: refs_def)
    ultimately show ?thesis by (simp add: HRef put_def split: option.split)
  qed simp
qed simp

text \<open>
  \<open>x\<close> is hung under the key \<open>k\<close> of the tree at \<open>out\<close>, where \<open>x\<close> has come up after the store \<open>s0\<close>: its maps are new
  or lie where the tree already had them.
\<close>

lemma put_walk:
  assumes t: "tree s0 (HRef out) (GMap m)" and ke: "keeps s0 s"
    and refs: "\<And>q b. refs s x q b \<Longrightarrow> so_next s0 \<le> b \<or> refs s0 (HRef out) (k # q) b"
  shows "walk_store (put out k x s) (HRef out) (k' # q)
    = (if k' = k then walk_store s x q else walk_store s0 (HRef out) (k' # q))"
proof -
  have out: "refs s0 (HRef out) [] out" by (simp add: refs_def)
  then have lt: "out < so_next s0" by (rule treeD(3) [OF t])
  have same: "so_maps s out = so_maps s0 out" using ke lt by (simp add: keeps_but_def)
  have "\<not> refs s x r out" for r
    using refs [of r out] lt treeD(2) [OF t out, of "k # r"] by auto
  then have "walk_store (put out k x s) x q = walk_store s x q" by (rule walk_put_unreached)
  moreover have "walk_store (put out k x s) w q = walk_store s0 w q" if w: "map_of (so_maps s0 out) k' = Some w" for w
  proof -
    have r: "refs s0 w r b \<longleftrightarrow> refs s0 (HRef out) (k' # r) b" for r b using w by (simp add: refs_def)
    have eq: "walk_store s w r = walk_store s0 w r" for r
      by (rule walk_frame [OF ke]) (use r treeD(3) [OF t] in blast)
    have "\<not> refs s w r out" for r
      using r treeD(2) [OF t out] unfolding refs_def eq by blast
    then show ?thesis using walk_put_unreached [of s w out k x q] eq by simp
  qed
  ultimately show ?thesis by (simp add: put_def same split: option.split)
qed

lemma put_tree:
  assumes t: "tree s0 (HRef out) (GMap m)" and ke: "keeps s0 s" and x: "tree s x g"
    and refs: "\<And>q b. refs s x q b \<Longrightarrow> so_next s0 \<le> b \<or> refs s0 (HRef out) (k # q) b"
  shows "tree (put out k x s) (HRef out) (GMap (map_put m k g))"
proof (rule treeI)
  let ?s = "put out k x s"
  have w: "walk_store ?s (HRef out) (k' # q) = (if k' = k then walk_store s x q else walk_store s0 (HRef out) (k' # q))" for k' q
    by (rule put_walk [OF t ke]) (rule refs)
  have out: "refs s0 (HRef out) [] out" by (simp add: refs_def)
  have le: "so_next s0 \<le> so_next s" using ke by (simp add: keeps_but_def)
  have cases: "p = [] \<and> b = out
      \<or> (\<exists>q. p = k # q \<and> refs s x q b \<and> (so_next s0 \<le> b \<or> refs s0 (HRef out) p b))
      \<or> (p \<noteq> [] \<and> hd p \<noteq> k \<and> refs s0 (HRef out) p b)" if "refs ?s (HRef out) p b" for p b
    using that refs by (cases p) (auto simp: refs_def w simp del: walk_store.simps(2) split: if_splits)
  show "matches (walkValue (GMap (map_put m k g)) p) (walk_store ?s (HRef out) p)" for p
  proof (cases p)
    case (Cons k' q)
    then show ?thesis using treeD(1) [OF x, of q] treeD(1) [OF t, of p] by (simp add: w del: walk_store.simps(2))
  qed simp
  show "b < so_next ?s" if "refs ?s (HRef out) p b" for p b
    using cases [OF that] treeD(3) [OF x, of _ b] treeD(3) [OF t, of _ b] out le by (auto intro: order.strict_trans2)
  show "p = q" if p: "refs ?s (HRef out) p b" and q: "refs ?s (HRef out) q b" for p q b
    using cases [OF p] cases [OF q] treeD(2) [OF x, of _ b] treeD(2) [OF t, of _ b] treeD(3) [OF t, of _ b] out
    by (auto simp: not_le [symmetric]) (blast dest: leD)+
qed

text \<open>A new, empty map, and a decoded value.\<close>

lemma tree_empty: "new_map [] s = (a, s') \<Longrightarrow> tree s' (HRef a) (GMap [])"
proof (rule treeI)
  assume n: "new_map [] s = (a, s')"
  have d: "so_maps s' a = []" "a < so_next s'" using new_mapD [OF n] by auto
  have w: "walk_store s' (HRef a) p = (if p = [] then Some (HRef a) else None)" for p
    by (cases p) (simp_all add: d)
  show "matches (walkValue (GMap []) p) (walk_store s' (HRef a) p)" for p unfolding w by (cases p) simp_all
  show "p = q" if "refs s' (HRef a) p b" "refs s' (HRef a) q b" for p q b using that by (simp add: refs_def w split: if_splits)
  show "b < so_next s'" if "refs s' (HRef a) p b" for p b
    using that d by (auto simp: refs_def w split: if_splits)
qed

lemma load_tree:
  "wf_val g \<Longrightarrow> load g s = (h, s') \<Longrightarrow> keeps s s' \<and> tree s' h g \<and> (\<forall>q b. refs s' h q b \<longrightarrow> so_next s \<le> b)"
  "tree s (HRef a) (GMap m0) \<Longrightarrow> list_all (\<lambda>kv. wf_val (snd kv)) m \<Longrightarrow>
     tree (load_into a m s) (HRef a) (GMap (as_map m m0)) \<and> keeps_but {a} s (load_into a m s)
     \<and> (\<forall>q b. refs (load_into a m s) (HRef a) q b \<longrightarrow> so_next s \<le> b \<or> refs s (HRef a) q b)"
proof (induction g s and a m s arbitrary: h s' and m0 rule: load_load_into.induct)
  case (1 m s)
  obtain a s1 where n: "new_map [] s = (a, s1)" by (rule prod.exhaust)
  note d = new_mapD [OF n]
  have wf: "list_all (\<lambda>kv. wf_val (snd kv)) m" "go_map m" using 1(2) by simp_all
  from 1(1) [OF n [symmetric] refl tree_empty [OF n] wf(1)] 1(3) n as_map_append [of "[]" m] wf(2)
  have r: "tree s' (HRef a) (GMap m)" "keeps_but {a} s1 s'" "\<And>q b. refs s' (HRef a) q b \<Longrightarrow> so_next s1 \<le> b \<or> refs s1 (HRef a) q b"
    and h: "h = HRef a" by auto
  have "keeps s s'" using keeps_trans [of "{}" s s1 "{a}" s' "{}"] d r(2) by auto
  moreover have "so_next s \<le> b" if "refs s' (HRef a) q b" for q b
    using r(3) [OF that] d by (cases q) (auto simp: refs_def)
  ultimately show ?case using r(1) h by blast
next
  case (4 a k v m s)
  obtain h s1 where l: "load v s = (h, s1)" by (rule prod.exhaust)
  have wf: "wf_val v" "list_all (\<lambda>kv. wf_val (snd kv)) m" using 4(4) by simp_all
  from 4(1) [OF wf(1) l] have h: "keeps s s1" "tree s1 h v" "\<And>q b. refs s1 h q b \<Longrightarrow> so_next s \<le> b" by auto
  let ?s = "put a k h s1"
  have t: "tree ?s (HRef a) (GMap (map_put m0 k v))" by (rule put_tree [OF 4(3) h(1,2)]) (use h(3) in blast)
  have w: "walk_store ?s (HRef a) (k' # q) = (if k' = k then walk_store s1 h q else walk_store s (HRef a) (k' # q))" for k' q
    by (rule put_walk [OF 4(3) h(1)]) (use h(3) in blast)
  let ?r = "load_into a m ?s"
  from 4(2) [OF l [symmetric] refl t wf(2)]
  have r: "tree ?r (HRef a) (GMap (as_map m (map_put m0 k v)))" "keeps_but {a} ?s ?r"
    "\<And>q b. refs ?r (HRef a) q b \<Longrightarrow> so_next s1 \<le> b \<or> refs ?s (HRef a) q b" by auto
  have "so_next s \<le> b \<or> refs s (HRef a) q b" if "refs ?r (HRef a) q b" for q b
  proof (cases q)
    case (Cons k' q')
    then show ?thesis using r(3) [OF that] h(1) h(3) [of q' b]
      by (auto simp: refs_def w keeps_but_def simp del: walk_store.simps(2) split: if_splits)
  qed (use that in \<open>simp add: refs_def\<close>)
  moreover have "keeps_but {a} s ?r"
    using keeps_trans [OF keeps_trans [OF h(1) keeps_put [of a s1 k h], of "{a}"] r(2), of "{a}"] by auto
  ultimately show ?case using r(1) l by (auto simp: as_map_Cons)
qed (auto simp: tree_HVal refs_def walk_store_HVal split: if_splits)

section \<open>Writing a leaf\<close>

lemma walk_put_leaf:
  assumes u: "unshared s v" and c: "refs s v pc c"
  shows "walk_store (put c k (HVal x) s) v q =
    (if prefix (pc @ [k]) q then (if q = pc @ [k] then Some (HVal x) else None) else walk_store s v q)"
proof (induction q rule: rev_induct)
  case (snoc seg q)
  let ?s = "put c k (HVal x) s"
  show ?case
  proof (cases "prefix (pc @ [k]) q")
    case True
    then have "walk_store ?s v (q @ [seg]) = None" and "q @ [seg] \<noteq> pc @ [k]"
      using snoc by (auto simp: walk_store_append prefix_def)
    with True show ?thesis by simp
  next
    case False
    then have q: "walk_store ?s v q = walk_store s v q" using snoc by simp
    show ?thesis
    proof (cases "\<exists>b. refs s v q b")
      case True
      then obtain b where b: "refs s v q b" by blast
      have "b = c \<longleftrightarrow> q = pc" using u c b unfolding unshared_def by (metis refs_def option.inject hval.inject(1))
      with False b q show ?thesis by (auto simp: refs_def walk_store_append put_def split: option.split)
    next
      case other: False
      with c have "q \<noteq> pc" by auto
      with False q other show ?thesis
        by (cases "walk_store s v q"; cases "the (walk_store s v q)") (auto simp: walk_store_append refs_def)
    qed
  qed
qed simp

lemma set_store_put:
  assumes "walk_store s (HRef a) p = Some (HVal w)"
  shows "\<exists>c. refs s (HRef a) (butlast p) c \<and> set_store a p v s = put c (last p) (HVal v) s"
  using assms
proof (induction a p v s rule: set_store.induct)
  case (3 a seg seg' segs v s)
  obtain x where x: "map_of (so_maps s a) seg = Some x" "walk_store s x (seg' # segs) = Some (HVal w)"
    using 3(2) by (auto split: option.splits simp del: walk_store.simps(3) split del: hval.splits)
  obtain b where "x = HRef b" using x(2) by (cases x) simp_all
  with 3(1) [OF x(1)] x show ?case by (simp add: refs_def)
qed (auto simp: refs_def split: option.splits)

text \<open>What a write at a leaf of one tree does to every path of any unshared reference that meets it.\<close>

lemma tree_put_string:
  assumes t: "tree s (HRef a) (GMap cfg)" and p: "walkValue (GMap cfg) p = Some (GStr w)" and c: "refs s (HRef a) (butlast p) c"
  shows "tree (put c (last p) (HVal (GStr v)) s) (HRef a) (GMap (setValue cfg p (GStr v)))"
    and "refs (put c (last p) (HVal (GStr v)) s) (HRef a) q b \<longleftrightarrow> refs s (HRef a) q b"
proof -
  let ?s = "put c (last p) (HVal (GStr v)) s"
  have ne: "p \<noteq> []" using p by auto
  have walk: "walk_store ?s (HRef a) q = (if prefix p q then (if q = p then Some (HVal (GStr v)) else None)
      else walk_store s (HRef a) q)" for q
    using walk_put_leaf [OF treeD(4) [OF t] c, of "last p" "GStr v" q] ne by simp
  have at: "walkValue (GMap (setValue cfg p (GStr v))) p = Some (GStr v)" using p ne by (simp add: walk_set_same)
  have below: "walkValue (GMap cfg) q = None" if "strict_prefix p q" for q
  proof -
    from that obtain k r where q: "q = p @ k # r" by (auto elim: strict_prefixE')
    with p walk_prefix_map [of "GMap cfg" p k r] show ?thesis by (cases "walkValue (GMap cfg) q") auto
  qed
  show rf: "refs ?s (HRef a) q b \<longleftrightarrow> refs s (HRef a) q b" for q b
  proof (cases "prefix p q")
    case True
    have "walk_store s (HRef a) q \<noteq> Some (HRef b)"
      using below [of q] matches_None [OF treeD(1) [OF t], of q] tree_string [OF t, of p w] p True
      by (cases "q = p") (auto simp: prefix_order.less_le)
    with True walk [of q] show ?thesis by (auto simp: refs_def)
  qed (simp add: refs_def walk)
  show "tree ?s (HRef a) (GMap (setValue cfg p (GStr v)))"
  proof (rule treeI)
    fix q
    consider "q = p" | "strict_prefix p q" | "strict_prefix q p" | "\<not> prefix p q" "\<not> prefix q p"
      by (metis prefix_order.le_less)
    then show "matches (walkValue (GMap (setValue cfg p (GStr v))) q) (walk_store ?s (HRef a) q)"
    proof cases
      case 2
      then obtain k r where q: "q = p @ k # r" by (auto elim: strict_prefixE')
      with at walk_prefix_map [of "GMap (setValue cfg p (GStr v))" p k r] have "walkValue (GMap (setValue cfg p (GStr v))) q = None"
        by (cases "walkValue (GMap (setValue cfg p (GStr v))) q") auto
      with walk 2 show ?thesis by (auto simp: q)
    next
      case 3
      then obtain k r where q: "p = q @ k # r" by (auto elim: strict_prefixE')
      obtain m m' where "walkValue (GMap (setValue cfg p (GStr v))) q = Some (GMap m)" "walkValue (GMap cfg) q = Some (GMap m')"
        using walk_prefix_map at p unfolding q by meson
      moreover have "\<not> prefix p q" using 3 by (meson prefix_order.leD)
      ultimately show ?thesis using walk treeD(1) [OF t, of q] by simp
    next
      case 4
      then have "walkValue (GMap (setValue cfg p (GStr v))) q = walkValue (GMap cfg) q" by (rule walk_set_other)
      with 4 walk treeD(1) [OF t, of q] show ?thesis by simp
    qed (use at walk in simp)
  qed (use rf treeD(2,3) [OF t] in auto)
qed

end
