(* ===== verification/Config_Sharing.thy ===== *)
theory Config_Sharing
  imports Config Map_Store
begin

text \<open>
  The same reload as in \<open>Config\<close>, with Go's maps as references into a store, because the maps of the
  effective configuration are partly the manifest's own: \<open>fetchMergedConfig\<close> copies only the top level
  and \<open>mergeConfigInto\<close> only the maps it merges. Decryption then writes through the shared maps.
  Shown: the map handed to the tool holds the effective configuration of \<open>Config\<close>, whatever the override;
  which maps of it are the manifest's; and what the manifest holds after the reload. The listener
  (configLoop) makes such a reload at every notification of its tool.
\<close>

section \<open>The reload\<close>

fun merge_store :: "nat \<Rightarrow> gmap \<Rightarrow> store \<Rightarrow> nat \<times> store" and merge_entries :: "nat \<Rightarrow> gmap \<Rightarrow> store \<Rightarrow> store" where
  "merge_store a b s = (let (out, s) = new_map (so_maps s a) s in (out, merge_entries out b s))"
| "merge_entries out [] s = s"
| "merge_entries out ((k, v) # b) s =
     (let (r, s) =
        (case v of
           GMap vmap \<Rightarrow>
             (case map_of (so_maps s out) k of
                Some (HRef existing) \<Rightarrow> (case merge_store existing vmap s of (r, s) \<Rightarrow> (HRef r, s))
              | _ \<Rightarrow> load v s)
         | _ \<Rightarrow> (HVal v, s))
      in merge_entries out b (put out k r s))"

text \<open>\<open>root\<close> is the map of the manifest's config.\<close>

definition fetchMergedConfig_store ::
  "(string \<Rightarrow> string option) \<Rightarrow> manifest \<Rightarrow> nat \<Rightarrow> db \<times> fault list \<Rightarrow> store \<Rightarrow> (nat \<times> store) \<times> db \<times> fault list" where
  "fetchMergedConfig_store num m root st s =
     (let (out, s) = new_map (so_maps s root) s;
          q = pgquery (\<lambda>d. map_of (db_configs d) (mf_Tool m)) st
      in (case fst q of
            Inr (Some raw) \<Rightarrow>
              (if raw = [] then (out, s)
               else case unmarshal_map num raw of
                 None \<Rightarrow> (out, s)
               | Some override \<Rightarrow> merge_store out override s)
          | _ \<Rightarrow> (out, s),
          snd q))"

fun decrypt_store :: "bytes \<Rightarrow> string list \<Rightarrow> nat \<Rightarrow> store \<Rightarrow> store" where
  "decrypt_store k [] a s = s"
| "decrypt_store k (path # paths) a s =
     (let segments = splitPath path in
      if segments = [] then decrypt_store k paths a s
      else case walk_store s (HRef a) segments of
        Some (HVal (GStr x)) \<Rightarrow>
          (if x = [] \<or> \<not> IsEncrypted x then decrypt_store k paths a s
           else case Decrypt k x of
             Inl e \<Rightarrow> decrypt_store k paths a s
           | Inr pt \<Rightarrow> decrypt_store k paths a (set_store a segments (GStr pt) s))
      | _ \<Rightarrow> decrypt_store k paths a s)"

definition decryptSecrets_store ::
  "(string \<Rightarrow> string) \<Rightarrow> string list \<Rightarrow> bytes option \<Rightarrow> nat \<Rightarrow> store \<Rightarrow> store \<times> bytes option" where
  "decryptSecrets_store getenv secrets cached a s =
     (if secrets = [] then (s, cached)
      else
        case (case cached of Some k \<Rightarrow> Inr k | None \<Rightarrow> LoadKeyFromEnv getenv) of
          Inl e \<Rightarrow> (s, cached)
        | Inr k \<Rightarrow> (decrypt_store k secrets a s, Some k))"

definition injectExternalLists_store ::
  "(bytes \<Rightarrow> (go_error, bytes) result) \<Rightarrow> externalListSpec list \<Rightarrow> nat \<Rightarrow> db \<times> fault list \<Rightarrow> store
   \<Rightarrow> store \<times> db \<times> fault list" where
  "injectExternalLists_store gunzip specs a st s =
     (if specs = [] then (s, st)
      else
        let r = fetch_lists gunzip specs [] st in
        (if fst r \<noteq> [] then (case load (GMap (fst r)) s of (v, s) \<Rightarrow> put a ''lists'' v s) else s, snd r))"

text \<open>The map the tool receives, the store and the cached key after the reload, and the connection.\<close>

definition reload_store ::
  "(string \<Rightarrow> string option) \<Rightarrow> (bytes \<Rightarrow> (go_error, bytes) result) \<Rightarrow> (string \<Rightarrow> string) \<Rightarrow> manifest
   \<Rightarrow> nat \<Rightarrow> bytes option \<Rightarrow> db \<times> fault list \<Rightarrow> store \<Rightarrow> nat \<times> store \<times> bytes option \<times> db \<times> fault list" where
  "reload_store num gunzip getenv m root cached st s =
     (let ((out, s), st) = fetchMergedConfig_store num m root st s;
          (s, key) = decryptSecrets_store getenv (mf_Secrets m) cached out s;
          (s, st) = injectExternalLists_store gunzip (mf_ExternalLists m) out st s
      in (out, s, key, st))"

section \<open>The listener\<close>

text \<open>
  What the reloads share: the store, the cached key, and the maps handed to the tool, each with the store at
  that moment.
\<close>

record config_state =
  cs_store :: store
  cs_key :: "bytes option"
  cs_given :: "(nat \<times> store) list"

text \<open>The listener ignores the error of \<open>ReloadConfig\<close>; the tool reads the map and keeps its own copies.\<close>

definition applyConfig_store ::
  "(string \<Rightarrow> string option) \<Rightarrow> (bytes \<Rightarrow> (go_error, bytes) result) \<Rightarrow> (string \<Rightarrow> string) \<Rightarrow> manifest
   \<Rightarrow> nat \<Rightarrow> db \<times> fault list \<Rightarrow> config_state \<Rightarrow> config_state" where
  "applyConfig_store num gunzip getenv m root st cs =
     (case reload_store num gunzip getenv m root (cs_key cs) st (cs_store cs) of
        (out, s, key, st') \<Rightarrow> \<lparr>cs_store = s, cs_key = key, cs_given = cs_given cs @ [(out, s)]\<rparr>)"

text \<open>
  What the listener meets: a notification with its payload and the database as the reload then finds it; a
  failed wait, with whether the context has ended, whether a new connection can be acquired and whether
  the new \<open>LISTEN\<close> succeeds (its error is ignored).
\<close>

datatype listen_event =
    Notified string "db \<times> fault list"
  | WaitFailed bool bool bool

text \<open>The state after the events, and whether the loop is still running.\<close>

fun listen_loop ::
  "(string \<Rightarrow> string option) \<Rightarrow> (bytes \<Rightarrow> (go_error, bytes) result) \<Rightarrow> (string \<Rightarrow> string) \<Rightarrow> manifest
   \<Rightarrow> nat \<Rightarrow> listen_event list \<Rightarrow> config_state \<Rightarrow> config_state \<times> bool" where
  "listen_loop num gunzip getenv m root [] cs = (cs, True)"
| "listen_loop num gunzip getenv m root (Notified payload st # es) cs =
     (if payload \<noteq> mf_Tool m then listen_loop num gunzip getenv m root es cs
      else listen_loop num gunzip getenv m root es (applyConfig_store num gunzip getenv m root st cs))"
| "listen_loop num gunzip getenv m root (WaitFailed ctx_done acquired listening # es) cs =
     (if ctx_done then (cs, False)
      else if \<not> acquired then (cs, False)
      else listen_loop num gunzip getenv m root es cs)"

definition configLoop ::
  "(string \<Rightarrow> string option) \<Rightarrow> (bytes \<Rightarrow> (go_error, bytes) result) \<Rightarrow> (string \<Rightarrow> string) \<Rightarrow> manifest
   \<Rightarrow> nat \<Rightarrow> bool \<Rightarrow> bool \<Rightarrow> listen_event list \<Rightarrow> config_state \<Rightarrow> config_state \<times> bool" where
  "configLoop num gunzip getenv m root acquired listening es cs =
     (if \<not> acquired then (cs, False) else if \<not> listening then (cs, False)
      else listen_loop num gunzip getenv m root es cs)"

section \<open>Merging\<close>

lemma tree_entry: "tree s (HRef a) (GMap m) \<Longrightarrow> matches (map_of m k) (map_of (so_maps s a) k)"
  using treeD(1) [of s "HRef a" "GMap m" "[k]"] by (simp split: option.splits)

lemma tree_entry_sub:
  assumes "tree s (HRef a) (GMap m)" and "map_of (so_maps s a) k = Some y" and "map_of m k = Some h"
  shows "tree s y h"
  by (rule tree_sub [OF assms(1), of "[k]"]) (use assms in simp_all)

lemma tree_root: "tree s (HRef a) g \<Longrightarrow> a < so_next s"
  using treeD(3) [of s "HRef a" g "[]" a] by (simp add: refs_def)

text \<open>A copy of one map: the maps below it are the same ones.\<close>

lemma copy_map:
  assumes t: "tree s (HRef a) (GMap m)" and n: "new_map (so_maps s a) s = (out, s')"
  shows "tree s' (HRef out) (GMap m)" and "tree s' (HRef a) (GMap m)"
    and "walk_store s' (HRef out) (k # q) = walk_store s (HRef a) (k # q)"
    and "walk_store s' (HRef a) q = walk_store s (HRef a) q" and "\<not> refs s (HRef a) q out"
proof -
  have k: "keeps s s'" "out = so_next s" "so_next s' = Suc out" "so_maps s' out = so_maps s a" using new_mapD [OF n] by auto
  have maps: "so_maps s' a = so_maps s a" using k(1) tree_root [OF t] by (simp add: keeps_but_def)
  show walk: "walk_store s' (HRef a) q = walk_store s (HRef a) q" for q by (rule tree_frame(2) [OF t k(1)]) simp
  show copy: "walk_store s' (HRef out) (k # q) = walk_store s (HRef a) (k # q)" for k q
    unfolding walk [symmetric] by (simp add: k(4) maps)
  show "tree s' (HRef a) (GMap m)" by (rule tree_frame(1) [OF t k(1)]) simp
  show fresh: "\<not> refs s (HRef a) q out" for q using treeD(3) [OF t] k(2) by blast
  have below: "refs s (HRef a) p b" if "refs s' (HRef out) p b" "p \<noteq> []" for p b
    using that copy by (cases p) (simp_all add: refs_def del: walk_store.simps(2))
  have top: "b = out" if "refs s' (HRef out) [] b" for b using that by (simp add: refs_def)
  show "tree s' (HRef out) (GMap m)"
  proof (rule treeI)
    show "matches (walkValue (GMap m) p) (walk_store s' (HRef out) p)" for p
      using treeD(1) [OF t, of p] copy by (cases p) simp_all
    show "p = q" if "refs s' (HRef out) p b" "refs s' (HRef out) q b" for p q b
      using that below top fresh treeD(2) [OF t] by (metis (full_types))
    show "b < so_next s'" if "refs s' (HRef out) p b" for p b
      using that below [of p b] top [of b] treeD(3) [OF t, of p b] k(2,3) by (cases "p = []") auto
  qed
qed

text \<open>Below the top of the merged map, a path the override does not set leads to the same map as before, every other to a new one.\<close>

definition merged_refs :: "gmap \<Rightarrow> (string list \<Rightarrow> nat \<Rightarrow> bool) \<Rightarrow> (string list \<Rightarrow> nat \<Rightarrow> bool) \<Rightarrow> nat \<Rightarrow> bool" where
  "merged_refs b before after n \<longleftrightarrow>
     (\<forall>q x. q \<noteq> [] \<longrightarrow> (if unset b q then after q x \<longleftrightarrow> before q x else after q x \<longrightarrow> n \<le> x))"

lemma merged_refsD:
  assumes "merged_refs b before after n" and "q \<noteq> []"
  shows "unset b q \<Longrightarrow> after q x \<longleftrightarrow> before q x" and "\<not> unset b q \<Longrightarrow> after q x \<Longrightarrow> n \<le> x"
  using assms by (simp_all add: merged_refs_def)

fun unset_in :: "gval \<Rightarrow> string list \<Rightarrow> bool" where
  "unset_in (GMap n) q = unset n q"
| "unset_in v q = False"

lemma unset_Cons: "unset b (k # q) = (case map_of b k of None \<Rightarrow> True | Some v \<Rightarrow> unset_in v q)"
  by (auto split: option.split gval.split)

lemma mergeConfigInto_Cons: "mergeConfigInto m ((k, v) # b) = mergeConfigInto (map_put m k (combine (map_of m k) v)) b"
  by (simp add: combine_def)

text \<open>The same for the value that the entry \<open>k\<close> of the map \<open>out\<close> receives.\<close>

definition entry_refs :: "gval \<Rightarrow> (string list \<Rightarrow> nat \<Rightarrow> bool) \<Rightarrow> (string list \<Rightarrow> nat \<Rightarrow> bool) \<Rightarrow> nat \<Rightarrow> bool" where
  "entry_refs v before after n \<longleftrightarrow>
     (\<forall>q x. if unset_in v q then after q x \<longleftrightarrow> before q x else after q x \<longrightarrow> n \<le> x)"

lemma load_entry:
  assumes t: "tree s (HRef out) (GMap m)" and "wf_val v" and l: "load v s = (x, s1)"
    and new: "\<nexists>n y. v = GMap n \<and> map_of (so_maps s out) k = Some (HRef y)"
  shows "keeps s s1 \<and> tree s1 x (combine (map_of m k) v)
    \<and> entry_refs v (\<lambda>q. refs s (HRef out) (k # q)) (refs s1 x) (so_next s)"
proof -
  have l: "keeps s s1" "tree s1 x v" "\<And>q c. refs s1 x q c \<Longrightarrow> so_next s \<le> c"
    using load_tree(1) [OF assms(2) l] by auto
  have "combine (map_of m k) v = v"
    using new matches_map [OF tree_entry [OF t, of k]] by (auto simp: combine_def split: gval.split option.split)
  moreover have "\<not> refs s1 x q c \<and> \<not> refs s (HRef out) (k # q) c" if u: "unset_in v q" for q c
  proof -
    obtain n where v: "v = GMap n" and n: "unset n q" using u by (cases v) auto
    have "refs s1 x q c \<Longrightarrow> False" using walk_unset [OF n] matches_None [OF treeD(1) [OF l(2), of q]] v by (simp add: refs_def)
    moreover have "refs s (HRef out) (k # q) c \<Longrightarrow> False"
    proof -
      assume "refs s (HRef out) (k # q) c"
      then obtain z where z: "map_of (so_maps s out) k = Some z" "walk_store s z q = Some (HRef c)"
        by (auto simp: refs_def split: option.splits)
      with new v obtain u where "z = HVal u" by (cases z) auto
      moreover have "q \<noteq> []" using n by auto
      ultimately show False using z(2) by (simp add: walk_store_HVal)
    qed
    ultimately show ?thesis by blast
  qed
  ultimately show ?thesis using l by (auto simp: entry_refs_def)
qed

lemma merge_entry:
  assumes y: "map_of (so_maps s out) k = Some (HRef y)" and "so_next s \<le> r"
    and p: "merged_refs n (refs s (HRef y)) (refs s1 (HRef r)) (so_next s)"
  shows "entry_refs (GMap n) (\<lambda>q. refs s (HRef out) (k # q)) (refs s1 (HRef r)) (so_next s)"
proof -
  have "if unset n q then refs s1 (HRef r) q c \<longleftrightarrow> refs s (HRef out) (k # q) c else refs s1 (HRef r) q c \<longrightarrow> so_next s \<le> c" for q c
  proof (cases "q = []")
    case False
    have "refs s (HRef out) (k # q) c \<longleftrightarrow> refs s (HRef y) q c" by (simp add: refs_def y)
    with merged_refsD [OF p False, of c] show ?thesis by auto
  qed (use assms(2) in \<open>simp add: refs_def\<close>)
  then show ?thesis by (simp add: entry_refs_def)
qed

lemma merged_refs_put:
  assumes w: "\<And>k' q. walk_store s2 (HRef out) (k' # q) = (if k' = k then walk_store s1 x q else walk_store s (HRef out) (k' # q))"
    and e: "entry_refs v (\<lambda>q. refs s (HRef out) (k # q)) (refs s1 x) (so_next s)" and le: "so_next s \<le> so_next s2"
    and b: "map_of b k = None" and r: "merged_refs b (refs s2 (HRef out)) after (so_next s2)"
  shows "merged_refs ((k, v) # b) (refs s (HRef out)) after (so_next s)"
  unfolding merged_refs_def
proof (intro allI impI)
  fix q :: "string list" and c assume "q \<noteq> []"
  note rD = merged_refsD [OF r this, of c]
  from \<open>q \<noteq> []\<close> obtain k' q' where q: "q = k' # q'" by (cases q) auto
  show "if unset ((k, v) # b) q then after q c \<longleftrightarrow> refs s (HRef out) q c else after q c \<longrightarrow> so_next s \<le> c"
  proof (cases "k' = k")
    case True
    then have "after q c \<longleftrightarrow> refs s1 x q' c" using rD(1) w [of k' q'] b q by (simp add: refs_def)
    with e q True show ?thesis by (simp add: entry_refs_def unset_Cons del: unset.simps)
  next
    case False
    have "refs s2 (HRef out) q c \<longleftrightarrow> refs s (HRef out) q c" using w [of k' q'] q False by (simp add: refs_def)
    moreover have "unset ((k, v) # b) q \<longleftrightarrow> unset b q" using q False by (simp add: unset_Cons del: unset.simps)
    ultimately show ?thesis using rD le by auto
  qed
qed

lemma merge_store_tree:
  "tree s (HRef a) (GMap m) \<Longrightarrow> wf_val (GMap b) \<Longrightarrow> merge_store a b s = (r, s') \<Longrightarrow>
     keeps s s' \<and> so_next s \<le> r \<and> tree s' (HRef r) (GMap (mergeConfigInto m b))
     \<and> merged_refs b (refs s (HRef a)) (refs s' (HRef r)) (so_next s)"
  "tree s (HRef out) (GMap m) \<Longrightarrow> wf_val (GMap b) \<Longrightarrow>
     keeps_but {out} s (merge_entries out b s) \<and> tree (merge_entries out b s) (HRef out) (GMap (mergeConfigInto m b))
     \<and> merged_refs b (refs s (HRef out)) (refs (merge_entries out b s) (HRef out)) (so_next s)"
proof (induction a b s and out b s arbitrary: m r s' and m rule: merge_store_merge_entries.induct)
  case (1 a b s)
  obtain out s1 where n: "new_map (so_maps s a) s = (out, s1)" by (rule prod.exhaust)
  note d = new_mapD [OF n] and c = copy_map [OF 1(2) n]
  from 1(1) [OF n [symmetric] refl c(1) 1(3)] 1(4) n
  have r: "r = out" "keeps_but {out} s1 s'" "tree s' (HRef out) (GMap (mergeConfigInto m b))"
    "merged_refs b (refs s1 (HRef out)) (refs s' (HRef out)) (so_next s1)" by auto
  have "refs s1 (HRef out) q x \<longleftrightarrow> refs s (HRef a) q x" if "q \<noteq> []" for q x
    using that c(3) by (cases q) (simp_all add: refs_def del: walk_store.simps(2))
  moreover have le: "so_next s \<le> so_next s1" using d by simp
  ultimately have "merged_refs b (refs s (HRef a)) (refs s' (HRef out)) (so_next s)"
    using r(4) le unfolding merged_refs_def by (simp split: if_splits) (meson order_trans)
  moreover have "keeps s s'" using keeps_trans [of "{}" s s1 "{out}" s' "{}"] d r(2) by auto
  ultimately show ?case using r(1,3) d by simp
next
  case (2 out s)
  moreover have "unset [] q" if "q \<noteq> []" for q using that by (cases q) simp_all
  ultimately show ?case by (simp add: merged_refs_def)
next
  case (3 out k v b s)
  let ?e = "case v of
           GMap vmap \<Rightarrow>
             (case map_of (so_maps s out) k of
                Some (HRef existing) \<Rightarrow> (case merge_store existing vmap s of (r, s) \<Rightarrow> (HRef r, s))
              | _ \<Rightarrow> load v s)
         | _ \<Rightarrow> (HVal v, s)"
  obtain x s1 where e: "?e = (x, s1)" by (rule prod.exhaust)
  have wf: "wf_val v" "wf_val (GMap b)" "map_of b k = None" using 3(4) by (simp_all add: map_of_eq_None_iff)
  have E: "keeps s s1 \<and> tree s1 x (combine (map_of m k) v)
      \<and> entry_refs v (\<lambda>q. refs s (HRef out) (k # q)) (refs s1 x) (so_next s)"
  proof (cases "\<exists>n y. v = GMap n \<and> map_of (so_maps s out) k = Some (HRef y)")
    case True
    then obtain n y where v: "v = GMap n" and y: "map_of (so_maps s out) k = Some (HRef y)" by blast
    obtain em where em: "map_of m k = Some (GMap em)" using matches_map [OF tree_entry [OF 3(3), of k]] y by blast
    obtain r where r: "merge_store y n s = (r, s1)" "x = HRef r" using e by (auto simp: v y split: prod.splits)
    from 3(1) [OF v y refl tree_entry_sub [OF 3(3) y em] _ r(1)] wf(1) v merge_entry [OF y, of r n s1]
    show ?thesis by (simp add: combine_def em r(2))
  next
    case False
    have "load v s = (x, s1)" using e False by (cases v) (auto split: option.splits hval.splits)
    from load_entry [OF 3(3) wf(1) this False] show ?thesis .
  qed
  then have ke: "keeps s s1" and tx: "tree s1 x (combine (map_of m k) v)"
    and rx: "\<And>q c. refs s1 x q c \<Longrightarrow> so_next s \<le> c \<or> refs s (HRef out) (k # q) c"
    by (auto simp: entry_refs_def split: if_splits)
  let ?s = "put out k x s1"
  have t: "tree ?s (HRef out) (GMap (map_put m k (combine (map_of m k) v)))" by (rule put_tree [OF 3(3) ke tx]) (rule rx)
  have w: "walk_store ?s (HRef out) (k' # q) = (if k' = k then walk_store s1 x q else walk_store s (HRef out) (k' # q))" for k' q
    by (rule put_walk [OF 3(3) ke]) (rule rx)
  have me: "merge_entries out ((k, v) # b) s = merge_entries out b ?s" using e by simp
  note ih = 3(2) [OF refl e [symmetric] t wf(2)]
  have "so_next s \<le> so_next ?s" using ke by (simp add: keeps_but_def)
  then have "merged_refs ((k, v) # b) (refs s (HRef out)) (refs (merge_entries out b ?s) (HRef out)) (so_next s)"
    using merged_refs_put [OF w _ _ wf(3)] E ih by blast
  moreover have "keeps_but {out} s (merge_entries out b ?s)"
    using keeps_trans [OF keeps_trans [OF ke keeps_put [of out s1 k x], of "{out}"] ih [THEN conjunct1], of "{out}"] by auto
  ultimately show ?case unfolding me mergeConfigInto_Cons using ih by blast
qed

section \<open>The merged map and the manifest\<close>

text \<open>
  The map at \<open>out\<close> holds \<open>cfg\<close>, the manifest's at \<open>root\<close> holds \<open>own\<close>; on the paths \<open>sh\<close> the maps are the same ones,
  and on no other path does \<open>out\<close> lead to a map of the manifest.
\<close>

definition sharing :: "store \<Rightarrow> nat \<Rightarrow> nat \<Rightarrow> gmap \<Rightarrow> gmap \<Rightarrow> (string list \<Rightarrow> bool) \<Rightarrow> bool" where
  "sharing s out root cfg own sh \<longleftrightarrow> tree s (HRef out) (GMap cfg) \<and> tree s (HRef root) (GMap own)
     \<and> (\<forall>q b. if sh q then refs s (HRef out) q b \<longleftrightarrow> refs s (HRef root) q b
             else refs s (HRef out) q b \<longrightarrow> (\<forall>q'. \<not> refs s (HRef root) q' b))"

lemma sharingD:
  assumes "sharing s out root cfg own sh"
  shows "tree s (HRef out) (GMap cfg)" and "tree s (HRef root) (GMap own)"
    and "sh q \<Longrightarrow> refs s (HRef out) q b \<longleftrightarrow> refs s (HRef root) q b"
    and "\<not> sh q \<Longrightarrow> refs s (HRef out) q b \<Longrightarrow> \<not> refs s (HRef root) q' b"
  using assms unfolding sharing_def by metis+

lemma sharing_cong:
  assumes "sharing s out root cfg own sh" and "tree s' (HRef out) (GMap cfg')" and "tree s' (HRef root) (GMap own')"
    and "\<And>q b. refs s' (HRef out) q b \<longleftrightarrow> refs s (HRef out) q b" and "\<And>q b. refs s' (HRef root) q b \<longleftrightarrow> refs s (HRef root) q b"
  shows "sharing s' out root cfg' own' sh"
  using assms unfolding sharing_def by simp

lemma walk_last:
  "p \<noteq> [] \<Longrightarrow> refs s (HRef a) (butlast p) c \<Longrightarrow> walk_store s (HRef a) p = map_of (so_maps s c) (last p)"
  using walk_store_append [of s "HRef a" "butlast p" "[last p]"] by (simp add: refs_def split: option.split)

lemma walk_parent: "walk_store s (HRef a) p = Some (HVal v) \<Longrightarrow> \<exists>c. refs s (HRef a) (butlast p) c"
  using set_store_put by blast

lemma sharing_string:
  assumes sh: "sharing s out root cfg own sh" and "p \<noteq> []" and "sh (butlast p)"
  shows "walkValue (GMap cfg) p = Some (GStr t) \<longleftrightarrow> walkValue (GMap own) p = Some (GStr t)"
proof -
  note d = sharingD [OF sh]
  have "walk_store s (HRef out) p = walk_store s (HRef root) p" if "refs s (HRef out) (butlast p) c" for c
    using walk_last [OF assms(2) that] walk_last [OF assms(2), of s root c] d(3) [OF assms(3)] that by simp
  moreover have "\<exists>c. refs s (HRef out) (butlast p) c" if "walk_store s (HRef root) p = Some (HVal (GStr t))"
    using walk_parent [OF that] d(3) [OF assms(3)] by blast
  ultimately have "walk_store s (HRef out) p = Some (HVal (GStr t)) \<longleftrightarrow> walk_store s (HRef root) p = Some (HVal (GStr t))"
    using walk_parent [of s out p "GStr t"] by metis
  then show ?thesis unfolding tree_string [OF d(1)] tree_string [OF d(2)] .
qed

lemma sharing_set:
  assumes sh: "sharing s out root cfg own sh" and p: "walkValue (GMap cfg) p = Some (GStr t)"
  shows "sharing (set_store out p (GStr v) s) out root (setValue cfg p (GStr v))
    (if sh (butlast p) then setValue own p (GStr v) else own) sh"
proof -
  note d = sharingD [OF sh]
  have ne: "p \<noteq> []" using p by auto
  obtain c where c: "refs s (HRef out) (butlast p) c" "set_store out p (GStr v) s = put c (last p) (HVal (GStr v)) s"
    using set_store_put tree_string [OF d(1), THEN iffD1, OF p] by blast
  note cfg = tree_put_string [OF d(1) p c(1), of v]
  show ?thesis
  proof (cases "sh (butlast p)")
    case True
    then have "walkValue (GMap own) p = Some (GStr t)" "refs s (HRef root) (butlast p) c"
      using p sharing_string [OF sh ne True] d(3) c(1) by blast+
    from tree_put_string [OF d(2) this, of v] cfg True show ?thesis unfolding c(2) by (auto intro: sharing_cong [OF sh])
  next
    case False
    have same: "walk_store (put c (last p) (HVal (GStr v)) s) (HRef root) q = walk_store s (HRef root) q" for q
      by (rule walk_put_unreached) (rule d(4) [OF False c(1)])
    have "tree (put c (last p) (HVal (GStr v)) s) (HRef root) (GMap own)"
      using d(2) unfolding tree_def unshared_def refs_def same by simp
    with cfg False show ?thesis unfolding c(2) by (auto intro: sharing_cong [OF sh] simp: refs_def [of _ "HRef root"] same)
  qed
qed

text \<open>One path of the loop: what it writes, if anything.\<close>

definition plain_of :: "bytes \<Rightarrow> gval option \<Rightarrow> string option" where
  "plain_of k v = (case v of
     Some (GStr x) \<Rightarrow> (if IsEncrypted x then (case Decrypt k x of Inl e \<Rightarrow> None | Inr pt \<Rightarrow> Some pt) else None)
   | _ \<Rightarrow> None)"

lemma field_step_plain:
  "field_step k path cfg =
     (case plain_of k (walkValue (GMap cfg) (splitPath path)) of
        Some pt \<Rightarrow> setValue cfg (splitPath path) (GStr pt) | None \<Rightarrow> cfg)"
  by (cases "splitPath path") (auto simp: field_step_def plain_of_def split: option.split gval.split sum.split)

lemma decrypt_store_plain:
  assumes "tree s (HRef a) (GMap cfg)"
  shows "decrypt_store k (path # paths) a s = decrypt_store k paths a
    (case plain_of k (walkValue (GMap cfg) (splitPath path)) of
       Some pt \<Rightarrow> set_store a (splitPath path) (GStr pt) s | None \<Rightarrow> s)"
proof (cases "\<exists>x. walkValue (GMap cfg) (splitPath path) = Some (GStr x)")
  case True
  then obtain x where x: "walkValue (GMap cfg) (splitPath path) = Some (GStr x)" by blast
  then have "walk_store s (HRef a) (splitPath path) = Some (HVal (GStr x))" "splitPath path \<noteq> []"
    using tree_string [OF assms] by auto
  then show ?thesis by (auto simp: x plain_of_def Let_def split: sum.split)
next
  case False
  then have "plain_of k (walkValue (GMap cfg) (splitPath path)) = None" by (auto simp: plain_of_def split: option.split gval.split)
  moreover have "walk_store s (HRef a) (splitPath path) \<noteq> Some (HVal (GStr x))" for x using False tree_string [OF assms] by blast
  ultimately show ?thesis by (auto simp: Let_def split: option.split hval.split gval.split)
qed

lemma plain_of_string: "plain_of k v = Some pt \<Longrightarrow> \<exists>x. v = Some (GStr x)"
  by (auto simp: plain_of_def split: option.splits gval.splits)

lemma plain_of_cong: "(\<And>t. v = Some (GStr t) \<longleftrightarrow> w = Some (GStr t)) \<Longrightarrow> plain_of k v = plain_of k w"
  by (cases "\<exists>t. v = Some (GStr t)") (auto simp: plain_of_def split: option.split gval.split)

lemma sharing_field:
  assumes sh: "sharing s out root cfg own sh"
  shows "sharing (case plain_of k (walkValue (GMap cfg) (splitPath path)) of
       Some pt \<Rightarrow> set_store out (splitPath path) (GStr pt) s | None \<Rightarrow> s) out root
    (field_step k path cfg) (if sh (butlast (splitPath path)) then field_step k path own else own) sh"
proof (cases "splitPath path = []")
  case True
  then show ?thesis using sh by (simp add: field_step_def plain_of_def)
next
  case False
  let ?p = "splitPath path"
  have "sh (butlast ?p) \<Longrightarrow> plain_of k (walkValue (GMap own) ?p) = plain_of k (walkValue (GMap cfg) ?p)"
    by (rule plain_of_cong) (use sharing_string [OF sh False] in blast)
  then show ?thesis
    using sh sharing_set [OF sh, of ?p] plain_of_string [of k "walkValue (GMap cfg) ?p"]
    by (auto simp: field_step_plain split: option.split)
qed

lemma sharing_decrypt:
  "sharing s out root cfg own sh \<Longrightarrow>
   sharing (decrypt_store k paths out s) out root (fold (field_step k) paths cfg)
     (fold (field_step k) (filter (\<lambda>path. sh (butlast (splitPath path))) paths) own) sh"
proof (induction paths arbitrary: s cfg own)
  case (Cons path paths)
  from Cons.IH [OF sharing_field [where k = k and path = path, OF Cons.prems]] show ?case
    unfolding decrypt_store_plain [OF sharingD(1) [OF Cons.prems]] by (auto split: if_splits)
qed simp

section \<open>The override\<close>

lemma fetchMergedConfig_store_override:
  "new_map (so_maps s root) s = (out, s1) \<Longrightarrow> fetchMergedConfig_store num m root st s =
     (case config_override num m st of None \<Rightarrow> (out, s1) | Some b \<Rightarrow> merge_store out b s1,
      snd (pgquery (\<lambda>d. map_of (db_configs d) (mf_Tool m)) st))"
  by (simp add: fetchMergedConfig_store_def config_override_def Let_def split: sum.split option.split)

text \<open>The paths on which the effective configuration and the manifest have their maps in common.\<close>

definition shared_path :: "gmap option \<Rightarrow> string list \<Rightarrow> bool" where
  "shared_path ov q = (case ov of None \<Rightarrow> q \<noteq> [] | Some b \<Rightarrow> unset b q)"

lemma sharing_fetch:
  assumes t: "tree s (HRef root) (GMap (mf_Config m))" and f: "fetchMergedConfig_store num m root st s = ((out, s'), st')"
  shows "sharing s' out root (fst (fetchMergedConfig num m st)) (mf_Config m) (shared_path (config_override num m st))"
    and "st' = snd (fetchMergedConfig num m st)"
proof -
  obtain a s1 where n: "new_map (so_maps s root) s = (a, s1)" by (rule prod.exhaust)
  note c = copy_map [OF t n] and f = f [unfolded fetchMergedConfig_store_override [OF n]]
  show "st' = snd (fetchMergedConfig num m st)" using f by (simp add: fetchMergedConfig_override)
  have same: "refs s1 (HRef root) q b \<longleftrightarrow> refs s (HRef root) q b" for q b by (simp add: refs_def c(4))
  have below: "refs s1 (HRef a) q b \<longleftrightarrow> refs s (HRef root) q b" if "q \<noteq> []" for q b
    using that c(3) by (cases q) (simp_all add: refs_def del: walk_store.simps(2))
  have top: "\<not> refs s (HRef root) q b" if "refs s1 (HRef a) [] b" for q b using that c(5) by (auto simp: refs_def)
  show "sharing s' out root (fst (fetchMergedConfig num m st)) (mf_Config m) (shared_path (config_override num m st))"
  proof (cases "config_override num m st")
    case None
    then have s': "out = a" "s' = s1" using f by simp_all
    have "if q \<noteq> [] then refs s1 (HRef a) q b \<longleftrightarrow> refs s1 (HRef root) q b
        else refs s1 (HRef a) q b \<longrightarrow> (\<forall>q'. \<not> refs s1 (HRef root) q' b)" for q b
      unfolding same using below top by simp
    then show ?thesis using c(1,2) None by (simp add: sharing_def s' fetchMergedConfig_override shared_path_def)
  next
    case (Some b)
    then have "merge_store a b s1 = (out, s')" using f by simp
    from merge_store_tree(1) [OF c(1) wf_override [OF Some] this]
    have k: "keeps s1 s'" "so_next s1 \<le> out" "tree s' (HRef out) (GMap (mergeConfigInto (mf_Config m) b))"
      and r: "merged_refs b (refs s1 (HRef a)) (refs s' (HRef out)) (so_next s1)" by auto
    have tr: "tree s' (HRef root) (GMap (mf_Config m))" "refs s' (HRef root) q x \<longleftrightarrow> refs s1 (HRef root) q x" for q x
      using tree_frame [OF c(2) k(1)] by (simp_all add: refs_def)
    have old: "\<not> refs s1 (HRef root) q x" if "so_next s1 \<le> x" for q x using treeD(3) [OF c(2), of q x] that by auto
    have "if unset b q then refs s' (HRef out) q x \<longleftrightarrow> refs s' (HRef root) q x
        else refs s' (HRef out) q x \<longrightarrow> (\<forall>q'. \<not> refs s' (HRef root) q' x)" for q x
    proof (cases "q = []")
      case True
      then show ?thesis using old [OF k(2)] by (auto simp: tr(2) refs_def [of _ "HRef out"])
    next
      case False
      show ?thesis using merged_refsD [OF r False, of x] below [OF False, of x] old [of x] by (auto simp: tr(2) same)
    qed
    then show ?thesis using k(3) tr(1) Some by (simp add: sharing_def fetchMergedConfig_override shared_path_def)
  qed
qed

section \<open>The lists\<close>

lemma wf_fetch_lists: "wf_val (GMap acc) \<Longrightarrow> wf_val (GMap (fst (fetch_lists gunzip specs acc st)))"
proof (induction gunzip specs acc st rule: fetch_lists.induct)
  case (2 gunzip l ls acc st)
  have "wf_val (GMap (map_put acc (el_Name l) (GMap [(''content'', GStr c), (''content_hash'', GStr h), (''status'', GStr t)])))" for c h t
    using 2(3) by (simp add: map_put_all)
  with 2 show ?case by (auto split: prod.splits sum.splits simp del: wf_val.simps)
qed simp

lemma sharing_inject:
  assumes sh: "sharing s out root cfg own sh" and top: "\<not> sh []"
    and i: "injectExternalLists_store gunzip specs out st s = (s', st')"
  shows "tree s' (HRef out) (GMap (fst (injectExternalLists gunzip specs cfg st))) \<and> tree s' (HRef root) (GMap own)
    \<and> st' = snd (injectExternalLists gunzip specs cfg st)"
proof -
  note d = sharingD [OF sh]
  let ?g = "GMap (fst (fetch_lists gunzip specs [] st))"
  show ?thesis
  proof (cases "specs = [] \<or> fst (fetch_lists gunzip specs [] st) = []")
    case False
    obtain h s1 where l: "load ?g s = (h, s1)" by (rule prod.exhaust)
    have s': "s' = put out ''lists'' h s1" "st' = snd (fetch_lists gunzip specs [] st)"
      using i False l by (simp_all add: injectExternalLists_store_def Let_def)
    from load_tree(1) [OF wf_fetch_lists l] have k: "keeps s s1" "tree s1 h ?g" "\<And>q b. refs s1 h q b \<Longrightarrow> so_next s \<le> b"
      by auto
    have "tree s' (HRef out) (GMap (map_put cfg ''lists'' ?g))"
      unfolding s' by (rule put_tree [OF d(1) k(1,2)]) (use k(3) in blast)
    moreover have "tree s' (HRef root) (GMap own)"
    proof (rule tree_frame(1) [OF d(2)])
      show "keeps_but {out} s s'" using keeps_trans [OF k(1) keeps_put [of out s1 "''lists''" h], of "{out}"] by (simp add: s')
      show "\<not> refs s (HRef root) q b" if "b \<in> {out}" for q b using that d(4) [OF top, of b] by (simp add: refs_def)
    qed
    ultimately show ?thesis using False by (simp add: injectExternalLists_def Let_def s'(2))
  qed (use i d in \<open>auto simp: injectExternalLists_store_def injectExternalLists_def Let_def\<close>)
qed

section \<open>A reload, and a sequence of them\<close>

text \<open>What the manifest's own map holds after a reload that ended with the given key.\<close>

definition manifest_after :: "gmap option \<Rightarrow> bytes option \<Rightarrow> manifest \<Rightarrow> gmap" where
  "manifest_after ov key m =
     (case key of
        None \<Rightarrow> mf_Config m
      | Some k \<Rightarrow> fold (field_step k) (filter (\<lambda>path. shared_path ov (butlast (splitPath path))) (mf_Secrets m)) (mf_Config m))"

lemma reload_tree:
  assumes t: "tree s (HRef root) (GMap (mf_Config m))"
    and r: "reload_store num gunzip getenv m root cached st s = (out, s', key, st')"
  shows "tree s' (HRef out) (GMap (fst (effective_config num gunzip getenv m cached st)))
    \<and> snd (effective_config num gunzip getenv m cached st) = (key, st')
    \<and> tree s' (HRef root) (GMap (manifest_after (config_override num m st) key m))"
proof -
  let ?sh = "shared_path (config_override num m st)" and ?cfg = "fst (fetchMergedConfig num m st)"
  obtain s1 st1 where f: "fetchMergedConfig_store num m root st s = ((out, s1), st1)"
    using r by (auto simp: reload_store_def split: prod.splits)
  note sh = sharing_fetch [OF t f]
  obtain s2 where d: "decryptSecrets_store getenv (mf_Secrets m) cached out s1 = (s2, key)"
    and i: "injectExternalLists_store gunzip (mf_ExternalLists m) out st1 s2 = (s', st')"
    using r f by (auto simp: reload_store_def split: prod.splits)
  have "sharing s2 out root (fst (decryptSecrets getenv (mf_Secrets m) cached ?cfg)) (manifest_after (config_override num m st) key m) ?sh
      \<and> snd (decryptSecrets getenv (mf_Secrets m) cached ?cfg) = key"
  proof (cases "mf_Secrets m = []")
    case True
    then show ?thesis using sh d by (auto simp: decryptSecrets_store_def decryptSecrets_def manifest_after_def split: option.split)
  next
    case False
    show ?thesis
    proof (cases "case cached of Some k \<Rightarrow> Inr k | None \<Rightarrow> LoadKeyFromEnv getenv")
      case (Inl e)
      moreover then have "cached = None" by (cases cached) simp_all
      ultimately show ?thesis using sh d False
        by (auto simp: decryptSecrets_store_def decryptSecrets_def manifest_after_def)
    next
      case (Inr k)
      then have "s2 = decrypt_store k (mf_Secrets m) out s1" "key = Some k" using d False by (auto simp: decryptSecrets_store_def)
      moreover have "fst (DecryptFields (Some ?cfg) (mf_Secrets m) k) = Some (fold (field_step k) (mf_Secrets m) ?cfg)"
        using False by (simp add: DecryptFields_def Let_def decrypt_loop_fst del: decrypt_loop.simps)
      ultimately show ?thesis using sharing_decrypt [OF sh(1)] Inr False by (simp add: decryptSecrets_def manifest_after_def)
    qed
  qed
  moreover have "\<not> ?sh []" by (simp add: shared_path_def split: option.split)
  ultimately show ?thesis using sharing_inject [OF _ _ i] sh(2)
    by (auto simp: effective_config_def Let_def prod_eq_iff)
qed

text \<open>The listener survives an event: it is a notification, or a failed wait after which it reconnects.\<close>

fun survives :: "listen_event \<Rightarrow> bool" where
  "survives (Notified p st) = True"
| "survives (WaitFailed ctx_done acquired listening) = (\<not> ctx_done \<and> acquired)"

text \<open>The databases that the notifications naming the tool find.\<close>

fun heard :: "string \<Rightarrow> listen_event list \<Rightarrow> (db \<times> fault list) list" where
  "heard tool [] = []"
| "heard tool (Notified p st # es) = (if p = tool then st # heard tool es else heard tool es)"
| "heard tool (WaitFailed ctx_done acquired listening # es) = heard tool es"

text \<open>What the tool should receive: the effective configurations, where each reload starts from what the last has left in the manifest.\<close>

fun deliveries ::
  "(string \<Rightarrow> string option) \<Rightarrow> (bytes \<Rightarrow> (go_error, bytes) result) \<Rightarrow> (string \<Rightarrow> string) \<Rightarrow> manifest
   \<Rightarrow> bytes option \<Rightarrow> (db \<times> fault list) list \<Rightarrow> gmap list" where
  "deliveries num gunzip getenv m cached [] = []"
| "deliveries num gunzip getenv m cached (st # sts) =
     (let r = effective_config num gunzip getenv m cached st;
          key = fst (snd r)
      in fst r # deliveries num gunzip getenv (m\<lparr>mf_Config := manifest_after (config_override num m st) key m\<rparr>) key sts)"

abbreviation delivered :: "(nat \<times> store) list \<Rightarrow> gmap list \<Rightarrow> bool" where
  "delivered \<equiv> list_all2 (\<lambda>(out, s) cfg. tree s (HRef out) (GMap cfg))"

lemma listen_loop_manifest:
  "listen_loop num gunzip getenv (m\<lparr>mf_Config := x\<rparr>) root es cs = listen_loop num gunzip getenv m root es cs"
proof (induction es arbitrary: cs)
  case (Cons e es)
  then show ?case
    by (cases e) (simp_all add: applyConfig_store_def reload_store_def fetchMergedConfig_store_def Let_def)
qed simp

lemma listen_loop_delivers:
  assumes "tree (cs_store cs) (HRef root) (GMap (mf_Config m))"
    and "listen_loop num gunzip getenv m root es cs = (cs', running)"
  shows "(running \<longleftrightarrow> list_all survives es) \<and> (\<exists>ds. cs_given cs' = cs_given cs @ ds
    \<and> delivered ds (deliveries num gunzip getenv m (cs_key cs) (heard (mf_Tool m) (takeWhile survives es))))"
  using assms
proof (induction es arbitrary: m cs)
  case (Cons e es)
  show ?case
  proof (cases "\<exists>st. e = Notified (mf_Tool m) st")
    case True
    then obtain st where e: "e = Notified (mf_Tool m) st" by blast
    obtain out s key st' where r: "reload_store num gunzip getenv m root (cs_key cs) st (cs_store cs) = (out, s, key, st')"
      by (rule prod_cases4)
    note t = reload_tree [OF Cons.prems(1) r]
    let ?m = "m\<lparr>mf_Config := manifest_after (config_override num m st) key m\<rparr>"
      and ?cs = "\<lparr>cs_store = s, cs_key = key, cs_given = cs_given cs @ [(out, s)]\<rparr>"
    have "listen_loop num gunzip getenv ?m root es ?cs = (cs', running)"
      using Cons.prems(2) by (simp add: e applyConfig_store_def r listen_loop_manifest)
    with Cons.IH [of ?cs ?m] t obtain ds where "running \<longleftrightarrow> list_all survives es" "cs_given cs' = cs_given cs @ (out, s) # ds"
      "delivered ds (deliveries num gunzip getenv ?m key (heard (mf_Tool m) (takeWhile survives es)))" by auto
    with t show ?thesis by (auto simp: e Let_def)
  next
    case False
    with Cons.IH [OF Cons.prems(1)] Cons.prems(2) show ?thesis by (cases e) (auto split: if_splits)
  qed
qed simp

section \<open>Properties\<close>


definition config0 :: gmap where
  "config0 = [(''api'', GMap [(''key'', GStr sealed0)])]"

text \<open>The store in which the manifest has been decoded.\<close>

definition store0 :: store where
  "store0 = snd (load (GMap config0) \<lparr>so_next = 0, so_maps = (\<lambda>_. [])\<rparr>)"

lemma tree0: "tree store0 (HRef 0) (GMap config0)"
proof -
  have "load (GMap config0) \<lparr>so_next = 0, so_maps = (\<lambda>_. [])\<rparr> = (HRef 0, store0)"
    unfolding store0_def by (simp add: new_map_def config0_def)
  from load_tree(1) [OF _ this] show ?thesis by (simp add: config0_def)
qed


text \<open>
  C5: the listener hands the tool one configuration for every notification that names it while the loop
  runs, and each is, as the store then holds it, the effective configuration that \<open>Config\<close> computes from
  the override in the database and the manifest as the reload before has left it. The loop is still running
  exactly when no event was the end of the context or a failed attempt to acquire a new connection; after
  such an event nothing is delivered, whatever is notified.
\<close>

theorem configLoop_delivers:
  assumes "tree (cs_store cs) (HRef root) (GMap (mf_Config m))" and "cs_given cs = []"
    and "configLoop num gunzip getenv m root acquired listening es cs = (cs', running)"
  shows "(running \<longleftrightarrow> acquired \<and> listening \<and> list_all survives es)
    \<and> delivered (cs_given cs') (deliveries num gunzip getenv m (cs_key cs)
        (if acquired \<and> listening then heard (mf_Tool m) (takeWhile survives es) else []))"
  using listen_loop_delivers [OF assms(1)] assms(2,3) by (fastforce simp: configLoop_def split: if_splits)

theorem configLoop_delivers_witness:
  "\<exists>s out. cs_given (fst (configLoop Some (\<lambda>_. Inr []) (\<lambda>_. [])
      ((manifest0 [])\<lparr>mf_Config := config0\<rparr>) 0 True True
      [Notified (mf_Tool (manifest0 [])) (empty_db, []), WaitFailed False False True, Notified (mf_Tool (manifest0 [])) (empty_db, [])]
      \<lparr>cs_store = store0, cs_key = None, cs_given = []\<rparr>)) = [(out, s)] \<and> tree s (HRef out) (GMap config0)"
proof -
  let ?m = "(manifest0 [])\<lparr>mf_Config := config0\<rparr>" and ?cs = "\<lparr>cs_store = store0, cs_key = None, cs_given = []\<rparr>"
  let ?es = "[Notified (mf_Tool (manifest0 [])) (empty_db, []), WaitFailed False False True, Notified (mf_Tool (manifest0 [])) (empty_db, [])]"
  obtain cs' running where c: "configLoop Some (\<lambda>_. Inr []) (\<lambda>_. []) ?m 0 True True ?es ?cs = (cs', running)"
    by (rule prod.exhaust)
  have "effective_config Some (\<lambda>_. Inr []) (\<lambda>_. []) ?m None (empty_db, []) = (config0, None, empty_db, [])"
    by (simp add: effective_config_def fetchMergedConfig_def decryptSecrets_def injectExternalLists_def Let_def
        pgquery_def empty_db_def manifest0_def)
  with configLoop_delivers [OF _ _ c] tree0 have "delivered (cs_given cs') [config0]" by (simp add: Let_def)
  then show ?thesis unfolding c by (auto simp: list_all2_Cons2)
qed

end
