(* ===== verification/Dns_Cache.thy ===== *)
theory Dns_Cache
  imports Prelude
begin

text \<open>
  The expiring LRU of package sdk/dns (cache.go: lru, get, put): a doubly linked list of entries, the
  most recently used first, and an index from keys to list elements. An element is a number, so that
  the index points into the list as the code's pointers do; every call of the clock is an argument.
  Shown: index and list stay consistent, the structure refines a plain recency list, and the contract
  \<open>ttl_cache\<close> that the caching resolver uses: a hit is the value of the latest put, not expired.
\<close>

section \<open>State and operations\<close>

record 'v lruEntry =
  le_key :: string
  le_value :: 'v
  le_expiresAt :: time

record 'v lru =
  lru_cap :: int
  lru_ll :: "(nat \<times> 'v lruEntry) list"
  lru_idx :: "(string \<times> nat) list"
  lru_next :: nat

definition newLRU :: "int \<Rightarrow> 'v lru" where
  "newLRU capacity = \<lparr>lru_cap = capacity, lru_ll = [], lru_idx = [], lru_next = 0\<rparr>"

text \<open>Package \<open>container/list\<close>: removing an element and moving it to the front.\<close>

definition ll_remove :: "nat \<Rightarrow> (nat \<times> 'a) list \<Rightarrow> (nat \<times> 'a) list" where
  "ll_remove el ll = filter (\<lambda>x. fst x \<noteq> el) ll"

definition ll_front :: "nat \<Rightarrow> (nat \<times> 'a) list \<Rightarrow> (nat \<times> 'a) list" where
  "ll_front el ll = filter (\<lambda>x. fst x = el) ll @ ll_remove el ll"

definition map_delete :: "'k \<Rightarrow> ('k \<times> 'v) list \<Rightarrow> ('k \<times> 'v) list" where
  "map_delete k m = filter (\<lambda>x. fst x \<noteq> k) m"

definition lru_get :: "time \<Rightarrow> string \<Rightarrow> 'v lru \<Rightarrow> 'v option \<times> 'v lru" where
  "lru_get now key c =
     (case map_of (lru_idx c) key of
        None \<Rightarrow> (None, c)
      | Some el \<Rightarrow>
          (case map_of (lru_ll c) el of
             None \<Rightarrow> (None, c)
           | Some e \<Rightarrow>
               (if now > le_expiresAt e
                then (None, c\<lparr>lru_ll := ll_remove el (lru_ll c), lru_idx := map_delete key (lru_idx c)\<rparr>)
                else (Some (le_value e), c\<lparr>lru_ll := ll_front el (lru_ll c)\<rparr>))))"

function lru_evict :: "'v lru \<Rightarrow> 'v lru" where
  "lru_evict c =
     (if int (length (lru_ll c)) > lru_cap c \<and> lru_ll c \<noteq> []
      then lru_evict (c\<lparr>lru_ll := butlast (lru_ll c),
             lru_idx := map_delete (le_key (snd (last (lru_ll c)))) (lru_idx c)\<rparr>)
      else c)"
  by pat_completeness auto
termination
  by (relation "measure (\<lambda>c. length (lru_ll c))") auto

declare lru_evict.simps [simp del]

definition lru_put :: "time \<Rightarrow> string \<Rightarrow> 'v \<Rightarrow> duration \<Rightarrow> 'v lru \<Rightarrow> 'v lru" where
  "lru_put now key v ttl c =
     (case map_of (lru_idx c) key of
        Some el \<Rightarrow>
          c\<lparr>lru_ll := ll_front el
              (map (\<lambda>x. if fst x = el then (fst x, (snd x)\<lparr>le_value := v, le_expiresAt := now + ttl\<rparr>) else x) (lru_ll c))\<rparr>
      | None \<Rightarrow>
          lru_evict (c\<lparr>lru_ll := (lru_next c, \<lparr>le_key = key, le_value = v, le_expiresAt = now + ttl\<rparr>) # lru_ll c,
                       lru_idx := map_put (lru_idx c) key (lru_next c),
                       lru_next := Suc (lru_next c)\<rparr>))"

section \<open>Consistency\<close>

definition lru_inv :: "'v lru \<Rightarrow> bool" where
  "lru_inv c \<longleftrightarrow> distinct (map fst (lru_ll c)) \<and> distinct (map (le_key \<circ> snd) (lru_ll c))
     \<and> go_map (lru_idx c)
     \<and> (\<forall>k el. map_of (lru_idx c) k = Some el \<longleftrightarrow> (\<exists>e. (el, e) \<in> set (lru_ll c) \<and> le_key e = k))
     \<and> (\<forall>x \<in> set (lru_ll c). fst x < lru_next c)"

text \<open>The recency list a cache stands for: key, value and expiry, the most recently used first.\<close>

definition lru_abs :: "'v lru \<Rightarrow> (string \<times> 'v \<times> time) list" where
  "lru_abs c = map (\<lambda>x. (le_key (snd x), le_value (snd x), le_expiresAt (snd x))) (lru_ll c)"

definition drop_key :: "string \<Rightarrow> (string \<times> 'a) list \<Rightarrow> (string \<times> 'a) list" where
  "drop_key k xs = filter (\<lambda>x. fst x \<noteq> k) xs"

definition spec_get :: "time \<Rightarrow> string \<Rightarrow> (string \<times> 'v \<times> time) list \<Rightarrow> 'v option \<times> (string \<times> 'v \<times> time) list" where
  "spec_get now k xs =
     (case map_of xs k of
        None \<Rightarrow> (None, xs)
      | Some (v, t) \<Rightarrow> if now > t then (None, drop_key k xs) else (Some v, (k, v, t) # drop_key k xs))"

definition spec_put :: "int \<Rightarrow> time \<Rightarrow> string \<Rightarrow> 'v \<Rightarrow> duration \<Rightarrow> (string \<times> 'v \<times> time) list \<Rightarrow> (string \<times> 'v \<times> time) list" where
  "spec_put cap now k v ttl xs =
     (if k \<in> fst ` set xs then (k, v, now + ttl) # drop_key k xs
      else take (nat cap) ((k, v, now + ttl) # xs))"

lemma map_of_delete [simp]: "map_of (map_delete k m) = (map_of m)(k := None)"
  by (induction m) (auto simp: map_delete_def fun_eq_iff)

lemma go_map_delete [simp]: "go_map m \<Longrightarrow> go_map (map_delete k m)"
  by (simp add: go_map_def map_delete_def distinct_map_filter)

lemma lru_invD:
  assumes "lru_inv c"
  shows "distinct (map fst (lru_ll c))" "distinct (map (le_key \<circ> snd) (lru_ll c))" "go_map (lru_idx c)"
    "\<And>k el. map_of (lru_idx c) k = Some el \<longleftrightarrow> (\<exists>e. (el, e) \<in> set (lru_ll c) \<and> le_key e = k)"
    "\<And>x. x \<in> set (lru_ll c) \<Longrightarrow> fst x < lru_next c"
  using assms by (auto simp: lru_inv_def)

lemma filter_distinct_key:
  assumes "distinct (map f xs)" and "x \<in> set xs"
  shows "filter (\<lambda>y. f y = f x) xs = [x]"
  using assms by (induction xs) (auto simp: filter_empty_conv image_iff)

text \<open>An indexed key names one element, whose entry carries the key.\<close>

lemma lru_entry:
  assumes "lru_inv c" and "map_of (lru_idx c) k = Some el"
  obtains e where "(el, e) \<in> set (lru_ll c)" and "le_key e = k" and "map_of (lru_ll c) el = Some e"
  using assms lru_invD(1,4) [OF assms(1)] by (metis map_of_eq_Some_iff)

text \<open>Dropping an element is dropping its key.\<close>

lemma drop_el_key:
  assumes "lru_inv c" and "(el, e) \<in> set (lru_ll c)" and "x \<in> set (lru_ll c)"
  shows "fst x = el \<longleftrightarrow> le_key (snd x) = le_key e"
proof -
  have "inj_on fst (set (lru_ll c))" and "inj_on (le_key \<circ> snd) (set (lru_ll c))"
    using lru_invD(1,2) [OF assms(1)] by (simp_all add: distinct_map)
  from inj_onD [OF this(1) _ assms(3,2)] inj_onD [OF this(2) _ assms(3,2)] show ?thesis
    by (cases x) auto
qed

lemma ll_front_eq:
  assumes "distinct (map fst ll)" and "(el, e) \<in> set ll"
  shows "ll_front el ll = (el, e) # ll_remove el ll"
  using filter_distinct_key [OF assms] by (simp add: ll_front_def)

lemma abs_remove:
  assumes "lru_inv c" and "(el, e) \<in> set (lru_ll c)"
  shows "lru_abs (c\<lparr>lru_ll := ll_remove el (lru_ll c)\<rparr>) = drop_key (le_key e) (lru_abs c)"
proof -
  have "filter (\<lambda>x. fst x \<noteq> el) (lru_ll c) = filter (\<lambda>x. le_key (snd x) \<noteq> le_key e) (lru_ll c)"
    using drop_el_key [OF assms] by (intro filter_cong) auto
  then show ?thesis by (simp add: lru_abs_def ll_remove_def drop_key_def filter_map o_def)
qed

lemma map_of_abs:
  assumes "lru_inv c"
  shows "map_of (lru_abs c) k = (case map_of (lru_idx c) k of
      None \<Rightarrow> None
    | Some el \<Rightarrow> map_option (\<lambda>e. (le_value e, le_expiresAt e)) (map_of (lru_ll c) el))"
proof (cases "map_of (lru_idx c) k")
  case None
  have "k \<notin> fst ` set (lru_abs c)"
  proof
    assume "k \<in> fst ` set (lru_abs c)"
    then obtain x where "x \<in> set (lru_ll c)" and "le_key (snd x) = k" by (auto simp: lru_abs_def)
    then have "map_of (lru_idx c) k = Some (fst x)" using lru_invD(4) [OF assms] by (metis prod.collapse)
    with None show False by simp
  qed
  then have "map_of (lru_abs c) k = None" by (simp add: map_of_eq_None_iff)
  then show ?thesis by (simp only: None option.simps)
next
  case (Some el)
  obtain e where e: "(el, e) \<in> set (lru_ll c)" "le_key e = k" "map_of (lru_ll c) el = Some e"
    using lru_entry [OF assms Some] .
  have "distinct (map fst (lru_abs c))"
    using lru_invD(2) [OF assms] by (simp add: lru_abs_def o_def)
  moreover have "(k, le_value e, le_expiresAt e) \<in> set (lru_abs c)"
    using e by (force simp: lru_abs_def)
  ultimately show ?thesis using Some e by simp
qed

lemma keys_abs: "lru_inv c \<Longrightarrow> k \<in> fst ` set (lru_abs c) \<longleftrightarrow> map_of (lru_idx c) k \<noteq> None"
proof -
  assume inv: "lru_inv c"
  have "k \<in> fst ` set (lru_abs c) \<longleftrightarrow> map_of (lru_abs c) k \<noteq> None"
    by (simp add: map_of_eq_None_iff)
  also have "\<dots> \<longleftrightarrow> map_of (lru_idx c) k \<noteq> None"
  proof (cases "map_of (lru_idx c) k")
    case (Some el)
    obtain e where "map_of (lru_ll c) el = Some e" using lru_entry [OF inv Some] .
    then show ?thesis by (simp add: map_of_abs [OF inv] Some)
  qed (simp only: map_of_abs [OF inv] option.simps simp_thms)
  finally show ?thesis .
qed

section \<open>The operations keep the cache consistent\<close>

lemma inv_new: "lru_inv (newLRU n)"
  by (simp add: lru_inv_def newLRU_def)

lemma inv_remove:
  assumes "lru_inv c" and "(el, e) \<in> set (lru_ll c)"
  shows "lru_inv (c\<lparr>lru_ll := ll_remove el (lru_ll c), lru_idx := map_delete (le_key e) (lru_idx c)\<rparr>)"
proof -
  have idx: "((map_of (lru_idx c))(le_key e := None)) k = Some el' \<longleftrightarrow>
      (\<exists>e'. (el', e') \<in> set (ll_remove el (lru_ll c)) \<and> le_key e' = k)" for k el'
  proof -
    have "(\<exists>e'. (el', e') \<in> set (ll_remove el (lru_ll c)) \<and> le_key e' = k)
        \<longleftrightarrow> k \<noteq> le_key e \<and> (\<exists>e'. (el', e') \<in> set (lru_ll c) \<and> le_key e' = k)"
      using drop_el_key [OF assms, of "(el', _)"] by (auto simp: ll_remove_def)
    then show ?thesis using lru_invD(4) [OF assms(1), of k el'] by auto
  qed
  show ?thesis
    using lru_invD [OF assms(1)] idx
    unfolding lru_inv_def by (simp add: ll_remove_def distinct_map_filter)
qed

lemma inv_perm:
  assumes "lru_inv c" and "distinct (map fst ll)" and "distinct (map (le_key \<circ> snd) ll)"
    and "(\<lambda>x. (fst x, le_key (snd x))) ` set ll = (\<lambda>x. (fst x, le_key (snd x))) ` set (lru_ll c)"
  shows "lru_inv (c\<lparr>lru_ll := ll\<rparr>)"
proof -
  have keys: "(\<exists>e. (el, e) \<in> set xs \<and> le_key e = k) \<longleftrightarrow> (el, k) \<in> (\<lambda>x. (fst x, le_key (snd x))) ` set xs"
    for el k and xs :: "(nat \<times> 'a lruEntry) list"
    by force
  have "fst ` set ll = fst ` set (lru_ll c)"
    using arg_cong [OF assms(4), of "\<lambda>s. fst ` s"] by (simp add: image_image)
  then have "\<forall>x \<in> set ll. fst x < lru_next c"
    using lru_invD(5) [OF assms(1)] by (metis (no_types, lifting) image_iff)
  then show ?thesis
    using lru_invD [OF assms(1)] assms(2-4) unfolding lru_inv_def by (simp add: keys)
qed

lemma front_props:
  assumes "distinct (map fst ll)" and "distinct (map (le_key \<circ> snd) ll)" and "(el, e) \<in> set ll"
  shows "distinct (map fst (ll_front el ll))" "distinct (map (le_key \<circ> snd) (ll_front el ll))"
    "set (ll_front el ll) = set ll"
proof -
  have s: "set (ll_front el ll) = set ll" by (auto simp: ll_front_def ll_remove_def)
  then show "set (ll_front el ll) = set ll" .
  have "length (ll_front el ll) = length ll"
    by (simp add: ll_front_def ll_remove_def sum_length_filter_compl)
  then show "distinct (map fst (ll_front el ll))" "distinct (map (le_key \<circ> snd) (ll_front el ll))"
    using assms s by (metis card_distinct distinct_card length_map set_map)+
qed

lemma inv_front:
  assumes "lru_inv c" and "(el, e) \<in> set (lru_ll c)"
  shows "lru_inv (c\<lparr>lru_ll := ll_front el (lru_ll c)\<rparr>)"
  using front_props [OF lru_invD(1,2) [OF assms(1)] assms(2)] inv_perm [OF assms(1)] by simp

lemma abs_front:
  assumes "lru_inv c" and "(el, e) \<in> set (lru_ll c)"
  shows "lru_abs (c\<lparr>lru_ll := ll_front el (lru_ll c)\<rparr>)
    = (le_key e, le_value e, le_expiresAt e) # drop_key (le_key e) (lru_abs c)"
  using ll_front_eq [OF lru_invD(1) [OF assms(1)] assms(2)] abs_remove [OF assms]
  by (simp add: lru_abs_def)

lemma get_refines:
  assumes "lru_inv c"
  shows "lru_inv (snd (lru_get now key c)) \<and> lru_cap (snd (lru_get now key c)) = lru_cap c
    \<and> fst (lru_get now key c) = fst (spec_get now key (lru_abs c))
    \<and> lru_abs (snd (lru_get now key c)) = snd (spec_get now key (lru_abs c))"
proof (cases "map_of (lru_idx c) key")
  case None
  have "map_of (lru_abs c) key = None" by (simp only: map_of_abs [OF assms] None option.simps)
  then show ?thesis
    using assms by (simp only: lru_get_def spec_get_def None option.simps fst_conv snd_conv)
next
  case (Some el)
  obtain e where e: "(el, e) \<in> set (lru_ll c)" "le_key e = key" "map_of (lru_ll c) el = Some e"
    using lru_entry [OF assms Some] .
  have abs: "map_of (lru_abs c) key = Some (le_value e, le_expiresAt e)"
    by (simp add: map_of_abs [OF assms] Some e)
  have "lru_abs (c\<lparr>lru_ll := l, lru_idx := i\<rparr>) = lru_abs (c\<lparr>lru_ll := l\<rparr>)" for l i
    by (simp add: lru_abs_def)
  then show ?thesis
    using inv_remove [OF assms e(1)] inv_front [OF assms e(1)] abs_remove [OF assms e(1)] abs_front [OF assms e(1)]
    by (simp add: lru_get_def spec_get_def Some e abs)
qed

lemma butlast_remove:
  "distinct (map fst ll) \<Longrightarrow> ll \<noteq> [] \<Longrightarrow> butlast ll = ll_remove (fst (last ll)) ll"
proof (induction ll rule: rev_induct)
  case (snoc x xs)
  then have "fst y \<noteq> fst x" if "y \<in> set xs" for y
    using that by (force simp: image_iff)
  then show ?case by (simp add: ll_remove_def filter_id_conv)
qed simp

lemma evict_refines:
  "lru_inv c \<Longrightarrow> lru_inv (lru_evict c) \<and> lru_cap (lru_evict c) = lru_cap c
    \<and> lru_abs (lru_evict c) = take (nat (lru_cap c)) (lru_abs c)"
proof (induction c rule: lru_evict.induct)
  case (1 c)
  show ?case
  proof (cases "int (length (lru_ll c)) > lru_cap c \<and> lru_ll c \<noteq> []")
    case True
    let ?c = "c\<lparr>lru_ll := butlast (lru_ll c), lru_idx := map_delete (le_key (snd (last (lru_ll c)))) (lru_idx c)\<rparr>"
    have in_ll: "(fst (last (lru_ll c)), snd (last (lru_ll c))) \<in> set (lru_ll c)" using True by simp
    have inv: "lru_inv ?c"
      using inv_remove [OF 1(2) in_ll] butlast_remove [OF lru_invD(1) [OF 1(2)]] True by simp
    have ev: "lru_evict c = lru_evict ?c" using True by (subst lru_evict.simps) simp
    have "lru_abs ?c = butlast (lru_abs c)" by (simp add: lru_abs_def map_butlast)
    moreover have "length (lru_abs c) > nat (lru_cap c)"
    proof -
      have "0 < length (lru_ll c)" using True by simp
      with True have "nat (lru_cap c) < length (lru_ll c)" by arith
      then show ?thesis by (simp add: lru_abs_def)
    qed
    ultimately have "take (nat (lru_cap c)) (lru_abs ?c) = take (nat (lru_cap c)) (lru_abs c)"
      by (simp add: butlast_conv_take min_def)
    with 1(1) [OF True inv] ev show ?thesis by simp
  next
    case False
    then have "length (lru_abs c) \<le> nat (lru_cap c)" by (auto simp: lru_abs_def)
    moreover have "lru_evict c = c" using False by (subst lru_evict.simps) auto
    ultimately show ?thesis using 1(2) by simp
  qed
qed

lemma push_refines:
  assumes "lru_inv c" and "map_of (lru_idx c) key = None"
  shows "lru_inv (c\<lparr>lru_ll := (lru_next c, \<lparr>le_key = key, le_value = v, le_expiresAt = t\<rparr>) # lru_ll c,
     lru_idx := map_put (lru_idx c) key (lru_next c), lru_next := Suc (lru_next c)\<rparr>)"
proof -
  have fresh: "lru_next c \<notin> fst ` set (lru_ll c)" using lru_invD(5) [OF assms(1)] by fastforce
  have new: "key \<notin> (le_key \<circ> snd) ` set (lru_ll c)"
  proof
    assume "key \<in> (le_key \<circ> snd) ` set (lru_ll c)"
    then obtain x where "x \<in> set (lru_ll c)" "le_key (snd x) = key" by auto
    then have "map_of (lru_idx c) key = Some (fst x)" using lru_invD(4) [OF assms(1)] by (metis prod.collapse)
    with assms(2) show False by simp
  qed
  have "map_of (map_put (lru_idx c) key (lru_next c)) k = Some el \<longleftrightarrow>
      (\<exists>e. (el, e) = (lru_next c, \<lparr>le_key = key, le_value = v, le_expiresAt = t\<rparr>) \<and> le_key e = k)
      \<or> (\<exists>e. (el, e) \<in> set (lru_ll c) \<and> le_key e = k)" for k el
  proof (cases "k = key")
    case True
    then have "\<not> (\<exists>e. (el, e) \<in> set (lru_ll c) \<and> le_key e = k)" using new by force
    then show ?thesis using True by auto
  next
    case False
    then show ?thesis using lru_invD(4) [OF assms(1), of k el] by auto
  qed
  then show ?thesis
    using lru_invD [OF assms(1)] fresh new unfolding lru_inv_def by (auto simp: less_Suc_eq)
qed

lemma update_refines:
  fixes c :: "'v lru" and v :: 'v and t :: time
  assumes "lru_inv c" and "(el, e) \<in> set (lru_ll c)"
  defines "l \<equiv> map (\<lambda>x. if fst x = el then (fst x, (snd x)\<lparr>le_value := v, le_expiresAt := t\<rparr>) else x) (lru_ll c)"
  shows "lru_inv (c\<lparr>lru_ll := ll_front el l\<rparr>)
    \<and> lru_abs (c\<lparr>lru_ll := ll_front el l\<rparr>) = (le_key e, v, t) # drop_key (le_key e) (lru_abs c)"
proof -
  have fst_l: "map fst l = map fst (lru_ll c)" and key_l: "map (le_key \<circ> snd) l = map (le_key \<circ> snd) (lru_ll c)"
    by (auto simp: l_def)
  have in_l: "(el, e\<lparr>le_value := v, le_expiresAt := t\<rparr>) \<in> set l"
    using assms(2) by (force simp: l_def)
  have "map (\<lambda>x. (fst x, le_key (snd x))) l = map (\<lambda>x. (fst x, le_key (snd x))) (lru_ll c)"
    by (auto simp: l_def)
  then have "(\<lambda>x. (fst x, le_key (snd x))) ` set l = (\<lambda>x. (fst x, le_key (snd x))) ` set (lru_ll c)"
    by (metis list.set_map)
  then have inv: "lru_inv (c\<lparr>lru_ll := l\<rparr>)"
    using lru_invD(1,2) [OF assms(1)] by (intro inv_perm [OF assms(1)]) (simp_all add: fst_l key_l)
  have rem: "ll_remove el l = ll_remove el (lru_ll c)"
    by (auto simp: l_def ll_remove_def filter_map o_def intro!: map_idI)
  have "drop_key (le_key e) (lru_abs (c\<lparr>lru_ll := l\<rparr>)) = drop_key (le_key e) (lru_abs c)"
    using abs_remove [OF inv, of el] in_l abs_remove [OF assms(1,2)] rem by simp
  then show ?thesis
    using inv_front [OF inv, of el] abs_front [OF inv, of el] in_l by simp
qed

lemma put_refines:
  assumes "lru_inv c"
  shows "lru_inv (lru_put now key v ttl c) \<and> lru_cap (lru_put now key v ttl c) = lru_cap c
    \<and> lru_abs (lru_put now key v ttl c) = spec_put (lru_cap c) now key v ttl (lru_abs c)"
proof (cases "map_of (lru_idx c) key")
  case None
  let ?c = "c\<lparr>lru_ll := (lru_next c, \<lparr>le_key = key, le_value = v, le_expiresAt = now + ttl\<rparr>) # lru_ll c,
     lru_idx := map_put (lru_idx c) key (lru_next c), lru_next := Suc (lru_next c)\<rparr>"
  have put: "lru_put now key v ttl c = lru_evict ?c" by (simp only: lru_put_def None option.simps)
  have "key \<notin> fst ` set (lru_abs c)" using keys_abs [OF assms] None by blast
  moreover have "lru_abs ?c = (key, v, now + ttl) # lru_abs c" by (simp add: lru_abs_def)
  ultimately show ?thesis
    using evict_refines [OF push_refines [OF assms None]] by (simp add: put spec_put_def)
next
  case (Some el)
  obtain e where e: "(el, e) \<in> set (lru_ll c)" "le_key e = key"
    using lru_entry [OF assms Some] .
  have "key \<in> fst ` set (lru_abs c)" using keys_abs [OF assms] Some by auto
  then show ?thesis
    using update_refines [OF assms e(1)] e(2) by (simp add: lru_put_def Some spec_put_def)
qed

section \<open>The contract of an expiring cache\<close>

text \<open>
  \<open>view c t k\<close> is what a lookup of \<open>k\<close> at time \<open>t\<close> would return. A lookup returns it and may only
  forget entries; a put makes its value visible until it expires and may only forget others.
\<close>

locale ttl_cache =
  fixes inv :: "'c \<Rightarrow> bool" and view :: "'c \<Rightarrow> time \<Rightarrow> string \<Rightarrow> 'v option"
    and getf :: "time \<Rightarrow> string \<Rightarrow> 'c \<Rightarrow> 'v option \<times> 'c"
    and putf :: "time \<Rightarrow> string \<Rightarrow> 'v \<Rightarrow> duration \<Rightarrow> 'c \<Rightarrow> 'c"
  assumes get_view: "inv c \<Longrightarrow> fst (getf now k c) = view c now k"
    and get_inv: "inv c \<Longrightarrow> inv (snd (getf now k c))"
    and get_forgets: "inv c \<Longrightarrow> view (snd (getf now k c)) t k' = Some v \<Longrightarrow> view c t k' = Some v"
    and put_inv: "inv c \<Longrightarrow> inv (putf now k v ttl c)"
    and put_view: "inv c \<Longrightarrow> view (putf now k v ttl c) t k = (if t \<le> now + ttl then Some v else None)"
    and put_forgets: "inv c \<Longrightarrow> k' \<noteq> k \<Longrightarrow> view (putf now k v ttl c) t k' = Some w \<Longrightarrow> view c t k' = Some w"

text \<open>A use of the cache: a lookup or a put, each atomic under the mutex, in any interleaving.\<close>

datatype 'v cache_op = Lookup time string | Store time string 'v duration

fun cache_run ::
  "(time \<Rightarrow> string \<Rightarrow> 'c \<Rightarrow> 'v option \<times> 'c) \<Rightarrow> (time \<Rightarrow> string \<Rightarrow> 'v \<Rightarrow> duration \<Rightarrow> 'c \<Rightarrow> 'c)
   \<Rightarrow> 'v cache_op list \<Rightarrow> 'c \<Rightarrow> 'c" where
  "cache_run getf putf [] c = c"
| "cache_run getf putf (Lookup now k # es) c = cache_run getf putf es (snd (getf now k c))"
| "cache_run getf putf (Store now k v ttl # es) c = cache_run getf putf es (putf now k v ttl c)"

text \<open>The value and expiry of the latest put of a key.\<close>

fun last_store :: "string \<Rightarrow> ('v \<times> time) option \<Rightarrow> 'v cache_op list \<Rightarrow> ('v \<times> time) option" where
  "last_store k acc [] = acc"
| "last_store k acc (Lookup now k' # es) = last_store k acc es"
| "last_store k acc (Store now k' v ttl # es) = last_store k (if k' = k then Some (v, now + ttl) else acc) es"

context ttl_cache
begin

lemma run_sound:
  assumes "inv c" and "\<And>t w. view c t k = Some w \<Longrightarrow> \<exists>x. acc = Some (w, x) \<and> t \<le> x"
    and "view (cache_run getf putf es c) t k = Some v"
  shows "\<exists>x. last_store k acc es = Some (v, x) \<and> t \<le> x"
  using assms
proof (induction es arbitrary: c acc)
  case Nil
  then show ?case by simp
next
  case (Cons e es)
  show ?case
  proof (cases e)
    case (Lookup now k')
    have "\<exists>x. last_store k acc es = Some (v, x) \<and> t \<le> x"
    proof (rule Cons.IH)
      show "inv (snd (getf now k' c))" using Cons.prems(1) by (rule get_inv)
      show "\<exists>x. acc = Some (w, x) \<and> s \<le> x" if "view (snd (getf now k' c)) s k = Some w" for s w
        using Cons.prems(2) get_forgets [OF Cons.prems(1) that] by blast
      show "view (cache_run getf putf es (snd (getf now k' c))) t k = Some v" using Cons.prems(3) Lookup by simp
    qed
    then show ?thesis by (simp add: Lookup)
  next
    case (Store now k' w ttl)
    have "\<exists>x. last_store k (if k' = k then Some (w, now + ttl) else acc) es = Some (v, x) \<and> t \<le> x"
    proof (rule Cons.IH)
      show "inv (putf now k' w ttl c)" using Cons.prems(1) by (rule put_inv)
      show "\<exists>x. (if k' = k then Some (w, now + ttl) else acc) = Some (u, x) \<and> s \<le> x"
        if "view (putf now k' w ttl c) s k = Some u" for s u
        using that Cons.prems(2) put_forgets [OF Cons.prems(1), of k k'] put_view [OF Cons.prems(1), of now k w ttl s]
        by (cases "k' = k") (auto split: if_splits)
      show "view (cache_run getf putf es (putf now k' w ttl c)) t k = Some v" using Cons.prems(3) Store by simp
    qed
    then show ?thesis by (simp add: Store)
  qed
qed

lemma run_inv: "inv c \<Longrightarrow> inv (cache_run getf putf es c)"
proof (induction es arbitrary: c)
  case (Cons e es)
  then show ?case by (cases e) (simp_all add: get_inv put_inv)
qed simp

end

section \<open>The LRU keeps the contract\<close>

definition lru_ok :: "'v lru \<Rightarrow> bool" where
  "lru_ok c \<longleftrightarrow> lru_inv c \<and> 1 \<le> lru_cap c"

definition lru_view :: "'v lru \<Rightarrow> time \<Rightarrow> string \<Rightarrow> 'v option" where
  "lru_view c t k = (case map_of (lru_abs c) k of None \<Rightarrow> None | Some (v, x) \<Rightarrow> if t \<le> x then Some v else None)"

lemma map_of_drop_key: "map_of (drop_key k xs) k' = (if k' = k then None else map_of xs k')"
  by (induction xs) (auto simp: drop_key_def)

lemma map_of_take: "distinct (map fst xs) \<Longrightarrow> map_of (take n xs) k = Some v \<Longrightarrow> map_of xs k = Some v"
  by (metis in_set_takeD map_of_SomeD map_of_is_SomeI)

lemma lru_abs_distinct: "lru_inv c \<Longrightarrow> distinct (map fst (lru_abs c))"
  using lru_invD(2) by (simp add: lru_abs_def o_def)

interpretation lru_cache: ttl_cache lru_ok lru_view lru_get lru_put
proof
  fix c :: "'v lru" and now t :: time and k k' :: string and v w :: 'v and ttl :: duration
  assume ok: "lru_ok c"
  then have inv: "lru_inv c" and cap: "1 \<le> lru_cap c" by (simp_all add: lru_ok_def)
  note get = get_refines [OF inv, of now k] and put = put_refines [OF inv, of now k v ttl]
  show "fst (lru_get now k c) = lru_view c now k"
    using get by (simp add: spec_get_def lru_view_def split: option.split)
  show "lru_ok (snd (lru_get now k c))" using get cap by (simp add: lru_ok_def)
  show "lru_ok (lru_put now k v ttl c)" using put cap by (simp add: lru_ok_def)
  show "lru_view (lru_put now k v ttl c) t k = (if t \<le> now + ttl then Some v else None)"
  proof -
    have "nat (lru_cap c) = Suc (nat (lru_cap c) - 1)" using cap by simp
    then have "map_of (spec_put (lru_cap c) now k v ttl (lru_abs c)) k = Some (v, now + ttl)"
      by (simp add: spec_put_def) (metis map_of_Cons_code(2) take_Suc_Cons)
    then show ?thesis using put by (simp add: lru_view_def)
  qed
  show "lru_view c t k' = Some w" if "lru_view (snd (lru_get now k c)) t k' = Some w"
    using that get by (auto simp: lru_view_def spec_get_def map_of_drop_key split: option.splits if_splits prod.splits)
  show "lru_view c t k' = Some w" if "k' \<noteq> k" and "lru_view (lru_put now k v ttl c) t k' = Some w"
  proof -
    have "map_of (lru_abs c) k' = Some y" if y: "map_of (spec_put (lru_cap c) now k v ttl (lru_abs c)) k' = Some y" for y
    proof (cases "k \<in> fst ` set (lru_abs c)")
      case True
      then show ?thesis using y \<open>k' \<noteq> k\<close> by (simp add: spec_put_def map_of_drop_key)
    next
      case False
      then have "distinct (map fst ((k, v, now + ttl) # lru_abs c))" using lru_abs_distinct [OF inv] by simp
      from map_of_take [OF this, of "nat (lru_cap c)" k' y] show ?thesis
        using y False \<open>k' \<noteq> k\<close> by (simp add: spec_put_def)
    qed
    then show ?thesis using that(2) put by (auto simp: lru_view_def split: option.splits)
  qed
qed

lemma new_ok: "1 \<le> n \<Longrightarrow> lru_ok (newLRU n)"
  by (simp add: lru_ok_def inv_new) (simp add: newLRU_def)

lemma view_new [simp]: "lru_view (newLRU n) t k = None"
  by (simp add: lru_view_def lru_abs_def newLRU_def)

section \<open>Properties\<close>

text \<open>
  C4: the linked list with its index refines a recency list: the operations keep index and list
  consistent, a lookup answers and reorders as the recency list does, and a put updates in place or
  inserts and keeps the most recently used entries up to the capacity.
\<close>

theorem lru_refines_recency_list:
  assumes "lru_inv c"
  shows "lru_inv (snd (lru_get now key c)) \<and> lru_inv (lru_put now key v ttl c)
    \<and> (fst (lru_get now key c), lru_abs (snd (lru_get now key c))) = spec_get now key (lru_abs c)
    \<and> lru_abs (lru_put now key v ttl c) = spec_put (lru_cap c) now key v ttl (lru_abs c)"
  using get_refines [OF assms, of now key] put_refines [OF assms, of now key v ttl] by (simp add: prod_eq_iff)

theorem lru_refines_recency_list_witness:
  "lru_abs (lru_put 2 ''b'' (20::nat) 9 (lru_put 1 ''a'' 10 9 (newLRU 1))) = [(''b'', 20, 11)]"
proof -
  have "lru_inv (lru_put 1 ''a'' (10::nat) 9 (newLRU 1))"
    by (rule conjunct1 [OF put_refines [OF inv_new]])
  from lru_refines_recency_list [OF this, of 2 "''b''" 20 9]
  have "lru_abs (lru_put 2 ''b'' 20 9 (lru_put 1 ''a'' (10::nat) 9 (newLRU 1)))
      = spec_put (lru_cap (lru_put 1 ''a'' (10::nat) 9 (newLRU 1))) 2 ''b'' 20 9
          (lru_abs (lru_put 1 ''a'' (10::nat) 9 (newLRU 1)))" by blast
  moreover have "lru_cap (lru_put 1 ''a'' (10::nat) 9 (newLRU 1)) = 1"
      and "lru_abs (lru_put 1 ''a'' (10::nat) 9 (newLRU 1)) = [(''a'', 10, 10)]"
    by code_simp+
  ultimately show ?thesis by (simp add: spec_put_def)
qed

text \<open>
  Whatever sequence of lookups and puts a cache of positive capacity has seen, a lookup returns
  only the value of the latest put of that key, and only while it is not expired.
\<close>

theorem cache_hit_is_latest_put:
  assumes "1 \<le> n" and "fst (lru_get now k (cache_run lru_get lru_put es (newLRU n))) = Some v"
  shows "\<exists>x. last_store k None es = Some (v, x) \<and> now \<le> x"
proof -
  have "lru_view (cache_run lru_get lru_put es (newLRU n)) now k = Some v"
    using assms(2) by (simp add: lru_cache.get_view [OF lru_cache.run_inv [OF new_ok [OF assms(1)]]])
  from lru_cache.run_sound [OF new_ok [OF assms(1)] _ this] show ?thesis by simp
qed

theorem cache_hit_is_latest_put_witness:
  "\<exists>x. last_store ''h'' None [Store 0 ''h'' (1::nat) 5, Lookup 2 ''h'', Store 3 ''h'' 2 5] = Some (2, x) \<and> 8 \<le> x"
  by (rule cache_hit_is_latest_put [of 1 8 "''h''"]) (simp, code_simp)

end
