(* ===== verification/Http.thy ===== *)
theory Http
  imports Json_Value
begin

text \<open>
  What the HTTP clients of the SDK share: the outcome of a round trip, query escaping, and how
  \<open>encoding/json\<close> matches the members of an object with the fields of a struct.
\<close>

section \<open>Requests\<close>

text \<open>
  The status and body of a response, an error of the transport, or a request that cannot be built
  because its URL is invalid.
\<close>

datatype http_outcome = BadRequest string | TransportError string | Response int bytes

text \<open>\<open>url.QueryEscape\<close>: unreserved bytes stay, a space becomes a plus, others are escaped.\<close>

definition unreserved :: "char \<Rightarrow> bool" where
  "unreserved c \<longleftrightarrow> in_range 97 122 c \<or> in_range 65 90 c \<or> in_range 48 57 c \<or> c \<in> set ''-_.~''"

definition upper_hex :: "nat \<Rightarrow> char" where
  "upper_hex n = ''0123456789ABCDEF'' ! (n mod 16)"

definition queryEscape :: "string \<Rightarrow> string" where
  "queryEscape s = concat (map (\<lambda>c.
     if c = CHR '' '' then ''+''
     else if unreserved c then [c]
     else [CHR ''%'', upper_hex (of_char c div 16), upper_hex (of_char c)]) s)"

section \<open>Structs from JSON\<close>

text \<open>
  \<open>foldName\<close>: a member names the field whose folded name is the same. Letters fold to upper case, and so
  do the long s and the Kelvin sign, the only runes beyond ASCII that fold to an ASCII letter.
\<close>

definition up :: "char \<Rightarrow> char" where
  "up c = (if in_range 97 122 c then char_of (of_char c - (32::nat)) else c)"

fun foldName :: "string \<Rightarrow> string" where
  "foldName [] = []"
| "foldName (c # s) =
     (if c = CHR 0xC5 \<and> take 1 s = [CHR 0xBF] then CHR ''S'' # foldName (drop 1 s)
      else if c = CHR 0xE2 \<and> take 2 s = [CHR 0x84, CHR 0xAA] then CHR ''K'' # foldName (drop 2 s)
      else up c # foldName s)"

definition names_field :: "string \<Rightarrow> string \<Rightarrow> bool" where
  "names_field key field \<longleftrightarrow> foldName key = foldName field"

text \<open>
  A string field: a string sets it, null leaves it, anything else is a type error, which is reported
  at the end while decoding goes on. The flag says that no type error has occurred.
\<close>

fun into_string :: "gval \<Rightarrow> string \<times> bool \<Rightarrow> string \<times> bool" where
  "into_string (GStr s) (old, ok) = (s, ok)"
| "into_string GNil (old, ok) = (old, ok)"
| "into_string _ (old, ok) = (old, False)"

end
