(* ===== verification/Json_Struct.thy ===== *)
theory Json_Struct
  imports Http Json_Roundtrip
begin

text \<open>
  How \<open>json.Decoder\<close> fills Go's structs: \<open>Decode\<close> reads the first value of a text and ignores what
  follows it, and stores its members into fields. A member of the wrong type leaves its field alone and
  is reported at the end. Fields do not influence each other, so each is filled by the members
  that name it, in their order.
\<close>

section \<open>The first value of a text\<close>

fun ended :: "expect \<Rightarrow> gval option" where
  "ended (ExpEnd v) = Some v"
| "ended e = None"

function first_value :: "frame list \<Rightarrow> expect \<Rightarrow> string \<Rightarrow> gval option" where
  "first_value st e s =
     (case ended e of
        Some v \<Rightarrow> Some v
      | None \<Rightarrow>
          (case dropWhile white s of
             [] \<Rightarrow> None
           | c # r \<Rightarrow>
               (case scan_token (c # r) of
                  None \<Rightarrow> None
                | Some (t, rest) \<Rightarrow>
                    (case step e t st of
                       None \<Rightarrow> None
                     | Some (st', e') \<Rightarrow> first_value st' e' rest))))"
  by pat_completeness auto
termination
proof (relation "measure (\<lambda>(st, e, s). length s)")
  have "length rest < length s" if "dropWhile white s = c # r" "scan_token (c # r) = Some (t, rest)" for s rest :: string and c r t
    using scan_token_shorter [OF that(2)] length_dropWhile_le [of white s] that(1) by auto
  then show "((st', e', rest), st, e, s) \<in> measure (\<lambda>(st, e, s). length s)"
    if "dropWhile white s = c # r" "scan_token (c # r) = Some x" "(t, rest) = x" for st' st :: "frame list" and e' e rest s c r t x
    using that by auto
qed simp

declare first_value.simps [simp del]

definition json_first :: "bytes \<Rightarrow> gval option" where
  "json_first s = first_value [] ExpValue s"

lemma machine_ended: "machine st e ts = Some v \<Longrightarrow> ended e = Some w \<Longrightarrow> v = w"
  by (cases e; cases ts) simp_all

lemma first_value_machine:
  "tokens s = Some ts \<Longrightarrow> machine st e ts = Some v \<Longrightarrow> first_value st e s = Some v"
proof (induction st e s arbitrary: ts rule: first_value.induct)
  case (1 st e s)
  show ?case
  proof (cases "ended e")
    case (Some w)
    with machine_ended [OF 1(3)] show ?thesis by (simp add: first_value.simps)
  next
    case e: None
    show ?thesis
    proof (cases "dropWhile white s")
      case Nil
      with 1(2) have "ts = []" by (subst (asm) tokens.simps) simp
      with 1(3) e show ?thesis by (cases e) simp_all
    next
      case (Cons c r)
      obtain t rest ts' where t: "scan_token (c # r) = Some (t, rest)" "tokens rest = Some ts'" "ts = t # ts'"
        using 1(2) Cons by (subst (asm) tokens.simps) (auto split: option.splits)
      obtain st' e' where st: "step e t st = Some (st', e')" "machine st' e' ts' = Some v"
        using 1(3) t(3) by (auto split: option.splits)
      have "first_value st' e' rest = Some v" by (rule 1(1) [OF e Cons t(1) refl st(1) refl t(2) st(2)])
      with e Cons t(1) st(1) show ?thesis by (subst first_value.simps) simp
    qed
  qed
qed

text \<open>On a text that is one value, the decoder and \<open>json.Unmarshal\<close> read the same.\<close>

lemma json_first_parse: "json_parse s = Some v \<Longrightarrow> json_first s = Some v"
  by (auto simp: json_parse_def json_first_def first_value_machine split: option.splits)

section \<open>Fields\<close>

definition field_values :: "(string \<times> gval) list \<Rightarrow> string \<Rightarrow> gval list" where
  "field_values ms name = map snd (filter (\<lambda>kv. names_field (fst kv) name) ms)"

fun into_bool :: "gval \<Rightarrow> bool \<times> bool \<Rightarrow> bool \<times> bool" where
  "into_bool (GBool b) (old, ok) = (b, ok)"
| "into_bool GNil (old, ok) = (old, ok)"
| "into_bool _ (old, ok) = (old, False)"

text \<open>A number is an \<open>int\<close> when its text is one that \<open>strconv.ParseInt\<close> reads.\<close>

fun into_int :: "gval \<Rightarrow> int \<times> bool \<Rightarrow> int \<times> bool" where
  "into_int (GFloat t) (old, ok) = (case atoi t of Some i \<Rightarrow> (i, ok) | None \<Rightarrow> (old, False))"
| "into_int GNil (old, ok) = (old, ok)"
| "into_int _ (old, ok) = (old, False)"

text \<open>
  A slice keeps its array when it is filled again: an element is stored over the old one at its index, and
  what lies beyond the new length stays for a third time. \<open>zero\<close> is the zero value of an element.
\<close>

fun into_elems :: "'a \<Rightarrow> (gval \<Rightarrow> 'a \<times> bool \<Rightarrow> 'a \<times> bool) \<Rightarrow> gval list \<Rightarrow> 'a list \<Rightarrow> bool \<Rightarrow> 'a list \<times> bool" where
  "into_elems zero elem [] old ok = ([], ok)"
| "into_elems zero elem (v # vs) old ok =
     (let (x, ok) = elem v (case old of [] \<Rightarrow> zero | y # _ \<Rightarrow> y, ok);
          (xs, ok) = into_elems zero elem vs (tl old) ok
      in (x # xs, ok))"

fun into_slice ::
  "'a \<Rightarrow> (gval \<Rightarrow> 'a \<times> bool \<Rightarrow> 'a \<times> bool) \<Rightarrow> gval \<Rightarrow> ('a list \<times> 'a list) \<times> bool \<Rightarrow> ('a list \<times> 'a list) \<times> bool" where
  "into_slice zero elem (GList vs) ((xs, rest), ok) =
     (if vs = [] then (([], []), ok)
      else let r = into_elems zero elem vs (xs @ rest) ok in ((fst r, drop (length vs) (xs @ rest)), snd r))"
| "into_slice zero elem GNil (old, ok) = (([], []), ok)"
| "into_slice zero elem _ (old, ok) = (old, False)"

text \<open>A field of a fresh struct, from the members that name it.\<close>

definition string_field :: "(string \<times> gval) list \<Rightarrow> string \<Rightarrow> string \<times> bool" where
  "string_field ms name = fold into_string (field_values ms name) ([], True)"

definition slice_field ::
  "'a \<Rightarrow> (gval \<Rightarrow> 'a \<times> bool \<Rightarrow> 'a \<times> bool) \<Rightarrow> (string \<times> gval) list \<Rightarrow> string \<Rightarrow> 'a list \<times> bool" where
  "slice_field zero elem ms name = apfst fst (fold (into_slice zero elem) (field_values ms name) (([], []), True))"

definition strings_field :: "(string \<times> gval) list \<Rightarrow> string \<Rightarrow> string list \<times> bool" where
  "strings_field = slice_field [] into_string"

text \<open>A value decoded into a struct: null leaves it zero, and only an object has members to store.\<close>

fun struct_members :: "gval \<Rightarrow> ((string \<times> gval) list \<times> bool)" where
  "struct_members (GMap ms) = (ms, True)"
| "struct_members GNil = ([], True)"
| "struct_members _ = ([], False)"

definition json_decode :: "(gval \<Rightarrow> 'a \<times> bool) \<Rightarrow> bytes \<Rightarrow> 'a option" where
  "json_decode f body =
     (case json_first body of
        None \<Rightarrow> None
      | Some v \<Rightarrow> (let r = f v in if snd r then Some (fst r) else None))"

lemma into_elems_strings: "into_elems [] into_string (map GStr xs) old ok = (xs, ok)"
  by (induction xs arbitrary: old) simp_all

lemma strings_field_single:
  assumes "field_values ms name = [GList (map GStr xs)]"
  shows "strings_field ms name = (xs, True)"
  using assms by (auto simp: strings_field_def slice_field_def into_elems_strings Let_def)

end
