(* ===== verification/Dns_Wire.thy ===== *)
theory Dns_Wire
  imports Json_Struct
begin

text \<open>
  The answers of the dns-service as the client reads them: the structs of sdk/dns with their JSON names, and
  how a response body fills them. How \<open>time.Time\<close> reads a timestamp is a parameter.
\<close>

section \<open>Records\<close>

record mx =
  mx_Priority :: int
  mx_Host :: string

record dns_records =
  dr_Host :: string
  dr_A :: "string list"
  dr_AAAA :: "string list"
  dr_CNAME :: string
  dr_MX :: "mx list"
  dr_NS :: "string list"
  dr_TXT :: "string list"
  dr_NXDomain :: bool
  dr_Degraded :: bool
  dr_QueriedAt :: time
  dr_ValidUntil :: time

record bulkResolution =
  bu_Host :: string
  bu_A :: "string list"
  bu_AAAA :: "string list"
  bu_CNAME :: string
  bu_Error :: string

section \<open>Decoding\<close>

text \<open>The body of an error response; its decoding errors are ignored.\<close>

definition err_resp :: "bytes \<Rightarrow> string" where
  "err_resp body =
     (case json_first body of
        None \<Rightarrow> []
      | Some v \<Rightarrow> fst (string_field (fst (struct_members v)) ''error''))"

definition resolve_resp :: "gval \<Rightarrow> (string list \<times> string list) \<times> bool" where
  "resolve_resp v =
     (let (ms, ok) = struct_members v; a = strings_field ms ''a''; aaaa = strings_field ms ''aaaa''
      in ((fst a, fst aaaa), ok \<and> snd a \<and> snd aaaa))"

definition cname_resp :: "gval \<Rightarrow> string \<times> bool" where
  "cname_resp v = (let (ms, ok) = struct_members v; c = string_field ms ''cname'' in (fst c, ok \<and> snd c))"

definition txt_resp :: "gval \<Rightarrow> string list \<times> bool" where
  "txt_resp v = (let (ms, ok) = struct_members v; t = strings_field ms ''txt'' in (fst t, ok \<and> snd t))"

definition ns_resp :: "gval \<Rightarrow> string list \<times> bool" where
  "ns_resp v = (let (ms, ok) = struct_members v; n = strings_field ms ''ns'' in (fst n, ok \<and> snd n))"

definition into_mx :: "gval \<Rightarrow> mx \<times> bool \<Rightarrow> mx \<times> bool" where
  "into_mx v r =
     (let (ms, ok) = struct_members v;
          p = fold into_int (field_values ms ''priority'') (mx_Priority (fst r), True);
          h = fold into_string (field_values ms ''host'') (mx_Host (fst r), True)
      in (\<lparr>mx_Priority = fst p, mx_Host = fst h\<rparr>, snd r \<and> ok \<and> snd p \<and> snd h))"

definition mx_field :: "(string \<times> gval) list \<Rightarrow> string \<Rightarrow> mx list \<times> bool" where
  "mx_field = slice_field \<lparr>mx_Priority = 0, mx_Host = []\<rparr> into_mx"

definition mx_resp :: "gval \<Rightarrow> mx list \<times> bool" where
  "mx_resp v = (let (ms, ok) = struct_members v; m = mx_field ms ''mx'' in (fst m, ok \<and> snd m))"

text \<open>\<open>time.Time\<close> reads a string and ignores null; any other value is an error.\<close>

fun into_time :: "(string \<Rightarrow> time option) \<Rightarrow> gval \<Rightarrow> time \<times> bool \<Rightarrow> time \<times> bool" where
  "into_time parse (GStr s) (old, ok) = (case parse s of Some t \<Rightarrow> (t, ok) | None \<Rightarrow> (old, False))"
| "into_time parse GNil (old, ok) = (old, ok)"
| "into_time parse _ (old, ok) = (old, False)"

definition records_resp :: "(string \<Rightarrow> time option) \<Rightarrow> gval \<Rightarrow> dns_records \<times> bool" where
  "records_resp parse v =
     (let (ms, ok) = struct_members v;
          host = string_field ms ''host''; a = strings_field ms ''a''; aaaa = strings_field ms ''aaaa'';
          cname = string_field ms ''cname''; m = mx_field ms ''mx''; ns = strings_field ms ''ns''; txt = strings_field ms ''txt'';
          nx = fold into_bool (field_values ms ''nxdomain'') (False, True);
          dg = fold into_bool (field_values ms ''degraded'') (False, True);
          q = fold (into_time parse) (field_values ms ''queried_at'') (0, True);
          u = fold (into_time parse) (field_values ms ''valid_until'') (0, True)
      in (\<lparr>dr_Host = fst host, dr_A = fst a, dr_AAAA = fst aaaa, dr_CNAME = fst cname, dr_MX = fst m, dr_NS = fst ns,
           dr_TXT = fst txt, dr_NXDomain = fst nx, dr_Degraded = fst dg, dr_QueriedAt = fst q, dr_ValidUntil = fst u\<rparr>,
          ok \<and> list_all id [snd host, snd a, snd aaaa, snd cname, snd m, snd ns, snd txt, snd nx, snd dg, snd q, snd u]))"

definition zero_bulk :: bulkResolution where
  "zero_bulk = \<lparr>bu_Host = [], bu_A = [], bu_AAAA = [], bu_CNAME = [], bu_Error = []\<rparr>"

text \<open>An element of a bulk answer: the array it is stored into is new, so the element is zero before.\<close>

definition into_bulk :: "gval \<Rightarrow> bulkResolution \<times> bool \<Rightarrow> bulkResolution \<times> bool" where
  "into_bulk v r =
     (let (ms, ok) = struct_members v;
          host = string_field ms ''host''; a = strings_field ms ''a''; aaaa = strings_field ms ''aaaa'';
          cname = string_field ms ''cname''; err = string_field ms ''error''
      in (\<lparr>bu_Host = fst host, bu_A = fst a, bu_AAAA = fst aaaa, bu_CNAME = fst cname, bu_Error = fst err\<rparr>,
          snd r \<and> ok \<and> list_all id [snd host, snd a, snd aaaa, snd cname, snd err]))"

definition bulk_resp :: "gval \<Rightarrow> bulkResolution list \<times> bool" where
  "bulk_resp v = apfst fst (into_slice zero_bulk into_bulk v (([], []), True))"

end
