(* ===== verification/Dns.thy ===== *)
theory Dns
  imports Dns_Cache Dns_Wire
begin

text \<open>
  Package sdk/dns: records, the resolver interface, the caching resolver on top of the LRU
  (cache.go), the backend on the system resolver (local.go), the backend on the dns-service with its
  fallback (remote.go), the assembly of the chain and the process-wide resolver (options.go, dns.go) and
  the bulk calls (pushback.go). The system resolver, the HTTP transport, the parsing of addresses and
  timestamps and an unstable sort are parameters. An address is its text and whether it is an IPv4 address.
  A call returns a value or an error; the value a method of remote.go returns beside its call of
  callOrFallback is read after that call, as the gc compiler orders it.
  Shown: what a cached answer is, when the fallback is asked, that mail exchangers of the system
  resolver come sorted, and how errors are mapped.
\<close>

section \<open>Records and errors\<close>

record ip_addr =
  ip_is4 :: bool
  ip_text :: string

definition Records_IPs :: "dns_records \<Rightarrow> string list" where
  "Records_IPs r = dr_A r @ dr_AAAA r"

definition Records_Resolves :: "dns_records \<Rightarrow> bool" where
  "Records_Resolves r \<longleftrightarrow> length (dr_A r) > 0 \<or> length (dr_AAAA r) > 0"

text \<open>
  The errors of the package, an error of the service with its text, and what the standard library
  returns: a \<open>*net.DNSError\<close> with its address and its two flags, or another error, each possibly wrapped.
\<close>

datatype dns_error =
    ErrNXDomain
  | ErrTimeout
  | ErrServiceUnavailable string
  | ServiceError string
  | NetDNSError nat bool bool string
  | OtherError string "dns_error option"

text \<open>\<open>errors.Is (err, ErrNXDomain)\<close> and \<open>errors.As\<close> with a \<open>*net.DNSError\<close> target.\<close>

fun IsNXDomain :: "dns_error \<Rightarrow> bool" where
  "IsNXDomain ErrNXDomain = True"
| "IsNXDomain (OtherError _ (Some e)) = IsNXDomain e"
| "IsNXDomain _ = False"

fun as_DNSError :: "dns_error \<Rightarrow> (bool \<times> bool) option" where
  "as_DNSError (NetDNSError p nf to t) = Some (nf, to)"
| "as_DNSError (OtherError _ (Some e)) = as_DNSError e"
| "as_DNSError _ = None"

definition mapErr :: "dns_error \<Rightarrow> dns_error" where
  "mapErr err =
     (case as_DNSError err of
        Some (notFound, timeout) \<Rightarrow> if notFound then ErrNXDomain else if timeout then ErrTimeout else err
      | None \<Rightarrow> err)"

text \<open>The interface every backend implements, at one moment.\<close>

record resolver =
  rs_Resolve :: "string \<Rightarrow> (dns_error, ip_addr list) result"
  rs_ResolveAll :: "string \<Rightarrow> (dns_error, dns_records) result"
  rs_LookupCNAME :: "string \<Rightarrow> (dns_error, string) result"
  rs_LookupMX :: "string \<Rightarrow> (dns_error, mx list) result"
  rs_LookupTXT :: "string \<Rightarrow> (dns_error, string list) result"
  rs_LookupNS :: "string \<Rightarrow> (dns_error, string list) result"

section \<open>The caching resolver\<close>

record cachingResolver =
  cr_ttl :: duration
  cr_cap :: int
  cr_resolve :: "ip_addr list lru"
  cr_resolveAll :: "dns_records lru"
  cr_cname :: "string lru"
  cr_mx :: "mx list lru"
  cr_txt :: "string list lru"
  cr_ns :: "string list lru"

definition newCachingResolver :: "duration \<Rightarrow> int \<Rightarrow> cachingResolver" where
  "newCachingResolver ttl capacity =
     (let ttl = (if ttl \<le> 0 then 5 * Minute else ttl); capacity = (if capacity \<le> 0 then 4096 else capacity) in
      \<lparr>cr_ttl = ttl, cr_cap = capacity, cr_resolve = newLRU capacity, cr_resolveAll = newLRU capacity,
       cr_cname = newLRU capacity, cr_mx = newLRU capacity, cr_txt = newLRU capacity, cr_ns = newLRU capacity\<rparr>)"

text \<open>
  One cached call: the lookup at \<open>now\<close>, on a miss the inner resolver, and the put of its answer at
  \<open>now'\<close> with the lifetime \<open>ttl_of\<close> gives it.
\<close>

definition cached ::
  "time \<Rightarrow> time \<Rightarrow> ('v \<Rightarrow> duration) \<Rightarrow> (dns_error, 'v) result \<Rightarrow> string \<Rightarrow> 'v lru
   \<Rightarrow> (dns_error, 'v) result \<times> 'v lru" where
  "cached now now' ttl_of inner host c =
     (case lru_get now host c of
        (Some v, c') \<Rightarrow> (Inr v, c')
      | (None, c') \<Rightarrow>
          (case inner of
             Inl e \<Rightarrow> (Inl e, c')
           | Inr v \<Rightarrow> (Inr v, lru_put now' host v (ttl_of v) c')))"

definition resolveAll_ttl :: "duration \<Rightarrow> time \<Rightarrow> dns_records \<Rightarrow> duration" where
  "resolveAll_ttl ttl now v =
     (if dr_ValidUntil v \<noteq> 0
      then (let d = time_Sub (dr_ValidUntil v) now in if d > 0 \<and> d < ttl then d else ttl)
      else ttl)"

definition cached_Resolve ::
  "time \<Rightarrow> time \<Rightarrow> resolver \<Rightarrow> string \<Rightarrow> cachingResolver \<Rightarrow> (dns_error, ip_addr list) result \<times> cachingResolver" where
  "cached_Resolve now now' inner host r =
     (let x = cached now now' (\<lambda>_. cr_ttl r) (rs_Resolve inner host) host (cr_resolve r) in (fst x, r\<lparr>cr_resolve := snd x\<rparr>))"

definition cached_ResolveAll ::
  "time \<Rightarrow> time \<Rightarrow> resolver \<Rightarrow> string \<Rightarrow> cachingResolver \<Rightarrow> (dns_error, dns_records) result \<times> cachingResolver" where
  "cached_ResolveAll now now' inner host r =
     (let x = cached now now' (resolveAll_ttl (cr_ttl r) now') (rs_ResolveAll inner host) host (cr_resolveAll r)
      in (fst x, r\<lparr>cr_resolveAll := snd x\<rparr>))"

definition cached_LookupCNAME ::
  "time \<Rightarrow> time \<Rightarrow> resolver \<Rightarrow> string \<Rightarrow> cachingResolver \<Rightarrow> (dns_error, string) result \<times> cachingResolver" where
  "cached_LookupCNAME now now' inner host r =
     (let x = cached now now' (\<lambda>_. cr_ttl r) (rs_LookupCNAME inner host) host (cr_cname r) in (fst x, r\<lparr>cr_cname := snd x\<rparr>))"

definition cached_LookupMX ::
  "time \<Rightarrow> time \<Rightarrow> resolver \<Rightarrow> string \<Rightarrow> cachingResolver \<Rightarrow> (dns_error, mx list) result \<times> cachingResolver" where
  "cached_LookupMX now now' inner host r =
     (let x = cached now now' (\<lambda>_. cr_ttl r) (rs_LookupMX inner host) host (cr_mx r) in (fst x, r\<lparr>cr_mx := snd x\<rparr>))"

definition cached_LookupTXT ::
  "time \<Rightarrow> time \<Rightarrow> resolver \<Rightarrow> string \<Rightarrow> cachingResolver \<Rightarrow> (dns_error, string list) result \<times> cachingResolver" where
  "cached_LookupTXT now now' inner host r =
     (let x = cached now now' (\<lambda>_. cr_ttl r) (rs_LookupTXT inner host) host (cr_txt r) in (fst x, r\<lparr>cr_txt := snd x\<rparr>))"

definition cached_LookupNS ::
  "time \<Rightarrow> time \<Rightarrow> resolver \<Rightarrow> string \<Rightarrow> cachingResolver \<Rightarrow> (dns_error, string list) result \<times> cachingResolver" where
  "cached_LookupNS now now' inner host r =
     (let x = cached now now' (\<lambda>_. cr_ttl r) (rs_LookupNS inner host) host (cr_ns r) in (fst x, r\<lparr>cr_ns := snd x\<rparr>))"

section \<open>The system resolver\<close>

text \<open>
  Package \<open>net\<close>'s resolver: each lookup returns a value and possibly an error, and may return both.
  \<open>nr_sort\<close> stands for \<open>sort.Slice\<close> by priority, which leaves the order of
  equal elements open.
\<close>

record net_resolver =
  nr_LookupIP :: "string \<Rightarrow> ip_addr list \<times> dns_error option"
  nr_LookupCNAME :: "string \<Rightarrow> string \<times> dns_error option"
  nr_LookupMX :: "string \<Rightarrow> mx list \<times> dns_error option"
  nr_LookupNS :: "string \<Rightarrow> string list \<times> dns_error option"
  nr_LookupTXT :: "string \<Rightarrow> string list \<times> dns_error option"
  nr_sort :: "mx list \<Rightarrow> mx list"

definition Local_timeout :: "duration \<Rightarrow> duration" where
  "Local_timeout t = (if t > 0 then t else 5 * Second)"

definition map_result :: "('a \<Rightarrow> 'b) \<Rightarrow> 'a \<times> dns_error option \<Rightarrow> (dns_error, 'b) result" where
  "map_result f r = (case snd r of Some e \<Rightarrow> Inl (mapErr e) | None \<Rightarrow> Inr (f (fst r)))"

definition Local_Resolve :: "net_resolver \<Rightarrow> string \<Rightarrow> (dns_error, ip_addr list) result" where
  "Local_Resolve b host = map_result (\<lambda>ips. ips) (nr_LookupIP b host)"

definition trim_mx :: "mx \<Rightarrow> mx" where
  "trim_mx m = m\<lparr>mx_Host := trimSuffix (mx_Host m) ''.''\<rparr>"

definition Local_LookupMX :: "net_resolver \<Rightarrow> string \<Rightarrow> (dns_error, mx list) result" where
  "Local_LookupMX b host = map_result (\<lambda>ms. nr_sort b (map trim_mx ms)) (nr_LookupMX b host)"

definition Local_LookupCNAME :: "net_resolver \<Rightarrow> string \<Rightarrow> (dns_error, string) result" where
  "Local_LookupCNAME b host =
     map_result (\<lambda>c. let c = trimSuffix c ''.'' in if c = host then [] else c) (nr_LookupCNAME b host)"

definition Local_LookupTXT :: "net_resolver \<Rightarrow> string \<Rightarrow> (dns_error, string list) result" where
  "Local_LookupTXT b host = map_result (\<lambda>t. t) (nr_LookupTXT b host)"

definition Local_LookupNS :: "net_resolver \<Rightarrow> string \<Rightarrow> (dns_error, string list) result" where
  "Local_LookupNS b host = map_result (\<lambda>ns. sort (map (\<lambda>n. trimSuffix n ''.'') ns)) (nr_LookupNS b host)"

text \<open>
  The test \<open>errors.Is (err, &net.DNSError{})\<close> allocates a new \<open>net.DNSError\<close> and compares its address
  with each one in the chain of the error.
\<close>

fun dns_addrs :: "dns_error \<Rightarrow> nat list" where
  "dns_addrs (NetDNSError p nf to t) = [p]"
| "dns_addrs (OtherError _ (Some e)) = dns_addrs e"
| "dns_addrs _ = []"

definition new_addr :: "dns_error \<Rightarrow> nat" where
  "new_addr e = Suc (foldr max (dns_addrs e) 0)"

fun errors_Is_ptr :: "dns_error \<Rightarrow> nat \<Rightarrow> bool" where
  "errors_Is_ptr (NetDNSError p nf to t) q \<longleftrightarrow> p = q"
| "errors_Is_ptr (OtherError _ (Some e)) q \<longleftrightarrow> errors_Is_ptr e q"
| "errors_Is_ptr _ q \<longleftrightarrow> False"

text \<open>The five lookups run one after the other; the errors of all but the first are ignored.\<close>

definition Local_ResolveAll :: "time \<Rightarrow> net_resolver \<Rightarrow> string \<Rightarrow> (dns_error, dns_records) result" where
  "Local_ResolveAll now b host =
     (let rec = \<lparr>dr_Host = host, dr_A = [], dr_AAAA = [], dr_CNAME = [], dr_MX = [], dr_NS = [], dr_TXT = [],
            dr_NXDomain = False, dr_Degraded = False, dr_QueriedAt = now, dr_ValidUntil = now + 5 * Minute\<rparr>;
          rec = (case snd (nr_LookupIP b host) of
              Some e \<Rightarrow>
                (if errors_Is_ptr e (new_addr e)
                 then (case as_DNSError e of Some (nf, to) \<Rightarrow> rec\<lparr>dr_NXDomain := nf\<rparr> | None \<Rightarrow> rec)
                 else rec)
            | None \<Rightarrow>
                rec\<lparr>dr_A := map ip_text (filter ip_is4 (fst (nr_LookupIP b host))),
                    dr_AAAA := map ip_text (filter (\<lambda>i. \<not> ip_is4 i) (fst (nr_LookupIP b host)))\<rparr>);
          c = trimSuffix (fst (nr_LookupCNAME b host)) ''.'';
          rec = (if c \<noteq> [] \<and> c \<noteq> host then rec\<lparr>dr_CNAME := c\<rparr> else rec);
          rec = rec\<lparr>dr_MX := nr_sort b (map trim_mx (fst (nr_LookupMX b host)))\<rparr>;
          rec = rec\<lparr>dr_NS := sort (map (\<lambda>n. trimSuffix n ''.'') (fst (nr_LookupNS b host)))\<rparr>;
          rec = rec\<lparr>dr_TXT := fst (nr_LookupTXT b host)\<rparr>
      in Inr rec)"

definition LocalBackend :: "time \<Rightarrow> net_resolver \<Rightarrow> resolver" where
  "LocalBackend now b =
     \<lparr>rs_Resolve = Local_Resolve b, rs_ResolveAll = Local_ResolveAll now b, rs_LookupCNAME = Local_LookupCNAME b,
      rs_LookupMX = Local_LookupMX b, rs_LookupTXT = Local_LookupTXT b, rs_LookupNS = Local_LookupNS b\<rparr>"

section \<open>The dns-service backend\<close>

definition endpoint :: "string \<Rightarrow> string \<Rightarrow> string \<Rightarrow> string" where
  "endpoint baseURL path host =
     (let base = (if length baseURL > 0 \<and> last baseURL = CHR ''/'' then butlast baseURL else baseURL)
      in base @ path @ ''?host='' @ queryEscape host)"

record http_backend =
  hb_BaseURL :: string
  hb_CallerTool :: string
  hb_Fallback :: "resolver option"

definition http_do ::
  "(string \<Rightarrow> string \<Rightarrow> http_outcome) \<Rightarrow> (gval \<Rightarrow> 'a \<times> bool) \<Rightarrow> http_backend \<Rightarrow> string \<Rightarrow> (dns_error, 'a) result" where
  "http_do http out b target =
     (case http (hb_CallerTool b) target of
        BadRequest t \<Rightarrow> Inl (OtherError t None)
      | TransportError t \<Rightarrow> Inl (ErrServiceUnavailable t)
      | Response status body \<Rightarrow>
          (if status = 404
           then (if err_resp body = ''nxdomain'' then Inl ErrNXDomain else Inl (ServiceError (err_resp body)))
           else if status = 504 then Inl ErrTimeout
           else if status div 100 \<noteq> 2 then Inl (ServiceError (''HTTP '' @ dec_int status))
           else case json_decode out body of
             None \<Rightarrow> Inl (OtherError ''json'' None)
           | Some x \<Rightarrow> Inr x))"

fun is_unavailable :: "dns_error \<Rightarrow> bool" where
  "is_unavailable (ErrServiceUnavailable t) = True"
| "is_unavailable (OtherError t (Some e)) = is_unavailable e"
| "is_unavailable _ = False"

definition callOrFallback ::
  "http_backend \<Rightarrow> (dns_error, 'a) result \<Rightarrow> (resolver \<Rightarrow> (dns_error, 'a) result) \<Rightarrow> (dns_error, 'a) result" where
  "callOrFallback b primary fallback =
     (case primary of
        Inr v \<Rightarrow> Inr v
      | Inl err \<Rightarrow>
          (case hb_Fallback b of
             Some f \<Rightarrow> if is_unavailable err then fallback f else Inl err
           | None \<Rightarrow> Inl err))"

text \<open>\<open>net.ParseIP\<close>, and how \<open>time.Time\<close> reads a timestamp.\<close>

record wire =
  wi_parseIP :: "string \<Rightarrow> ip_addr option"
  wi_time :: "string \<Rightarrow> time option"

definition parse_ips :: "wire \<Rightarrow> string list \<times> string list \<Rightarrow> ip_addr list" where
  "parse_ips w r = List.map_filter (wi_parseIP w) (fst r) @ List.map_filter (wi_parseIP w) (snd r)"

definition HTTP_Resolve ::
  "(string \<Rightarrow> string \<Rightarrow> http_outcome) \<Rightarrow> wire \<Rightarrow> http_backend \<Rightarrow> string \<Rightarrow> (dns_error, ip_addr list) result" where
  "HTTP_Resolve http w b host = callOrFallback b
     (map_sum id (parse_ips w) (http_do http resolve_resp b (endpoint (hb_BaseURL b) ''/v1/resolve'' host)))
     (\<lambda>f. rs_Resolve f host)"

definition HTTP_ResolveAll ::
  "(string \<Rightarrow> string \<Rightarrow> http_outcome) \<Rightarrow> wire \<Rightarrow> http_backend \<Rightarrow> string \<Rightarrow> (dns_error, dns_records) result" where
  "HTTP_ResolveAll http w b host = callOrFallback b
     (http_do http (records_resp (wi_time w)) b (endpoint (hb_BaseURL b) ''/v1/resolve-all'' host))
     (\<lambda>f. map_sum id (\<lambda>r. r\<lparr>dr_Degraded := True\<rparr>) (rs_ResolveAll f host))"

definition HTTP_LookupCNAME ::
  "(string \<Rightarrow> string \<Rightarrow> http_outcome) \<Rightarrow> http_backend \<Rightarrow> string \<Rightarrow> (dns_error, string) result" where
  "HTTP_LookupCNAME http b host = callOrFallback b
     (http_do http cname_resp b (endpoint (hb_BaseURL b) ''/v1/cname'' host)) (\<lambda>f. rs_LookupCNAME f host)"

definition HTTP_LookupMX ::
  "(string \<Rightarrow> string \<Rightarrow> http_outcome) \<Rightarrow> http_backend \<Rightarrow> string \<Rightarrow> (dns_error, mx list) result" where
  "HTTP_LookupMX http b host = callOrFallback b
     (http_do http mx_resp b (endpoint (hb_BaseURL b) ''/v1/mx'' host)) (\<lambda>f. rs_LookupMX f host)"

definition HTTP_LookupTXT ::
  "(string \<Rightarrow> string \<Rightarrow> http_outcome) \<Rightarrow> http_backend \<Rightarrow> string \<Rightarrow> (dns_error, string list) result" where
  "HTTP_LookupTXT http b host = callOrFallback b
     (http_do http txt_resp b (endpoint (hb_BaseURL b) ''/v1/txt'' host)) (\<lambda>f. rs_LookupTXT f host)"

definition HTTP_LookupNS ::
  "(string \<Rightarrow> string \<Rightarrow> http_outcome) \<Rightarrow> http_backend \<Rightarrow> string \<Rightarrow> (dns_error, string list) result" where
  "HTTP_LookupNS http b host = callOrFallback b
     (http_do http ns_resp b (endpoint (hb_BaseURL b) ''/v1/ns'' host)) (\<lambda>f. rs_LookupNS f host)"

definition HTTPBackend :: "(string \<Rightarrow> string \<Rightarrow> http_outcome) \<Rightarrow> wire \<Rightarrow> http_backend \<Rightarrow> resolver" where
  "HTTPBackend http w b =
     \<lparr>rs_Resolve = HTTP_Resolve http w b, rs_ResolveAll = HTTP_ResolveAll http w b,
      rs_LookupCNAME = HTTP_LookupCNAME http b, rs_LookupMX = HTTP_LookupMX http b,
      rs_LookupTXT = HTTP_LookupTXT http b, rs_LookupNS = HTTP_LookupNS http b\<rparr>"

section \<open>Assembly\<close>

record dns_options =
  op_ServiceURL :: string
  op_CallerTool :: string
  op_CacheTTL :: duration
  op_CacheCapacity :: int
  op_LocalResolverTimeout :: duration

text \<open>The inner resolver at a moment, and the cache in front of it.\<close>

definition inner_resolver ::
  "(string \<Rightarrow> string \<Rightarrow> http_outcome) \<Rightarrow> wire \<Rightarrow> time \<Rightarrow> net_resolver \<Rightarrow> dns_options \<Rightarrow> resolver" where
  "inner_resolver http w now net opts =
     (let local = LocalBackend now net in
      if op_ServiceURL opts \<noteq> []
      then HTTPBackend http w \<lparr>hb_BaseURL = op_ServiceURL opts, hb_CallerTool = op_CallerTool opts, hb_Fallback = Some local\<rparr>
      else local)"

definition newWithOptions :: "dns_options \<Rightarrow> cachingResolver" where
  "newWithOptions opts = newCachingResolver (op_CacheTTL opts) (op_CacheCapacity opts)"

definition newFromEnv :: "(string \<Rightarrow> string) \<Rightarrow> dns_options \<times> cachingResolver" where
  "newFromEnv getenv =
     (let opts = \<lparr>op_ServiceURL = getenv ''DNS_SERVICE_URL'', op_CallerTool = getenv ''WORKER_TOOL'',
            op_CacheTTL = 0, op_CacheCapacity = 0, op_LocalResolverTimeout = 0\<rparr>
      in (opts, newWithOptions opts))"

definition dns_New :: "dns_options \<Rightarrow> cachingResolver" where
  "dns_New opts = newWithOptions opts"

text \<open>The process-wide resolver: \<open>None\<close> until the first call of \<open>Default\<close> has built it.\<close>

definition Default :: "(string \<Rightarrow> string) \<Rightarrow> (dns_options \<times> cachingResolver) option
   \<Rightarrow> (dns_options \<times> cachingResolver) \<times> (dns_options \<times> cachingResolver) option" where
  "Default getenv defaultResolver =
     (case defaultResolver of
        Some r \<Rightarrow> (r, defaultResolver)
      | None \<Rightarrow> (let r = newFromEnv getenv in (r, Some r)))"

section \<open>Bulk calls\<close>

text \<open>
  A nil slice is \<open>None\<close>. \<open>post\<close> is the HTTP client on a URL and a body, \<open>time_json\<close> how \<open>time.Time\<close> prints
  itself (it refuses years beyond four digits).
\<close>

record discoveredRecord =
  dd_Host :: string
  dd_RType :: string
  dd_Answers :: "string list option"
  dd_TTL :: int
  dd_ValidUntil :: time
  dd_Upstream :: string

definition strings_json :: "string list option \<Rightarrow> string" where
  "strings_json xs = (case xs of None \<Rightarrow> ''null'' | Some ys \<Rightarrow> json_array (map json_string ys))"

text \<open>The fields in the order of the struct; \<open>omitempty\<close> does not apply to a struct such as \<open>time.Time\<close>.\<close>

definition record_json :: "(time \<Rightarrow> string option) \<Rightarrow> discoveredRecord \<Rightarrow> string option" where
  "record_json time_json r =
     map_option (\<lambda>t. json_object
        ([(''host'', json_string (dd_Host r)), (''rtype'', json_string (dd_RType r)), (''answers'', strings_json (dd_Answers r))]
         @ (if dd_TTL r = 0 then [] else [(''ttl'', dec_int (dd_TTL r))])
         @ [(''valid_until'', t)]
         @ (if dd_Upstream r = [] then [] else [(''upstream'', json_string (dd_Upstream r))])))
      (time_json (dd_ValidUntil r))"

definition bulk_base :: "string \<Rightarrow> string" where
  "bulk_base baseURL = (if baseURL = [] then ''http://dns-service:7080'' else baseURL)"

definition bulk_do :: "(string \<Rightarrow> bytes \<Rightarrow> http_outcome) \<Rightarrow> string \<Rightarrow> string \<Rightarrow> string \<Rightarrow> (dns_error, bytes) result" where
  "bulk_do post what target body =
     (case post target body of
        BadRequest t \<Rightarrow> Inl (OtherError t None)
      | TransportError t \<Rightarrow> Inl (OtherError (what @ '': '' @ t) (Some (OtherError t None)))
      | Response status resp \<Rightarrow>
          (if status div 100 \<noteq> 2 then Inl (OtherError (what @ '': HTTP '' @ dec_int status) None) else Inr resp))"

definition PushRecords ::
  "(string \<Rightarrow> bytes \<Rightarrow> http_outcome) \<Rightarrow> (time \<Rightarrow> string option) \<Rightarrow> string \<Rightarrow> discoveredRecord list \<Rightarrow> dns_error option" where
  "PushRecords post time_json baseURL records =
     (if length records = 0 then None
      else case all_some (map (record_json time_json) records) of
        None \<Rightarrow> Some (OtherError ''dns push: marshal'' None)
      | Some rs \<Rightarrow>
          (case bulk_do post ''dns push'' (bulk_base baseURL @ ''/v1/records/bulk'') (json_array rs) of
             Inl e \<Rightarrow> Some e
           | Inr _ \<Rightarrow> None))"

definition BulkResolve ::
  "(string \<Rightarrow> bytes \<Rightarrow> http_outcome) \<Rightarrow> string \<Rightarrow> string list \<Rightarrow> string list option
   \<Rightarrow> (dns_error, bulkResolution list) result" where
  "BulkResolve post baseURL hosts types =
     (if length hosts = 0 then Inr []
      else case bulk_do post ''bulk resolve'' (bulk_base baseURL @ ''/v1/resolve/bulk'')
          (json_object [(''hosts'', strings_json (Some hosts)), (''types'', strings_json types)]) of
        Inl e \<Rightarrow> Inl e
      | Inr resp \<Rightarrow>
          (case json_decode bulk_resp resp of
             None \<Rightarrow> Inl (OtherError ''bulk resolve: decode'' None)
           | Some out \<Rightarrow> Inr out))"

section \<open>Sequences of cached calls\<close>

text \<open>A call of a cached method: its two clock readings, the inner answer it would get, and the host.\<close>

type_synonym 'v cached_call = "time \<times> time \<times> (dns_error, 'v) result \<times> string"

fun calls_run :: "(time \<Rightarrow> 'v \<Rightarrow> duration) \<Rightarrow> 'v cached_call list \<Rightarrow> 'v lru \<Rightarrow> 'v lru" where
  "calls_run ttl_of [] c = c"
| "calls_run ttl_of ((now, now', inner, host) # calls) c =
     calls_run ttl_of calls (snd (cached now now' (ttl_of now') inner host c))"

definition stores_from :: "(time \<Rightarrow> 'v \<Rightarrow> duration) \<Rightarrow> 'v cached_call list \<Rightarrow> 'v cache_op list \<Rightarrow> bool" where
  "stores_from ttl_of calls es \<longleftrightarrow> (\<forall>t k v d. Store t k v d \<in> set es \<longrightarrow>
     d = ttl_of t v \<and> (\<exists>now. (now, t, Inr v, k) \<in> set calls))"

lemma cached_as_ops:
  "\<exists>es. snd (cached now now' (ttl_of now') inner host c) = cache_run lru_get lru_put es c
     \<and> stores_from ttl_of [(now, now', inner, host)] es"
proof -
  obtain r c' where g: "lru_get now host c = (r, c')" by (rule prod.exhaust)
  show ?thesis
  proof (cases "\<exists>v. r = None \<and> inner = Inr v")
    case True
    then obtain v where "r = None" "inner = Inr v" by blast
    with g show ?thesis
      by (intro exI [of _ "[Lookup now host, Store now' host v (ttl_of now' v)]"])
        (simp add: cached_def stores_from_def)
  next
    case False
    with g show ?thesis
      by (intro exI [of _ "[Lookup now host]"])
        (auto simp: cached_def stores_from_def split: option.split sum.split)
  qed
qed

lemma cache_run_append: "cache_run g p (es @ fs) c = cache_run g p fs (cache_run g p es c)"
proof (induction es arbitrary: c)
  case (Cons e es)
  then show ?case by (cases e) simp_all
qed simp

lemma calls_as_ops:
  "\<exists>es. calls_run ttl_of calls c = cache_run lru_get lru_put es c \<and> stores_from ttl_of calls es"
proof (induction calls arbitrary: c)
  case Nil
  then show ?case by (intro exI [of _ "[]"]) (simp add: stores_from_def)
next
  case (Cons call calls)
  obtain now now' inner host where call: "call = (now, now', inner, host)" by (cases call)
  obtain es where es: "snd (cached now now' (ttl_of now') inner host c) = cache_run lru_get lru_put es c"
      "stores_from ttl_of [call] es"
    using cached_as_ops call by blast
  obtain fs where fs: "calls_run ttl_of calls (cache_run lru_get lru_put es c)
      = cache_run lru_get lru_put fs (cache_run lru_get lru_put es c)" "stores_from ttl_of calls fs"
    using Cons.IH by blast
  have "stores_from ttl_of (call # calls) (es @ fs)"
    unfolding stores_from_def
  proof (intro allI impI)
    fix t k v d
    assume "Store t k v d \<in> set (es @ fs)"
    then consider "Store t k v d \<in> set es" | "Store t k v d \<in> set fs" by auto
    then show "d = ttl_of t v \<and> (\<exists>now. (now, t, Inr v, k) \<in> set (call # calls))"
    proof cases
      case 1
      with es(2) have "d = ttl_of t v" "\<exists>now. (now, t, Inr v, k) = call"
        unfolding stores_from_def by (blast, fastforce)
      then show ?thesis by (metis list.set_intros(1))
    next
      case 2
      with fs(2) have "d = ttl_of t v" "\<exists>now. (now, t, Inr v, k) \<in> set calls"
        unfolding stores_from_def by blast+
      then show ?thesis by auto
    qed
  qed
  then show ?case using es(1) fs(1) call by (intro exI [of _ "es @ fs"]) (simp add: cache_run_append)
qed

lemma last_store_in:
  "last_store k acc es = Some (v, x) \<Longrightarrow> acc = Some (v, x) \<or> (\<exists>t d. Store t k v d \<in> set es \<and> x = t + d)"
proof (induction es arbitrary: acc)
  case (Cons e es)
  then show ?case by (cases e) (fastforce split: if_splits)+
qed simp

lemma errors_Is_new_addr: "\<not> errors_Is_ptr e (new_addr e)"
proof -
  have "errors_Is_ptr e q \<longleftrightarrow> q \<in> set (dns_addrs e)" for q by (induction e rule: dns_addrs.induct) auto
  moreover have "q \<in> set qs \<Longrightarrow> q < Suc (foldr max qs 0)" for q :: nat and qs by (induction qs) auto
  ultimately show ?thesis unfolding new_addr_def by blast
qed

lemma cached_miss_or_hit:
  "fst (cached now now' ttl inner host c) = (case fst (lru_get now host c) of Some v \<Rightarrow> Inr v | None \<Rightarrow> inner)"
  by (auto simp: cached_def split: prod.split option.split sum.split)

section \<open>Properties\<close>

text \<open>
  C16: an answer of the caching resolver is either the inner resolver's answer to this call, or what
  the inner resolver answered to an earlier call for the same host whose lifetime has not run out.
\<close>

theorem cached_answer_fresh:
  assumes "1 \<le> n" and "fst (cached now now' (ttl_of now') inner host (calls_run ttl_of calls (newLRU n))) = Inr v"
  shows "inner = Inr v \<or> (\<exists>t t'. (t, t', Inr v, host) \<in> set calls \<and> now \<le> t' + ttl_of t' v)"
proof (cases "fst (lru_get now host (calls_run ttl_of calls (newLRU n)))")
  case None
  then show ?thesis using assms(2) by (simp add: cached_miss_or_hit)
next
  case (Some u)
  then have u: "u = v" using assms(2) by (simp add: cached_miss_or_hit)
  obtain es where es: "calls_run ttl_of calls (newLRU n) = cache_run lru_get lru_put es (newLRU n)"
      and st: "stores_from ttl_of calls es"
    using calls_as_ops by blast
  have view: "lru_view (cache_run lru_get lru_put es (newLRU n)) now host = Some v"
    using Some lru_cache.get_view [OF lru_cache.run_inv [OF new_ok [OF assms(1)]], of now host es]
    by (simp add: es u)
  from lru_cache.run_sound [OF new_ok [OF assms(1)] _ view] obtain x where
    "last_store host None es = Some (v, x)" and x: "now \<le> x" by auto
  from last_store_in [OF this(1)] obtain t d where "Store t host v d \<in> set es" and "x = t + d" by blast
  with st x show ?thesis unfolding stores_from_def by metis
qed

theorem cached_answer_fresh_witness:
  "\<exists>t t'. (t, t', Inr 7, ''h'') \<in> set [(0, 1, Inr (7::nat) :: (dns_error, nat) result, ''h'')] \<and> (5::int) \<le> t' + 10"
proof -
  have "fst (cached 5 6 ((\<lambda>_ _. 10) 6) (Inl ErrTimeout) ''h''
      (calls_run (\<lambda>_ _. 10) [(0, 1, Inr (7::nat), ''h'')] (newLRU 3))) = Inr 7"
    by code_simp
  from cached_answer_fresh [OF _ this] show ?thesis by simp
qed

text \<open>
  An answer of \<open>ResolveAll\<close> that is already past its \<open>ValidUntil\<close> when it arrives is kept for the
  full lifetime of the cache, and served in that time.
\<close>

theorem expired_records_are_cached:
  assumes "lru_ok (cr_resolveAll r)" and "fst (lru_get now host (cr_resolveAll r)) = None"
    and "rs_ResolveAll inner host = Inr v" and "dr_ValidUntil v \<noteq> 0" and "dr_ValidUntil v \<le> now'"
    and "t \<le> now' + cr_ttl r"
  shows "fst (cached_ResolveAll t t' inner' host (snd (cached_ResolveAll now now' inner host r))) = Inr v"
proof -
  obtain c where g: "lru_get now host (cr_resolveAll r) = (None, c)" using assms(2) by (metis prod.collapse)
  have "lru_ok c" using lru_cache.get_inv [OF assms(1), of now host] g by simp
  have "resolveAll_ttl (cr_ttl r) now' v = cr_ttl r"
    using assms(4,5) by (auto simp: resolveAll_ttl_def Let_def time_Sub_def minDuration_def maxDuration_def)
  then have after: "cr_resolveAll (snd (cached_ResolveAll now now' inner host r)) = lru_put now' host v (cr_ttl r) c"
    using assms(3) by (simp add: cached_ResolveAll_def Let_def cached_def g)
  have "lru_ok (lru_put now' host v (cr_ttl r) c)" by (rule lru_cache.put_inv) fact
  then have "fst (lru_get t host (lru_put now' host v (cr_ttl r) c)) = Some v"
    using lru_cache.put_view [OF \<open>lru_ok c\<close>, of now' host v "cr_ttl r" t] assms(6)
    by (simp add: lru_cache.get_view)
  then show ?thesis
    by (simp add: cached_ResolveAll_def [of t] Let_def cached_miss_or_hit after)
qed

definition records0 :: "time \<Rightarrow> dns_records" where
  "records0 t = \<lparr>dr_Host = ''h'', dr_A = [''1.2.3.4''], dr_AAAA = [], dr_CNAME = [], dr_MX = [], dr_NS = [], dr_TXT = [],
     dr_NXDomain = False, dr_Degraded = False, dr_QueriedAt = t, dr_ValidUntil = t\<rparr>"

definition resolver0 :: "(dns_error, dns_records) result \<Rightarrow> resolver" where
  "resolver0 a = \<lparr>rs_Resolve = (\<lambda>_. Inl ErrTimeout), rs_ResolveAll = (\<lambda>_. a), rs_LookupCNAME = (\<lambda>_. Inl ErrTimeout),
     rs_LookupMX = (\<lambda>_. Inl ErrTimeout), rs_LookupTXT = (\<lambda>_. Inl ErrTimeout), rs_LookupNS = (\<lambda>_. Inl ErrTimeout)\<rparr>"

theorem expired_records_are_cached_witness:
  "fst (cached_ResolveAll 200 200 (resolver0 (Inl ErrTimeout)) ''h''
     (snd (cached_ResolveAll 100 100 (resolver0 (Inr (records0 50))) ''h'' (newCachingResolver 1000 8)))) = Inr (records0 50)"
proof (rule expired_records_are_cached)
  show "lru_ok (cr_resolveAll (newCachingResolver 1000 8))"
    by (simp add: newCachingResolver_def new_ok)
  show "fst (lru_get 100 ''h'' (cr_resolveAll (newCachingResolver 1000 8))) = None"
    by (simp add: newCachingResolver_def newLRU_def lru_get_def)
qed (simp_all add: resolver0_def records0_def newCachingResolver_def)

text \<open>
  A cache lifetime of zero does not disable caching: a resolver made with it answers from the
  cache for five minutes after an answer.
\<close>

theorem zero_ttl_still_caches:
  assumes "op_CacheTTL opts \<le> 0" and "rs_Resolve inner host = Inr v" and "t \<le> now' + 5 * Minute"
  shows "fst (cached_Resolve t t' inner' host (snd (cached_Resolve now now' inner host (newWithOptions opts)))) = Inr v"
proof -
  let ?r = "newWithOptions opts"
  have ok: "lru_ok (cr_resolve ?r)" and ttl: "cr_ttl ?r = 5 * Minute"
    using assms(1) by (simp_all add: newWithOptions_def newCachingResolver_def Let_def new_ok)
  have g: "lru_get now host (cr_resolve ?r) = (None, cr_resolve ?r)"
    by (simp add: newWithOptions_def newCachingResolver_def Let_def newLRU_def lru_get_def)
  have after: "cr_resolve (snd (cached_Resolve now now' inner host ?r)) = lru_put now' host v (5 * Minute) (cr_resolve ?r)"
    using assms(2) by (simp add: cached_Resolve_def Let_def cached_def g ttl)
  have "lru_ok (lru_put now' host v (5 * Minute) (cr_resolve ?r))" by (rule lru_cache.put_inv [OF ok])
  then have "fst (lru_get t host (lru_put now' host v (5 * Minute) (cr_resolve ?r))) = Some v"
    using lru_cache.put_view [OF ok, of now' host v "5 * Minute" t] assms(3) by (simp add: lru_cache.get_view)
  then show ?thesis by (simp add: cached_Resolve_def [of t] Let_def cached_miss_or_hit after)
qed

theorem zero_ttl_still_caches_witness:
  "fst (cached_Resolve 9 9 (resolver0 (Inl ErrTimeout)) ''h'' (snd (cached_Resolve 1 2
      ((resolver0 (Inl ErrTimeout))\<lparr>rs_Resolve := (\<lambda>_. Inr [])\<rparr>) ''h''
      (newWithOptions \<lparr>op_ServiceURL = [], op_CallerTool = [], op_CacheTTL = 0, op_CacheCapacity = 1, op_LocalResolverTimeout = 0\<rparr>)))) = Inr []"
  by (rule zero_ttl_still_caches) (simp_all add: Minute_def Second_def)

text \<open>
  The fallback of the service backend is asked exactly when the transport fails: then its records
  are returned, marked degraded, and a response of any status is answered without it.
\<close>

theorem fallback_only_on_transport_error:
  "(\<forall>t f. http (hb_CallerTool b) (endpoint (hb_BaseURL b) ''/v1/resolve-all'' host) = TransportError t \<longrightarrow>
      hb_Fallback b = Some f \<longrightarrow>
      HTTP_ResolveAll http w b host = map_sum id (\<lambda>r. r\<lparr>dr_Degraded := True\<rparr>) (rs_ResolveAll f host))
   \<and> (\<forall>status body. http (hb_CallerTool b) (endpoint (hb_BaseURL b) ''/v1/resolve-all'' host) = Response status body \<longrightarrow>
      HTTP_ResolveAll http w b host = HTTP_ResolveAll http w (b\<lparr>hb_Fallback := None\<rparr>) host)"
  by (auto simp: HTTP_ResolveAll_def callOrFallback_def http_do_def split: sum.split option.split)

definition wire0 :: wire where
  "wire0 = \<lparr>wi_parseIP = (\<lambda>t. Some \<lparr>ip_is4 = True, ip_text = t\<rparr>), wi_time = (\<lambda>_. None)\<rparr>"

theorem fallback_only_on_transport_error_witness:
  "HTTP_ResolveAll (\<lambda>_ _. TransportError ''refused'') wire0
      \<lparr>hb_BaseURL = ''http://d/'', hb_CallerTool = [], hb_Fallback = Some (resolver0 (Inr (records0 2)))\<rparr> ''h''
   = Inr ((records0 2)\<lparr>dr_Degraded := True\<rparr>)"
proof -
  have "rs_ResolveAll (resolver0 (Inr (records0 2))) ''h'' = Inr (records0 2)" by (simp add: resolver0_def)
  then show ?thesis
    using fallback_only_on_transport_error [of "\<lambda>_ _. TransportError ''refused''"
        "\<lparr>hb_BaseURL = ''http://d/'', hb_CallerTool = [], hb_Fallback = Some (resolver0 (Inr (records0 2)))\<rparr>" "''h''" wire0]
    by simp
qed

text \<open>
  The union lookup of the system resolver never reports a missing domain: its flag stays false even
  for the error that the address lookup maps to \<open>ErrNXDomain\<close>.
\<close>

theorem local_resolve_all_never_nxdomain:
  "(\<exists>r. Local_ResolveAll now b host = Inr r \<and> \<not> dr_NXDomain r)
   \<and> (nr_LookupIP b host = (ips, Some (NetDNSError p True to t)) \<longrightarrow> Local_Resolve b host = Inl ErrNXDomain)"
  by (auto simp: Local_ResolveAll_def Let_def errors_Is_new_addr Local_Resolve_def map_result_def mapErr_def split: option.split)

theorem local_resolve_all_never_nxdomain_witness:
  "Local_Resolve \<lparr>nr_LookupIP = (\<lambda>_. ([], Some (NetDNSError 7 True False ''no such host''))), nr_LookupCNAME = (\<lambda>_. ([], None)),
      nr_LookupMX = (\<lambda>_. ([], None)), nr_LookupNS = (\<lambda>_. ([], None)), nr_LookupTXT = (\<lambda>_. ([], None)), nr_sort = sort_key mx_Priority\<rparr> ''h''
   = Inl ErrNXDomain"
  by (rule local_resolve_all_never_nxdomain [THEN conjunct2, rule_format, where ips = "[]" and p = 7 and to = False and t = "''no such host''"]) simp

section \<open>Answers of the service\<close>

lemma addresses_view:
  "json_view (GMap [(''a'', GList (map GStr xs)), (''aaaa'', GList (map GStr ys))])
     = GMap [(''a'', GList (map (\<lambda>x. GStr (coerce_utf8 x)) xs)), (''aaaa'', GList (map (\<lambda>x. GStr (coerce_utf8 x)) ys))]"
proof -
  have "coerce_utf8 ''a'' = ''a''" "coerce_utf8 ''aaaa'' = ''aaaa''" by code_simp+
  then show ?thesis by (simp add: o_def)
qed

lemma resolve_resp_addresses:
  "resolve_resp (GMap [(''a'', GList (map GStr xs)), (''aaaa'', GList (map GStr ys))]) = ((xs, ys), True)"
proof -
  have n: "names_field ''a'' ''a''" "names_field ''aaaa'' ''aaaa''" "\<not> names_field ''aaaa'' ''a''" "\<not> names_field ''a'' ''aaaa''" by code_simp+
  have "strings_field [(''a'', GList (map GStr xs)), (''aaaa'', GList (map GStr ys))] ''a'' = (xs, True)"
    "strings_field [(''a'', GList (map GStr xs)), (''aaaa'', GList (map GStr ys))] ''aaaa'' = (ys, True)"
    by (rule strings_field_single; simp add: field_values_def n)+
  then show ?thesis by (simp add: resolve_resp_def)
qed

lemma addresses_nesting: "nesting (GMap [(''a'', GList (map GStr xs)), (''aaaa'', GList (map GStr ys))]) \<le> max_nesting"
proof -
  have "nesting (GList (map GStr zs)) = 1" for zs by (simp add: image_image) (simp add: image_constant_conv)
  then show ?thesis by (simp add: max_nesting_def del: nesting.simps(1))
qed

text \<open>
  C17: what a dns-service that answers in JSON says is what the caller gets. An answer with status 200 that
  encodes lists of IPv4 and IPv6 addresses is returned as the addresses that parse, first those of the one
  list and then those of the other; an answer with status 404 whose body encodes the error
  \<open>nxdomain\<close> is \<open>ErrNXDomain\<close>; neither asks the fallback. An address the service repeats is returned
  repeatedly, although the comment on the interface in dns.go promises addresses without duplicates.
\<close>

theorem service_answers_read:
  assumes "http (hb_CallerTool b) (endpoint (hb_BaseURL b) ''/v1/resolve'' host) = Response status body"
  shows "(status = 200 \<longrightarrow> marshal (GMap [(''a'', GList (map GStr xs)), (''aaaa'', GList (map GStr ys))]) = Some body \<longrightarrow>
      (\<forall>x \<in> set (xs @ ys). coerce_utf8 x = x) \<longrightarrow>
      HTTP_Resolve http w b host = Inr (List.map_filter (wi_parseIP w) (xs @ ys)))
    \<and> (status = 404 \<longrightarrow> marshal (GMap [(''error'', GStr ''nxdomain'')]) = Some body \<longrightarrow>
      HTTP_Resolve http w b host = Inl ErrNXDomain)"
proof (intro conjI impI)
  let ?v = "GMap [(''a'', GList (map GStr xs)), (''aaaa'', GList (map GStr ys))]"
  assume st: "status = 200" and m: "marshal ?v = Some body" and u: "\<forall>x \<in> set (xs @ ys). coerce_utf8 x = x"
  have "printable ?v" by (simp add: list_all_iff)
  then have "json_parse body = Some (json_view ?v)" by (rule json_roundtrip [OF m _ addresses_nesting])
  moreover have "map (\<lambda>x. GStr (coerce_utf8 x)) xs = map GStr xs" "map (\<lambda>x. GStr (coerce_utf8 x)) ys = map GStr ys"
    using u by simp_all
  ultimately have "json_first body = Some ?v"
    using json_first_parse unfolding addresses_view by simp
  then have "json_decode resolve_resp body = Some (xs, ys)" by (simp add: json_decode_def resolve_resp_addresses)
  with assms st show "HTTP_Resolve http w b host = Inr (List.map_filter (wi_parseIP w) (xs @ ys))"
    by (simp add: HTTP_Resolve_def http_do_def callOrFallback_def parse_ips_def map_filter_def)
next
  let ?v = "GMap [(''error'', GStr ''nxdomain'')]"
  assume st: "status = 404" and m: "marshal ?v = Some body"
  have "coerce_utf8 ''error'' = ''error''" "coerce_utf8 ''nxdomain'' = ''nxdomain''" by code_simp+
  then have "json_parse body = Some ?v" using json_roundtrip [OF m] by (simp add: max_nesting_def)
  moreover have "names_field ''error'' ''error''" by code_simp
  ultimately have "err_resp body = ''nxdomain''"
    using json_first_parse by (simp add: err_resp_def string_field_def field_values_def)
  with assms st show "HTTP_Resolve http w b host = Inl ErrNXDomain"
    by (simp add: HTTP_Resolve_def http_do_def callOrFallback_def split: option.split)
qed

theorem service_answers_read_witness:
  "HTTP_Resolve (\<lambda>_ _. Response 200 (the (marshal (GMap [(''a'', GList (map GStr [''1.2.3.4''])), (''aaaa'', GList (map GStr []))])))) wire0
      \<lparr>hb_BaseURL = ''http://d'', hb_CallerTool = [], hb_Fallback = None\<rparr> ''h''
   = Inr [\<lparr>ip_is4 = True, ip_text = ''1.2.3.4''\<rparr>]"
proof -
  let ?v = "GMap [(''a'', GList (map GStr [''1.2.3.4''])), (''aaaa'', GList (map GStr []))]"
  have m: "marshal ?v = Some (the (marshal ?v))" using printable_marshal [of ?v] by auto
  have u: "coerce_utf8 ''1.2.3.4'' = ''1.2.3.4''" by code_simp
  show ?thesis
    using service_answers_read [of "\<lambda>_ _. Response 200 (the (marshal ?v))" "\<lparr>hb_BaseURL = ''http://d'', hb_CallerTool = [], hb_Fallback = None\<rparr>"
        "''h''" 200 "the (marshal ?v)" "[''1.2.3.4'']" "[]" wire0] m u
    by (simp add: wire0_def map_filter_def del: marshal.simps)
qed

text \<open>The first call of \<open>Default\<close> fixes the process-wide resolver: later calls return it whatever the environment says then.\<close>

theorem default_resolver_fixed:
  "fst (Default getenv' (snd (Default getenv st))) = fst (Default getenv st)"
  by (simp add: Default_def Let_def split: option.split)

end
