(* ===== verification/Proxy_Client.thy ===== *)
theory Proxy_Client
  imports Breaker Http Json_Parse
begin

text \<open>
  The proxy client (sdk/proxyclient/client.go and options.go): options and defaults, the fetch of the
  assignment, routing through the breaker, the observing transport, and the life of the refresher
  between Start and Close as a step relation. Parameters: the HTTP round trip,
  \<open>url.Parse\<close> and the certificate file. The logger
  and the tuning of the transports' connection pools are left out.
  Shown: what an answer of the control plane must be, where requests are routed, that there is one
  refresher, that what Close waits for comes in every fair run, and when Close can panic.
\<close>

section \<open>Options\<close>

record assignment =
  an_ProxyID :: string
  an_ProxyHost :: string
  an_ProxyAddress :: string

text \<open>
  A client: its timeout and its transport, which is the default one, a direct one, or the observed one
  through a proxy with the roots it trusts. The transports carry their response header timeout.
\<close>

datatype transport =
    DefaultTransport
  | DirectTransport duration
  | ObservedProxy string "string option" duration

record http_client =
  hcl_Timeout :: duration
  hcl_Transport :: transport

record proxy_options =
  po_ControlplaneURL :: string
  po_APIToken :: string
  po_WorkerID :: string
  po_RefreshInterval :: duration
  po_BreakerErrors :: int
  po_BreakerWindow :: duration
  po_BreakerCooldown :: duration
  po_HTTPTimeout :: duration
  po_HTTPClient :: "http_client option"
  po_ProxyCAPool :: "string option"

definition zero_options :: proxy_options where
  "zero_options = \<lparr>po_ControlplaneURL = [], po_APIToken = [], po_WorkerID = [], po_RefreshInterval = 0, po_BreakerErrors = 0,
     po_BreakerWindow = 0, po_BreakerCooldown = 0, po_HTTPTimeout = 0, po_HTTPClient = None, po_ProxyCAPool = None\<rparr>"

text \<open>\<open>readFile\<close> gives the content of a file, \<open>pem\<close> the pool of its certificates if it has any.\<close>

definition loadCAFile ::
  "(string \<Rightarrow> (string, bytes) result) \<Rightarrow> (bytes \<Rightarrow> string option) \<Rightarrow> string \<Rightarrow> (string, string) result" where
  "loadCAFile readFile pem path =
     (case readFile path of
        Inl e \<Rightarrow> Inl e
      | Inr data \<Rightarrow>
          (case pem data of
             None \<Rightarrow> Inl (''proxyclient: no PEM certificates found in '' @ path)
           | Some pool \<Rightarrow> Inr pool))"

definition NewFromEnv ::
  "(string \<Rightarrow> (string, bytes) result) \<Rightarrow> (bytes \<Rightarrow> string option) \<Rightarrow> (string \<Rightarrow> string) \<Rightarrow> proxy_options" where
  "NewFromEnv readFile pem getenv =
     (let o0 = zero_options\<lparr>po_ControlplaneURL := getenv ''CONTROLPLANE_URL'', po_APIToken := getenv ''WORKER_API_TOKEN''\<rparr>;
          path = getenv ''PARABELLUM_PROXY_CA_PATH''
      in if path \<noteq> []
         then (case loadCAFile readFile pem path of Inr pool \<Rightarrow> o0\<lparr>po_ProxyCAPool := Some pool\<rparr> | Inl _ \<Rightarrow> o0)
         else o0)"

definition applyDefaults :: "proxy_options \<Rightarrow> proxy_options" where
  "applyDefaults opts =
     (let opts = (if po_RefreshInterval opts \<le> 0 then opts\<lparr>po_RefreshInterval := 5 * Minute\<rparr> else opts);
          opts = (if po_BreakerErrors opts \<le> 0 then opts\<lparr>po_BreakerErrors := 3\<rparr> else opts);
          opts = (if po_BreakerWindow opts \<le> 0 then opts\<lparr>po_BreakerWindow := 30 * Second\<rparr> else opts);
          opts = (if po_BreakerCooldown opts \<le> 0 then opts\<lparr>po_BreakerCooldown := 60 * Second\<rparr> else opts);
          opts = (if po_HTTPTimeout opts \<le> 0 then opts\<lparr>po_HTTPTimeout := 30 * Second\<rparr> else opts)
      in (if po_HTTPClient opts = None
          then opts\<lparr>po_HTTPClient := Some \<lparr>hcl_Timeout = po_HTTPTimeout opts, hcl_Transport = DefaultTransport\<rparr>\<rparr> else opts))"

section \<open>The assignment\<close>

definition empty_assignment :: assignment where
  "empty_assignment = \<lparr>an_ProxyID = [], an_ProxyHost = [], an_ProxyAddress = []\<rparr>"

text \<open>\<open>json.Unmarshal\<close> into an \<open>Assignment\<close>, member by member; the flag is false after a type error.\<close>

fun assignment_members :: "(string \<times> gval) list \<Rightarrow> assignment \<times> bool \<Rightarrow> assignment \<times> bool" where
  "assignment_members [] r = r"
| "assignment_members ((k, v) # ms) (a, ok) =
     assignment_members ms
       (if names_field k ''proxy_id'' then apfst (\<lambda>x. a\<lparr>an_ProxyID := x\<rparr>) (into_string v (an_ProxyID a, ok))
        else if names_field k ''proxy_host'' then apfst (\<lambda>x. a\<lparr>an_ProxyHost := x\<rparr>) (into_string v (an_ProxyHost a, ok))
        else if names_field k ''proxy_address'' then apfst (\<lambda>x. a\<lparr>an_ProxyAddress := x\<rparr>) (into_string v (an_ProxyAddress a, ok))
        else (a, ok))"

fun into_assignment :: "gval \<Rightarrow> assignment \<times> bool \<Rightarrow> assignment \<times> bool" where
  "into_assignment (GMap ms) r = assignment_members ms r"
| "into_assignment GNil r = r"
| "into_assignment _ (a, ok) = (a, False)"

text \<open>The envelope, a struct whose only field is \<open>Body\<close>.\<close>

fun envelope_members :: "(string \<times> gval) list \<Rightarrow> assignment \<times> bool \<Rightarrow> assignment \<times> bool" where
  "envelope_members [] r = r"
| "envelope_members ((k, v) # ms) r = envelope_members ms (if names_field k ''body'' then into_assignment v r else r)"

fun into_envelope :: "gval \<Rightarrow> assignment \<times> bool \<Rightarrow> assignment \<times> bool" where
  "into_envelope (GMap ms) r = envelope_members ms r"
| "into_envelope GNil r = r"
| "into_envelope _ (a, ok) = (a, False)"

definition unmarshal_into :: "(gval \<Rightarrow> assignment \<times> bool \<Rightarrow> assignment \<times> bool) \<Rightarrow> bytes \<Rightarrow> assignment option" where
  "unmarshal_into into body =
     (case json_parse body of
        None \<Rightarrow> None
      | Some v \<Rightarrow> (case into v (empty_assignment, True) of (a, ok) \<Rightarrow> if ok then Some a else None))"

datatype fetch_error =
    RequestFailed string
  | HTTPStatus int bytes
  | DecodeAssignment
  | EmptyProxyAddress

definition assignment_url :: "proxy_options \<Rightarrow> string" where
  "assignment_url opts =
     trimRight (po_ControlplaneURL opts) (CHR ''/'') @ ''/api/proxy/assignment?worker_id='' @ queryEscape (po_WorkerID opts)"

text \<open>
  \<open>get\<close> performs the request with a URL and the value of the \<open>Authorization\<close> header, if any. The body of
  its response is what can be read of it, and no more than 64 KiB of that is used.
\<close>

definition decode_response :: "bytes \<Rightarrow> (fetch_error, assignment) result" where
  "decode_response body =
     (case unmarshal_into into_envelope body of
        None \<Rightarrow>
          (case unmarshal_into into_assignment body of
             Some flat \<Rightarrow> if an_ProxyAddress flat \<noteq> [] then Inr flat else Inl DecodeAssignment
           | None \<Rightarrow> Inl DecodeAssignment)
      | Some b \<Rightarrow> if an_ProxyAddress b = [] then Inl EmptyProxyAddress else Inr b)"

definition fetchAssignment ::
  "(string \<Rightarrow> string option \<Rightarrow> http_outcome) \<Rightarrow> proxy_options \<Rightarrow> (fetch_error, assignment) result" where
  "fetchAssignment get opts =
     (case get (assignment_url opts) (if po_APIToken opts \<noteq> [] then Some (''Bearer '' @ po_APIToken opts) else None) of
        BadRequest t \<Rightarrow> Inl (RequestFailed t)
      | TransportError t \<Rightarrow> Inl (RequestFailed t)
      | Response status full \<Rightarrow>
          (let body = take 65536 full in
           if status < 200 \<or> status \<ge> 300 then Inl (HTTPStatus status body)
           else decode_response body))"

definition ensureScheme :: "string \<Rightarrow> string" where
  "ensureScheme addr = (if hasPrefix addr ''http://'' \<or> hasPrefix addr ''https://'' then addr else ''http://'' @ addr)"

section \<open>The client\<close>

record proxy_client =
  pc_opts :: proxy_options
  pc_current :: "assignment option"
  pc_br :: breaker
  pc_started :: bool
  pc_stop :: bool
  pc_done :: bool

definition New :: "proxy_options \<Rightarrow> proxy_client" where
  "New opts =
     (let opts = applyDefaults opts in
      \<lparr>pc_opts = opts, pc_current = None,
       pc_br = newBreaker (po_BreakerErrors opts) (po_BreakerWindow opts) (po_BreakerCooldown opts),
       pc_started = False, pc_stop = False, pc_done = False\<rparr>)"

text \<open>What the client needs of its surroundings at one instant.\<close>

record net_env =
  ne_now :: time
  ne_get :: "string \<Rightarrow> string option \<Rightarrow> http_outcome"

definition refreshOnce :: "net_env \<Rightarrow> proxy_client \<Rightarrow> proxy_client" where
  "refreshOnce env c =
     (case fetchAssignment (ne_get env) (pc_opts c) of
        Inl e \<Rightarrow> c\<lparr>pc_br := failure (ne_now env) (pc_br c)\<rparr>
      | Inr a \<Rightarrow> c\<lparr>pc_current := Some a, pc_br := success (pc_br c)\<rparr>)"

definition Refresh :: "net_env \<Rightarrow> proxy_client \<Rightarrow> proxy_client" where
  "Refresh env c = refreshOnce env c"

definition directClient :: "proxy_client \<Rightarrow> http_client" where
  "directClient c = \<lparr>hcl_Timeout = po_HTTPTimeout (pc_opts c), hcl_Transport = DirectTransport (po_HTTPTimeout (pc_opts c))\<rparr>"

text \<open>\<open>url_ok\<close> is whether \<open>url.Parse\<close> accepts a text; the clock is read by the breaker.\<close>

definition HTTPClient :: "time \<Rightarrow> (string \<Rightarrow> bool) \<Rightarrow> bool \<Rightarrow> proxy_client \<Rightarrow> http_client \<times> proxy_client" where
  "HTTPClient now url_ok useGlobalCache c =
     (if \<not> useGlobalCache then (directClient c, c)
      else
        let (granted, b) = allow now (pc_br c); c = c\<lparr>pc_br := b\<rparr> in
        if \<not> granted then (directClient c, c)
        else case pc_current c of
          None \<Rightarrow> (directClient c, c)
        | Some a \<Rightarrow>
            (if an_ProxyAddress a = [] then (directClient c, c)
             else if \<not> url_ok (ensureScheme (an_ProxyAddress a))
             then (directClient c, c\<lparr>pc_br := failure now (pc_br c)\<rparr>)
             else (\<lparr>hcl_Timeout = po_HTTPTimeout (pc_opts c),
                    hcl_Transport = ObservedProxy (ensureScheme (an_ProxyAddress a)) (po_ProxyCAPool (pc_opts c)) (po_HTTPTimeout (pc_opts c))\<rparr>, c)))"

definition CurrentAssignment :: "proxy_client \<Rightarrow> assignment option" where
  "CurrentAssignment c = pc_current c"

definition BreakerState :: "proxy_client \<Rightarrow> string" where
  "BreakerState c = breakerState_String (currentState (pc_br c))"

text \<open>
  The observing transport: the outcome of the inner round trip is an error, or a status and the value
  of the proxy's own header.
\<close>

datatype observed = ObsError string | ObsResponse int string

definition RoundTrip :: "time \<Rightarrow> observed \<Rightarrow> proxy_client \<Rightarrow> proxy_client" where
  "RoundTrip now r c =
     (case r of
        ObsError _ \<Rightarrow> c\<lparr>pc_br := failure now (pc_br c)\<rparr>
      | ObsResponse status header \<Rightarrow>
          (if status \<ge> 500 \<and> header \<noteq> [] then c\<lparr>pc_br := failure now (pc_br c)\<rparr>
           else c\<lparr>pc_br := success (pc_br c)\<rparr>))"

section \<open>The life of a client\<close>

text \<open>
  Start, the refresher it spawns and Close run concurrently. The state counts the goroutines at the
  points where another may run: calls of Start between their compare-and-swap and the spawn,
  refreshers in their loop, calls of Close between their test of the stop channel and its closing,
  between that and their test of \<open>started\<close>, and waiting for the done channel. Closing a closed channel
  panics. \<open>lf_overlap\<close> records whether two calls of Close have been before the closing at once.
\<close>

record life =
  lf_client :: proxy_client
  lf_ctx_done :: bool
  lf_starting :: nat
  lf_loops :: nat
  lf_closing :: nat
  lf_loading :: nat
  lf_waiting :: nat
  lf_panic :: bool
  lf_overlap :: bool

definition life0 :: "proxy_options \<Rightarrow> life" where
  "life0 opts = \<lparr>lf_client = New opts, lf_ctx_done = False, lf_starting = 0, lf_loops = 0, lf_closing = 0, lf_loading = 0,
     lf_waiting = 0, lf_panic = False, lf_overlap = False\<rparr>"

definition no_proxy_mode :: "proxy_client \<Rightarrow> bool" where
  "no_proxy_mode c \<longleftrightarrow> po_ControlplaneURL (pc_opts c) = [] \<or> po_WorkerID (pc_opts c) = []"

text \<open>
  Start up to its first return or its fetch; a second call returns at once. Without a control plane URL or worker
  id the compare-and-swap and the closing of the done channel, between which nothing can block, are one step.
\<close>

definition Start_begin :: "life \<Rightarrow> life" where
  "Start_begin s =
     (if pc_started (lf_client s) then s
      else let c = (lf_client s)\<lparr>pc_started := True\<rparr> in
        if no_proxy_mode c then s\<lparr>lf_client := c\<lparr>pc_done := True\<rparr>\<rparr>
        else s\<lparr>lf_client := c, lf_starting := lf_starting s + 1\<rparr>)"

text \<open>The synchronous fetch and the spawn of the refresher.\<close>

definition Start_fetch :: "net_env \<Rightarrow> life \<Rightarrow> life" where
  "Start_fetch env s =
     s\<lparr>lf_client := refreshOnce env (lf_client s), lf_starting := lf_starting s - 1, lf_loops := lf_loops s + 1\<rparr>"

text \<open>The loop returns, and its deferred call closes the done channel.\<close>

definition refreshLoop_return :: "life \<Rightarrow> life" where
  "refreshLoop_return s =
     (if pc_done (lf_client s) then s\<lparr>lf_loops := lf_loops s - 1, lf_panic := True\<rparr>
      else s\<lparr>lf_loops := lf_loops s - 1, lf_client := (lf_client s)\<lparr>pc_done := True\<rparr>\<rparr>)"

definition Close_test :: "life \<Rightarrow> life" where
  "Close_test s =
     (if pc_stop (lf_client s) then s
      else s\<lparr>lf_closing := lf_closing s + 1, lf_overlap := (lf_overlap s \<or> lf_closing s > 0)\<rparr>)"

definition Close_close :: "life \<Rightarrow> life" where
  "Close_close s =
     (if pc_stop (lf_client s) then s\<lparr>lf_closing := lf_closing s - 1, lf_panic := True\<rparr>
      else s\<lparr>lf_closing := lf_closing s - 1, lf_client := (lf_client s)\<lparr>pc_stop := True\<rparr>, lf_loading := lf_loading s + 1\<rparr>)"

definition Close_load :: "life \<Rightarrow> life" where
  "Close_load s =
     (if pc_started (lf_client s) then s\<lparr>lf_loading := lf_loading s - 1, lf_waiting := lf_waiting s + 1\<rparr>
      else s\<lparr>lf_loading := lf_loading s - 1\<rparr>)"

text \<open>
  The steps that the goroutine of Start and the refresher make on their way to their end. The third case of the
  refresher's select, the tick, is a step of \<open>life_step\<close> and stays enabled after stop and cancellation.
\<close>

inductive finish_step :: "life \<Rightarrow> life \<Rightarrow> bool" where
  fetch: "lf_starting s > 0 \<Longrightarrow> finish_step s (Start_fetch env s)"
| loop_return: "lf_loops s > 0 \<Longrightarrow> lf_ctx_done s \<or> pc_stop (lf_client s) \<Longrightarrow> finish_step s (refreshLoop_return s)"

inductive life_step :: "life \<Rightarrow> life \<Rightarrow> bool" where
  start: "life_step s (Start_begin s)"
| finish: "finish_step s s' \<Longrightarrow> life_step s s'"
| tick: "lf_loops s > 0 \<Longrightarrow> life_step s (s\<lparr>lf_client := refreshOnce env (lf_client s)\<rparr>)"
| cancel: "life_step s (s\<lparr>lf_ctx_done := True\<rparr>)"
| close_test: "life_step s (Close_test s)"
| close_close: "lf_closing s > 0 \<Longrightarrow> life_step s (Close_close s)"
| close_load: "lf_loading s > 0 \<Longrightarrow> life_step s (Close_load s)"
| close_return: "lf_waiting s > 0 \<Longrightarrow> pc_done (lf_client s) \<Longrightarrow> life_step s (s\<lparr>lf_waiting := lf_waiting s - 1\<rparr>)"
| refresh: "life_step s (s\<lparr>lf_client := Refresh env (lf_client s)\<rparr>)"
| httpClient: "life_step s (s\<lparr>lf_client := snd (HTTPClient now url_ok cache (lf_client s))\<rparr>)"
| roundTrip: "life_step s (s\<lparr>lf_client := RoundTrip now r (lf_client s)\<rparr>)"

inductive life_reach :: "proxy_options \<Rightarrow> life \<Rightarrow> bool" for opts where
  init: "life_reach opts (life0 opts)"
| more: "life_reach opts s \<Longrightarrow> life_step s s' \<Longrightarrow> life_reach opts s'"

inductive_cases finish_stepE: "finish_step s s'"
inductive_cases life_stepE: "life_step s s'"

section \<open>Invariant\<close>

definition life_inv :: "life \<Rightarrow> bool" where
  "life_inv s \<longleftrightarrow>
     lf_starting s + lf_loops s + of_bool (pc_done (lf_client s)) = of_bool (pc_started (lf_client s))
     \<and> (lf_starting s + lf_loops s > 0 \<longrightarrow> \<not> no_proxy_mode (lf_client s))
     \<and> (lf_closing s > 1 \<longrightarrow> lf_overlap s)
     \<and> (lf_closing s > 0 \<and> pc_stop (lf_client s) \<longrightarrow> lf_overlap s)
     \<and> (lf_loading s > 0 \<or> lf_waiting s > 0 \<longrightarrow> pc_stop (lf_client s))
     \<and> (lf_waiting s > 0 \<longrightarrow> pc_started (lf_client s))
     \<and> (lf_panic s \<longrightarrow> lf_overlap s)"

lemma life_inv_count:
  "life_inv s \<Longrightarrow> lf_starting s + lf_loops s + of_bool (pc_done (lf_client s)) = of_bool (pc_started (lf_client s))"
  by (simp add: life_inv_def)

text \<open>The operations on breaker and assignment leave the channels and the options alone.\<close>

definition same_life :: "proxy_client \<Rightarrow> proxy_client \<Rightarrow> bool" where
  "same_life c c' \<longleftrightarrow> pc_opts c' = pc_opts c \<and> pc_started c' = pc_started c \<and> pc_stop c' = pc_stop c \<and> pc_done c' = pc_done c"

lemma same_life_ops:
  "same_life c (refreshOnce env c)" "same_life c (Refresh env c)"
  "same_life c (snd (HTTPClient now url_ok cache c))" "same_life c (RoundTrip now r c)"
  by (auto simp: same_life_def refreshOnce_def Refresh_def HTTPClient_def RoundTrip_def Let_def
      split: sum.split option.split prod.split observed.split)

lemma same_life_no_proxy: "same_life c c' \<Longrightarrow> no_proxy_mode c' = no_proxy_mode c"
  by (simp add: same_life_def no_proxy_mode_def)

lemma life_inv_client:
  assumes "life_inv s" and "same_life (lf_client s) c'"
  shows "life_inv (s\<lparr>lf_client := c'\<rparr>)"
  using assms same_life_no_proxy [OF assms(2)] by (simp add: life_inv_def same_life_def)

lemma life_inv_finish:
  assumes "finish_step s s'" and "life_inv s"
  shows "life_inv s'"
  using assms(1)
proof cases
  case (fetch env)
  have "life_inv (s\<lparr>lf_client := refreshOnce env (lf_client s)\<rparr>)"
    by (rule life_inv_client [OF assms(2) same_life_ops(1)])
  with fetch show ?thesis by (auto simp: life_inv_def Start_fetch_def)
next
  case loop_return
  with assms(2) show ?thesis
    by (auto simp: life_inv_def refreshLoop_return_def no_proxy_mode_def of_bool_def split: if_splits)
qed

lemma life_inv_step: "life_step s s' \<Longrightarrow> life_inv s \<Longrightarrow> life_inv s'"
proof (induction rule: life_step.induct)
  case (start s)
  then show ?case by (auto simp: life_inv_def Start_begin_def Let_def no_proxy_mode_def)
next
  case (close_test s)
  then show ?case by (auto simp: life_inv_def Close_test_def)
next
  case (close_close s)
  then show ?case by (auto simp: life_inv_def Close_close_def no_proxy_mode_def)
next
  case (close_load s)
  then show ?case by (auto simp: life_inv_def Close_load_def)
next
  case (finish s s')
  then show ?case by (rule life_inv_finish)
next
  case (cancel s)
  then show ?case by (simp add: life_inv_def)
next
  case (close_return s)
  then show ?case by (simp add: life_inv_def)
qed (erule life_inv_client, rule same_life_ops)+

lemma life_reach_inv: "life_reach opts s \<Longrightarrow> life_inv s"
proof (induction rule: life_reach.induct)
  case init
  then show ?case by (simp add: life_inv_def life0_def New_def Let_def)
qed (rule life_inv_step)

section \<open>Histories of calls\<close>

datatype client_op =
    OpRefresh net_env
  | OpClient time "string \<Rightarrow> bool" bool
  | OpTrip time observed

fun client_step :: "client_op \<Rightarrow> proxy_client \<Rightarrow> proxy_client" where
  "client_step (OpRefresh env) c = Refresh env c"
| "client_step (OpClient now url_ok cache) c = snd (HTTPClient now url_ok cache c)"
| "client_step (OpTrip now r) c = RoundTrip now r c"

definition client_run :: "client_op list \<Rightarrow> proxy_client \<Rightarrow> proxy_client" where
  "client_run ops c = fold client_step ops c"

text \<open>What the last refresh that succeeded has fetched.\<close>

fun fetched :: "proxy_options \<Rightarrow> client_op \<Rightarrow> assignment option" where
  "fetched opts (OpRefresh env) = (case fetchAssignment (ne_get env) opts of Inl _ \<Rightarrow> None | Inr a \<Rightarrow> Some a)"
| "fetched opts _ = None"

definition last_fetched :: "proxy_options \<Rightarrow> client_op list \<Rightarrow> assignment option" where
  "last_fetched opts ops = fold (\<lambda>op acc. case fetched opts op of None \<Rightarrow> acc | Some a \<Rightarrow> Some a) ops None"

lemma current_step:
  "pc_current (client_step op c) = (case fetched (pc_opts c) op of None \<Rightarrow> pc_current c | Some a \<Rightarrow> Some a)"
  by (cases op) (auto simp: Refresh_def refreshOnce_def HTTPClient_def RoundTrip_def Let_def
      split: sum.split option.split prod.split observed.split)

lemma opts_step [simp]: "pc_opts (client_step op c) = pc_opts c"
  using same_life_ops by (cases op) (simp_all add: same_life_def)

lemma client_run_facts:
  "pc_opts (client_run ops c) = pc_opts c
   \<and> pc_current (client_run ops c)
     = fold (\<lambda>op acc. case fetched (pc_opts c) op of None \<Rightarrow> acc | Some a \<Rightarrow> Some a) ops (pc_current c)"
  unfolding client_run_def by (induction ops arbitrary: c) (simp_all add: current_step)

lemma fetched_nonempty: "fetched opts op = Some a \<Longrightarrow> an_ProxyAddress a \<noteq> []"
  by (cases op) (auto simp: fetchAssignment_def decode_response_def Let_def
      split: http_outcome.splits option.splits if_splits sum.splits)

lemma last_fetched_nonempty:
  assumes "last_fetched opts ops = Some a"
  shows "an_ProxyAddress a \<noteq> []"
proof -
  have "fold (\<lambda>op acc. case fetched opts op of None \<Rightarrow> acc | Some a \<Rightarrow> Some a) ops acc = Some a
      \<Longrightarrow> acc = Some a \<or> (\<exists>op. fetched opts op = Some a)" for acc
    by (induction ops arbitrary: acc) (fastforce split: option.splits)+
  with assms show ?thesis unfolding last_fetched_def by (auto dest: fetched_nonempty)
qed

lemma HTTPClient_transport:
  "hcl_Transport (fst (HTTPClient now url_ok True c)) =
     (case pc_current c of
        Some a \<Rightarrow>
          (if fst (allow now (pc_br c)) \<and> an_ProxyAddress a \<noteq> [] \<and> url_ok (ensureScheme (an_ProxyAddress a))
           then ObservedProxy (ensureScheme (an_ProxyAddress a)) (po_ProxyCAPool (pc_opts c)) (po_HTTPTimeout (pc_opts c))
           else DirectTransport (po_HTTPTimeout (pc_opts c)))
      | None \<Rightarrow> DirectTransport (po_HTTPTimeout (pc_opts c)))"
  by (auto simp: HTTPClient_def directClient_def Let_def split: option.split prod.split)

text \<open>Members that name no field of a struct are skipped.\<close>

lemma envelope_members_skip:
  "\<forall>(k, v) \<in> set ms. \<not> names_field k ''body'' \<Longrightarrow> envelope_members ms r = r"
  by (induction ms) auto

section \<open>Properties\<close>

text \<open>
  C12: in every state Start, the refresher, Close and the other calls can lead to, at most one refresher
  exists or is about to, the done channel is closed exactly when the client was started and none is
  left, and without a control plane URL or worker id there never is one.
\<close>

theorem single_refresher:
  assumes "life_reach opts s"
  shows "lf_starting s + lf_loops s \<le> 1
       \<and> (pc_done (lf_client s) \<longleftrightarrow> pc_started (lf_client s) \<and> lf_starting s + lf_loops s = 0)
       \<and> (no_proxy_mode (lf_client s) \<longrightarrow> lf_starting s + lf_loops s = 0)"
  using life_reach_inv [OF assms] by (auto simp: life_inv_def of_bool_def split: if_splits)

definition opts0 :: proxy_options where
  "opts0 = zero_options\<lparr>po_ControlplaneURL := ''http://c'', po_WorkerID := ''w''\<rparr>"

definition env0 :: "time \<Rightarrow> http_outcome \<Rightarrow> net_env" where
  "env0 t out = \<lparr>ne_now = t, ne_get = (\<lambda>_ _. out)\<rparr>"

lemma started0: "life_reach opts0 (Start_begin (life0 opts0))"
  by (rule life_reach.more [OF life_reach.init life_step.start])

theorem single_refresher_witness:
  "lf_starting (Start_begin (life0 opts0)) + lf_loops (Start_begin (life0 opts0)) \<le> 1
   \<and> lf_starting (Start_begin (life0 opts0)) = 1"
  using single_refresher [OF started0]
  by (simp add: Start_begin_def life0_def New_def applyDefaults_def opts0_def zero_options_def no_proxy_mode_def Let_def)

text \<open>
  The refresher's way to its end. A step towards the end is the synchronous fetch of Start or the return of the
  loop; after stop the loop's select may still pick the ticker, which is no such step. An action is weakly
  fair in a run if it is not enabled forever from some point on without being taken.
\<close>

definition weakly_fair :: "('s \<Rightarrow> 's \<Rightarrow> bool) \<Rightarrow> (nat \<Rightarrow> 's) \<Rightarrow> bool" where
  "weakly_fair act \<sigma> \<longleftrightarrow> (\<forall>n. (\<forall>i \<ge> n. \<exists>s'. act (\<sigma> i) s') \<longrightarrow> (\<exists>i \<ge> n. act (\<sigma> i) (\<sigma> (Suc i))))"

definition ahead :: "life \<Rightarrow> nat" where
  "ahead s = 2 * lf_starting s + lf_loops s"

definition stopping :: "life \<Rightarrow> bool" where
  "stopping s \<longleftrightarrow> pc_started (lf_client s) \<and> pc_stop (lf_client s)"

lemma finish_step_stopping: "finish_step s s' \<Longrightarrow> stopping s \<Longrightarrow> stopping s' \<and> ahead s' < ahead s"
  using same_life_ops(1) [of "lf_client s"]
  by (auto elim!: finish_stepE simp: stopping_def ahead_def Start_fetch_def refreshLoop_return_def same_life_def)

lemma life_step_stopping:
  assumes "life_step s s'" and "stopping s"
  shows "stopping s' \<and> ahead s' \<le> ahead s"
  using assms(1)
proof cases
  case finish
  then show ?thesis using finish_step_stopping [OF _ assms(2)] less_imp_le by blast
qed (use assms(2) same_life_ops [of "lf_client s"] in
    \<open>auto simp: stopping_def ahead_def same_life_def Start_begin_def Close_test_def Close_close_def Close_load_def\<close>)

lemma finish_enabled: "stopping s \<Longrightarrow> ahead s \<noteq> 0 \<Longrightarrow> \<exists>s'. finish_step s s'"
  by (auto simp: stopping_def ahead_def intro: finish_step.intros)

lemma run_reach:
  assumes "\<sigma> 0 = life0 opts" and "\<forall>i. life_step (\<sigma> i) (\<sigma> (Suc i))"
  shows "life_reach opts (\<sigma> i)"
  using assms by (induction i) (auto intro: life_reach.intros)

lemma run_stopping:
  assumes "\<forall>i. life_step (\<sigma> i) (\<sigma> (Suc i))" and "stopping (\<sigma> n)"
  shows "stopping (\<sigma> (n + i)) \<and> ahead (\<sigma> (n + i)) \<le> ahead (\<sigma> n)"
proof (induction i)
  case (Suc i)
  then show ?case using life_step_stopping [of "\<sigma> (n + i)" "\<sigma> (Suc (n + i))"] assms(1) by fastforce
qed (simp add: assms(2))

lemma run_finishes:
  assumes "\<forall>i. life_step (\<sigma> i) (\<sigma> (Suc i))" and "weakly_fair finish_step \<sigma>" and "stopping (\<sigma> n)"
  shows "\<exists>m \<ge> n. ahead (\<sigma> m) = 0"
  using assms(3)
proof (induction "ahead (\<sigma> n)" arbitrary: n rule: less_induct)
  case less
  note keep = run_stopping [OF assms(1)]
  show ?case
  proof (cases "\<exists>i \<ge> n. finish_step (\<sigma> i) (\<sigma> (Suc i))")
    case True
    then obtain i where i: "i \<ge> n" "finish_step (\<sigma> i) (\<sigma> (Suc i))" by blast
    have "stopping (\<sigma> i) \<and> ahead (\<sigma> i) \<le> ahead (\<sigma> n)" using keep [OF less.prems, of "i - n"] i(1) by simp
    with finish_step_stopping [OF i(2)] have "stopping (\<sigma> (Suc i))" "ahead (\<sigma> (Suc i)) < ahead (\<sigma> n)" by auto
    from less.hyps [OF this(2,1)] show ?thesis using i(1) Suc_leD le_trans by blast
  next
    case False
    then obtain i where "i \<ge> n" "\<not> (\<exists>s'. finish_step (\<sigma> i) s')" using assms(2) unfolding weakly_fair_def by blast
    moreover have "stopping (\<sigma> i)" using keep [OF less.prems, of "i - n"] \<open>i \<ge> n\<close> by simp
    ultimately show ?thesis using finish_enabled by blast
  qed
qed

text \<open>
  C13: Close does not wait in vain. In every run of Start, the refresher, Close and the other calls in which the
  synchronous fetch of Start ends and the select of the refresher does not pick its ticker forever (weak fairness of
  the steps towards the end), once the client is started and its stop channel closed there is a moment from which on
  no refresher is left and the done channel, for which Close waits, is closed.
\<close>

theorem close_finishes:
  assumes "\<sigma> 0 = life0 opts" and "\<forall>i. life_step (\<sigma> i) (\<sigma> (Suc i))" and "weakly_fair finish_step \<sigma>"
    and "pc_started (lf_client (\<sigma> n))" and "pc_stop (lf_client (\<sigma> n))"
  shows "\<exists>m \<ge> n. \<forall>k \<ge> m. pc_done (lf_client (\<sigma> k)) \<and> lf_starting (\<sigma> k) + lf_loops (\<sigma> k) = 0"
proof -
  have n: "stopping (\<sigma> n)" using assms(4,5) by (simp add: stopping_def)
  obtain m where m: "m \<ge> n" "ahead (\<sigma> m) = 0" using run_finishes [OF assms(2,3) n] by blast
  then have sm: "stopping (\<sigma> m)" using run_stopping [OF assms(2) n, of "m - n"] by simp
  have "pc_done (lf_client (\<sigma> k)) \<and> lf_starting (\<sigma> k) + lf_loops (\<sigma> k) = 0" if "k \<ge> m" for k
  proof -
    have "stopping (\<sigma> k)" "ahead (\<sigma> k) = 0" using run_stopping [OF assms(2) sm, of "k - m"] m(2) that by auto
    then show ?thesis using life_inv_count [OF life_reach_inv [OF run_reach [OF assms(1,2), of k]]]
      by (auto simp: stopping_def ahead_def of_bool_def split: if_splits)
  qed
  with m(1) show ?thesis by blast
qed

text \<open>A run: Start, the closing of the stop channel, a tick of the refresher, its return, and nothing but cancellations after.\<close>

definition run0 :: "nat \<Rightarrow> life" where
  "run0 i =
     (let started = Start_begin (life0 opts0);
          fetched = Start_fetch (env0 0 (TransportError [])) started;
          stopped = Close_close (Close_test fetched);
          ticked = stopped\<lparr>lf_client := refreshOnce (env0 0 (TransportError [])) (lf_client stopped)\<rparr>;
          prefix = [life0 opts0, started, fetched, Close_test fetched, stopped, ticked, refreshLoop_return ticked]
      in if i < length prefix then prefix ! i else (refreshLoop_return ticked)\<lparr>lf_ctx_done := True\<rparr>)"

lemmas run0_simps = run0_def Start_begin_def Start_fetch_def Close_test_def Close_close_def refreshLoop_return_def life0_def
  New_def applyDefaults_def opts0_def zero_options_def no_proxy_mode_def refreshOnce_def fetchAssignment_def env0_def Let_def

lemma run0_counts:
  "lf_starting (run0 1) = 1" "lf_loops (run0 2) = 1" "lf_closing (run0 3) = 1" "lf_loops (run0 4) = 1" "lf_loops (run0 5) = 1"
  "pc_stop (lf_client (run0 5))" "pc_started (lf_client (run0 4))" "pc_stop (lf_client (run0 4))"
  by (simp_all add: run0_simps)

lemma run0_end: "i \<ge> 6 \<Longrightarrow> lf_starting (run0 i) = 0 \<and> lf_loops (run0 i) = 0"
  by (cases "i = 6") (simp_all add: run0_simps)

lemma run0_unfold:
  "run0 1 = Start_begin (run0 0)" "run0 2 = Start_fetch (env0 0 (TransportError [])) (run0 1)" "run0 3 = Close_test (run0 2)"
  "run0 4 = Close_close (run0 3)" "run0 5 = (run0 4)\<lparr>lf_client := refreshOnce (env0 0 (TransportError [])) (lf_client (run0 4))\<rparr>"
  "run0 6 = refreshLoop_return (run0 5)" "i \<ge> 6 \<Longrightarrow> run0 (Suc i) = (run0 i)\<lparr>lf_ctx_done := True\<rparr>"
  by (simp_all add: run0_def Let_def eval_nat_numeral less_Suc_eq)

lemma run0_steps: "life_step (run0 i) (run0 (Suc i))"
proof -
  consider "i = 0" | "i = 1" | "i = 2" | "i = 3" | "i = 4" | "i = 5" | "i \<ge> 6" by linarith
  then show ?thesis
  proof cases
    case 1
    show ?thesis using life_step.start [of "run0 0"] by (simp add: 1 run0_unfold(1) [symmetric])
  next
    case 2
    have "life_step (run0 1) (run0 2)" unfolding run0_unfold(2) by (rule finish [OF fetch]) (simp add: run0_counts(1) del: One_nat_def)
    then show ?thesis by (simp add: 2 numeral_2_eq_2)
  next
    case 3
    show ?thesis using close_test [of "run0 2"] by (simp add: 3 run0_unfold(3))
  next
    case 4
    show ?thesis using close_close [of "run0 3"] by (simp add: 4 run0_unfold(4) run0_counts)
  next
    case 5
    show ?thesis using tick [of "run0 4"] by (simp add: 5 run0_unfold(5) run0_counts)
  next
    case 6
    show ?thesis using finish [OF loop_return, of "run0 5"] by (simp add: 6 run0_unfold(6) run0_counts)
  next
    case 7
    show ?thesis using cancel [of "run0 i"] by (simp add: run0_unfold(7) [OF 7])
  qed
qed

theorem close_finishes_witness:
  "lf_loops (run0 4) = 1
   \<and> (\<exists>m \<ge> 4. \<forall>k \<ge> m. pc_done (lf_client (run0 k)) \<and> lf_starting (run0 k) + lf_loops (run0 k) = 0)"
proof -
  have "run0 0 = life0 opts0" by (simp add: run0_def Let_def)
  moreover have "weakly_fair finish_step run0"
    unfolding weakly_fair_def
  proof (intro allI impI)
    fix n
    assume "\<forall>i \<ge> n. \<exists>s'. finish_step (run0 i) s'"
    then obtain s' where "finish_step (run0 (max n 6)) s'" using max.cobounded1 by blast
    then show "\<exists>i \<ge> n. finish_step (run0 i) (run0 (Suc i))" using run0_end [of "max n 6"] by (auto elim: finish_stepE)
  qed
  ultimately show ?thesis using close_finishes [of run0 opts0 4] run0_steps run0_counts by blast
qed

text \<open>
  A client panics only if two calls of Close overlapped, and two that overlap can make it panic: both
  may pass the test of the stop channel before either closes it.
\<close>

theorem close_panic_needs_overlap:
  "(life_reach opts s \<longrightarrow> lf_panic s \<longrightarrow> lf_overlap s) \<and> (\<exists>s. life_reach opts s \<and> lf_panic s)"
proof
  show "life_reach opts s \<longrightarrow> lf_panic s \<longrightarrow> lf_overlap s"
    using life_reach_inv by (auto simp: life_inv_def)
  let ?t = "Close_test (Close_test (life0 opts))"
  have cnt: "lf_closing ?t = 2" "lf_closing (Close_close ?t) = 1" "lf_panic (Close_close (Close_close ?t))"
    by (simp_all add: Close_test_def Close_close_def life0_def New_def Let_def)
  have "life_reach opts ?t"
    by (rule life_reach.more [OF life_reach.more [OF life_reach.init close_test] close_test])
  then have "life_reach opts (Close_close ?t)" by (rule life_reach.more) (rule close_close, simp add: cnt)
  then have "life_reach opts (Close_close (Close_close ?t))" by (rule life_reach.more) (rule close_close, simp add: cnt)
  with cnt(3) show "\<exists>s. life_reach opts s \<and> lf_panic s" by blast
qed

theorem close_panic_needs_overlap_witness:
  "\<exists>s. life_reach opts0 s \<and> lf_panic s \<and> lf_overlap s"
  using close_panic_needs_overlap [of opts0] by blast

text \<open>
  C8: after any history of refreshes, client requests and round trips, a cached client is routed through
  a proxy exactly when the breaker grants the attempt, some refresh has succeeded and the address is a
  URL; the proxy is then the one the last successful refresh fetched. Otherwise it is direct.
\<close>

theorem HTTPClient_routes:
  "hcl_Transport (fst (HTTPClient now url_ok True (client_run ops (New opts)))) =
     (case last_fetched (applyDefaults opts) ops of
        Some a \<Rightarrow>
          (if fst (allow now (pc_br (client_run ops (New opts)))) \<and> url_ok (ensureScheme (an_ProxyAddress a))
           then ObservedProxy (ensureScheme (an_ProxyAddress a)) (po_ProxyCAPool opts) (po_HTTPTimeout (applyDefaults opts))
           else DirectTransport (po_HTTPTimeout (applyDefaults opts)))
      | None \<Rightarrow> DirectTransport (po_HTTPTimeout (applyDefaults opts)))"
proof -
  have o: "pc_opts (client_run ops (New opts)) = applyDefaults opts"
    and c: "pc_current (client_run ops (New opts)) = last_fetched (applyDefaults opts) ops"
    using client_run_facts [of ops "New opts"] by (simp_all add: New_def Let_def last_fetched_def)
  have ca: "po_ProxyCAPool (applyDefaults opts) = po_ProxyCAPool opts" by (simp add: applyDefaults_def Let_def)
  show ?thesis using last_fetched_nonempty [of "applyDefaults opts" ops]
    by (auto simp: HTTPClient_transport o c ca split: option.split)
qed

text \<open>
  With the default breaker, three failing round trips within thirty seconds of the first send the
  next cached clients direct until sixty seconds after the third, and the first one after that through
  the proxy again.
\<close>

theorem proxy_bypassed_after_three_errors:
  assumes "po_BreakerErrors opts \<le> 0" and "po_BreakerWindow opts \<le> 0" and "po_BreakerCooldown opts \<le> 0"
    and "fetched (applyDefaults opts) (OpRefresh env) = Some a" and "url_ok (ensureScheme (an_ProxyAddress a))"
    and "t1 - t0 \<le> 30 * Second" and "t2 - t0 \<le> 30 * Second"
  shows "hcl_Transport (fst (HTTPClient t url_ok True
      (client_run [OpRefresh env, OpTrip t0 (ObsError x), OpTrip t1 (ObsError y), OpTrip t2 (ObsError z)] (New opts))))
    = (if t - t2 < 60 * Second then DirectTransport (po_HTTPTimeout (applyDefaults opts))
       else ObservedProxy (ensureScheme (an_ProxyAddress a)) (po_ProxyCAPool (applyDefaults opts)) (po_HTTPTimeout (applyDefaults opts)))"
proof -
  let ?c = "client_run [OpRefresh env, OpTrip t0 (ObsError x), OpTrip t1 (ObsError y), OpTrip t2 (ObsError z)] (New opts)"
  have cfg: "po_BreakerErrors (applyDefaults opts) = 3" "po_BreakerWindow (applyDefaults opts) = 30 * Second"
      "po_BreakerCooldown (applyDefaults opts) = 60 * Second"
    using assms(1-3) by (simp_all add: applyDefaults_def Let_def)
  have f: "fetchAssignment (ne_get env) (applyDefaults opts) = Inr a"
    using assms(4) by (simp split: sum.splits)
  have sub: "\<not> time_Sub t1 t0 > 30 * Second" "\<not> time_Sub t2 t0 > 30 * Second"
    using assms(6,7) time_Sub_gt_iff [of "30 * Second"] by (simp_all add: Second_def minDuration_def maxDuration_def)
  have br: "br_state (pc_br ?c) = breakerOpen \<and> openedAt (pc_br ?c) = t2 \<and> cooldown (pc_br ?c) = 60 * Second"
    using sub by (simp add: client_run_def Refresh_def refreshOnce_def New_def Let_def f cfg RoundTrip_def failure_def
        success_def newBreaker_def)
  have "time_Sub t t2 \<ge> 60 * Second \<longleftrightarrow> t - t2 \<ge> 60 * Second"
    by (rule time_Sub_ge_iff) (simp_all add: Second_def minDuration_def maxDuration_def)
  then have "fst (allow t (pc_br ?c)) \<longleftrightarrow> t - t2 \<ge> 60 * Second" using br by (simp add: allow_def)
  moreover have "pc_current ?c = Some a" "pc_opts ?c = applyDefaults opts"
    using client_run_facts [of _ "New opts"] by (simp_all add: New_def Let_def f)
  ultimately show ?thesis using assms(5) fetched_nonempty [OF assms(4)] by (auto simp: HTTPClient_transport)
qed

definition answer0 :: bytes where
  "answer0 = ''{\"body\":{\"proxy_id\":\"1\",\"proxy_address\":\"p:8080\"}}''"

lemma fetched0:
  "fetched opts (OpRefresh (env0 0 (Response 200 answer0)))
   = Some \<lparr>an_ProxyID = ''1'', an_ProxyHost = [], an_ProxyAddress = ''p:8080''\<rparr>"
proof -
  have "decode_response answer0 = Inr \<lparr>an_ProxyID = ''1'', an_ProxyHost = [], an_ProxyAddress = ''p:8080''\<rparr>"
    by code_simp
  moreover have "take 65536 answer0 = answer0" by (simp add: answer0_def)
  ultimately show ?thesis by (simp add: fetchAssignment_def env0_def Let_def)
qed

theorem proxy_bypassed_after_three_errors_witness:
  "hcl_Transport (fst (HTTPClient (61 * Second) (\<lambda>_. True) True
      (client_run [OpRefresh (env0 0 (Response 200 answer0)), OpTrip 0 (ObsError []), OpTrip Second (ObsError []),
         OpTrip (2 * Second) (ObsError [])] (New opts0))))
   = DirectTransport (30 * Second)"
proof -
  have "(61 * Second :: int) - 2 * Second < 60 * Second" by (simp add: Second_def)
  moreover have "po_HTTPTimeout (applyDefaults opts0) = 30 * Second"
    by (simp add: applyDefaults_def opts0_def zero_options_def)
  ultimately show ?thesis
    using proxy_bypassed_after_three_errors [of opts0 "env0 0 (Response 200 answer0)" _ "\<lambda>_. True" Second 0 "2 * Second"
        "61 * Second" "[]" "[]" "[]", OF _ _ _ fetched0]
    by (simp add: opts0_def zero_options_def Second_def)
qed

text \<open>
  An assignment that arrives without the envelope is refused: a response object none of whose members
  is the envelope's field counts as an empty address, whatever address it has, so the decoding of
  unwrapped answers can only be reached by an object that has such a member of a wrong type.
\<close>

theorem unwrapped_assignment_refused:
  assumes "json_parse (take 65536 full) = Some (GMap ms)" and "\<forall>(k, v) \<in> set ms. \<not> names_field k ''body''"
    and "get (assignment_url opts) (if po_APIToken opts \<noteq> [] then Some (''Bearer '' @ po_APIToken opts) else None) = Response 200 full"
  shows "fetchAssignment get opts = Inl EmptyProxyAddress"
  using assms(1,3) envelope_members_skip [OF assms(2)]
  by (simp add: fetchAssignment_def Let_def decode_response_def unmarshal_into_def empty_assignment_def)

theorem unwrapped_assignment_refused_witness:
  "fetchAssignment (\<lambda>_ _. Response 200 ''{\"proxy_address\":\"p:8080\"}'') opts0 = Inl EmptyProxyAddress"
proof (rule unwrapped_assignment_refused)
  have "json_parse ''{\"proxy_address\":\"p:8080\"}'' = Some (GMap [(''proxy_address'', GStr ''p:8080'')])" by code_simp
  then show "json_parse (take 65536 ''{\"proxy_address\":\"p:8080\"}'') = Some (GMap [(''proxy_address'', GStr ''p:8080'')])" by simp
  have "\<not> names_field ''proxy_address'' ''body''" by code_simp
  then show "\<forall>(k, v) \<in> set [(''proxy_address'', GStr ''p:8080'')]. \<not> names_field k ''body''" by simp
qed simp

end
