(* ===== verification/Source_Cache.thy ===== *)
theory Source_Cache
  imports Database Sha256
begin

text \<open>
  The archive of recovered sources (sdk/sourcecache/sourcecache.go): the upsert of one file and of a
  batch, the listing and the count for a URL. The collation of the database is a parameter, given by its
  sort keys. Shown: what every operation keeps of the table, that a batch stops at its first invalid
  entry with the entries before it written, and that a listing returns what a batch has stored.
\<close>

section \<open>Operations\<close>

record sourceEntry =
  se_URL :: string
  se_Path :: string
  se_Content :: bytes

record sourceFile =
  sf_Path :: string
  sf_Content :: bytes
  sf_SHA256 :: bytes
  sf_FetchedAtS :: string

definition urlHash :: "string \<Rightarrow> bytes" where
  "urlHash url = sha256 url"

definition source_key :: "source_row \<Rightarrow> bytes \<times> string" where
  "source_key r = (sr_url_hash r, sr_path r)"

definition source_new :: "time \<Rightarrow> sourceEntry \<Rightarrow> source_row" where
  "source_new now e = \<lparr>sr_url_hash = urlHash (se_URL e), sr_path = se_Path e, sr_content = se_Content e,
     sr_sha256 = sha256 (se_Content e), sr_fetched_at = now\<rparr>"

definition source_merge :: "time \<Rightarrow> source_row \<Rightarrow> source_row \<Rightarrow> source_row" where
  "source_merge now old new = old\<lparr>sr_content := sr_content new, sr_sha256 := sr_sha256 new, sr_fetched_at := now\<rparr>"

definition source_guard :: "time \<Rightarrow> source_row \<Rightarrow> source_row \<Rightarrow> bool" where
  "source_guard now old new \<longleftrightarrow> sr_sha256 old \<noteq> sr_sha256 new \<or> sr_fetched_at old < now - 24 * 60 * Minute"

definition source_stmt :: "time \<Rightarrow> sourceEntry \<Rightarrow> db \<Rightarrow> db option" where
  "source_stmt now e d =
     map_option (\<lambda>t. d\<lparr>db_sources := t\<rparr>)
       (insert_on_conflict source_key (source_merge now) (source_guard now) [source_new now e] (db_sources d))"

definition source_check :: "sourceEntry \<Rightarrow> go_error option" where
  "source_check e =
     (if se_URL e = [] then Some (ErrorText ''httpcache: source entry URL required'' None)
      else if se_Path e = [] then Some (ErrorText ''httpcache: source entry Path required'' None)
      else if length (se_Content e) = 0 then Some (ErrorText ''httpcache: source entry Content required'' None)
      else None)"

definition source_Upsert :: "pg \<Rightarrow> sourceEntry \<Rightarrow> db \<times> fault list \<Rightarrow> go_error option \<times> db \<times> fault list" where
  "source_Upsert env e st =
     (case source_check e of
        Some err \<Rightarrow> (Some err, st)
      | None \<Rightarrow>
          (case pgexec (source_stmt (pg_now env) e) st of
             (Some err, st') \<Rightarrow> (Some (errorf_w ''httpcache: source upsert'' err), st')
           | (None, st') \<Rightarrow> (None, st')))"

fun upsert_from :: "pg \<Rightarrow> nat \<Rightarrow> sourceEntry list \<Rightarrow> db \<times> fault list \<Rightarrow> go_error option \<times> db \<times> fault list" where
  "upsert_from env i [] st = (None, st)"
| "upsert_from env i (e # es) st =
     (case source_Upsert env e st of
        (Some err, st') \<Rightarrow> (Some (errorf_w (''httpcache: source upsert ['' @ dec_nat i @ '']'') err), st')
      | (None, st') \<Rightarrow> upsert_from env (Suc i) es st')"

definition UpsertBatch :: "pg \<Rightarrow> sourceEntry list \<Rightarrow> db \<times> fault list \<Rightarrow> go_error option \<times> db \<times> fault list" where
  "UpsertBatch env entries st = upsert_from env 0 entries st"

definition source_file :: "source_row \<Rightarrow> sourceFile" where
  "source_file r = \<lparr>sf_Path = trimPrefix (trimRight (sr_path r) (CHR ''/'')) ''./'', sf_Content = sr_content r,
     sf_SHA256 = sr_sha256 r, sf_FetchedAtS = []\<rparr>"

definition ListForURL ::
  "(string \<Rightarrow> string) \<Rightarrow> string \<Rightarrow> int \<Rightarrow> db \<times> fault list \<Rightarrow> (go_error, sourceFile list) result \<times> db \<times> fault list" where
  "ListForURL collate rawURL limit st =
     (if rawURL = [] then (Inl (ErrorText ''httpcache: source list URL required'' None), st)
      else
        let limit = (if limit \<le> 0 then 5000 else limit);
            q = pgquery (\<lambda>d. Some (take (nat limit)
                  (sort_key (\<lambda>r. collate (sr_path r)) (filter (\<lambda>r. sr_url_hash r = urlHash rawURL) (db_sources d))))) st
        in (case fst q of
              Inl err \<Rightarrow> Inl (errorf_w ''httpcache: source list'' err)
            | Inr None \<Rightarrow> Inr []
            | Inr (Some rows) \<Rightarrow> Inr (map source_file rows),
            snd q))"

definition CountForURL :: "string \<Rightarrow> db \<times> fault list \<Rightarrow> (go_error, int) result \<times> db \<times> fault list" where
  "CountForURL rawURL st =
     (if rawURL = [] then (Inl (ErrorText ''httpcache: count URL required'' None), st)
      else
        let q = pgquery (\<lambda>d. Some (int (length (filter (\<lambda>r. sr_url_hash r = urlHash rawURL) (db_sources d))))) st
        in (case fst q of
              Inl err \<Rightarrow> Inl (errorf_w ''httpcache: source count'' err)
            | Inr None \<Rightarrow> Inr 0
            | Inr (Some n) \<Rightarrow> Inr n,
            snd q))"

section \<open>The table\<close>

interpretation sources_tbl: upsert_table source_key "source_merge now" "source_guard now" for now
  by unfold_locales (simp add: source_key_def source_merge_def)

definition row_ok :: "source_row \<Rightarrow> bool" where
  "row_ok r \<longleftrightarrow> sr_path r \<noteq> [] \<and> sr_content r \<noteq> [] \<and> sr_sha256 r = sha256 (sr_content r)"

definition sources_inv :: "source_row list \<Rightarrow> bool" where
  "sources_inv tbl \<longleftrightarrow> distinct (map source_key tbl) \<and> (\<forall>r \<in> set tbl. row_ok r)"

abbreviation source_put :: "time \<Rightarrow> sourceEntry \<Rightarrow> source_row list \<Rightarrow> source_row list" where
  "source_put now e \<equiv> upsert1 source_key (source_merge now) (source_guard now) (source_new now e)"

lemma source_stmt_effect: "source_stmt now e d = Some (d\<lparr>db_sources := source_put now e (db_sources d)\<rparr>)"
  by (simp add: source_stmt_def insert_on_conflict_Cons1)

lemma source_new_ok: "source_check e = None \<Longrightarrow> row_ok (source_new now e)"
  by (auto simp: source_check_def row_ok_def source_new_def split: if_splits)

lemma source_put_ok:
  assumes "source_check e = None" and "sources_inv tbl"
  shows "sources_inv (source_put now e tbl)"
proof -
  have "insert_on_conflict source_key (source_merge now) (source_guard now) [source_new now e] tbl = Some (source_put now e tbl)"
    by (rule insert_on_conflict_Cons1)
  moreover have "row_ok r \<Longrightarrow> row_ok n \<Longrightarrow> row_ok (source_merge now r n)" for r n
    by (simp add: row_ok_def source_merge_def)
  ultimately have "\<forall>r \<in> set (source_put now e tbl). row_ok r"
    using assms source_new_ok [of e now]
    by (auto simp: sources_inv_def upsert1_def update_where_def split: option.splits if_splits)
  with sources_tbl.unique_upsert1 [of tbl now] assms(2) show ?thesis by (simp add: sources_inv_def)
qed

lemma source_Upsert_cases:
  "source_Upsert env e (d, fs) = (r, d', fs') \<Longrightarrow>
     d' = d \<or> source_check e = None \<and> d' = d\<lparr>db_sources := source_put (pg_now env) e (db_sources d)\<rparr>"
  using pgexec_cases [of "source_stmt (pg_now env) e" d fs]
  by (auto simp: source_Upsert_def source_stmt_effect split: option.splits prod.splits)

lemma source_Upsert_ok:
  "source_check e = None \<Longrightarrow>
   source_Upsert env e (d, []) = (None, d\<lparr>db_sources := source_put (pg_now env) e (db_sources d)\<rparr>, [])"
  by (simp add: source_Upsert_def source_stmt_effect)

lemma source_Upsert_inv:
  assumes "source_Upsert env e (d, fs) = (r, d', fs')" and "sources_inv (db_sources d)"
  shows "sources_inv (db_sources d')"
  using source_Upsert_cases [OF assms(1)] assms(2) source_put_ok [of e] by auto

lemma upsert_from_inv:
  "sources_inv (db_sources (fst st)) \<Longrightarrow> sources_inv (db_sources (fst (snd (upsert_from env i es st))))"
proof (induction es arbitrary: i st)
  case (Cons e es)
  obtain r d' fs' where u: "source_Upsert env e st = (r, d', fs')" by (metis prod_cases3)
  have "sources_inv (db_sources d')"
    using source_Upsert_inv [of env e "fst st" "snd st"] u Cons.prems by simp
  with Cons.IH [of "(d', fs')"] u show ?case by (cases r) simp_all
qed simp

lemma upsert_from_prefix:
  assumes "\<forall>e \<in> set es. source_check e = None"
  shows "upsert_from env i (es @ rest) (d, []) =
     upsert_from env (i + length es) rest (d\<lparr>db_sources := fold (source_put (pg_now env)) es (db_sources d)\<rparr>, [])"
  using assms
proof (induction es arbitrary: i d)
  case (Cons e es)
  then show ?case
    using Cons.IH [of "Suc i" "d\<lparr>db_sources := source_put (pg_now env) e (db_sources d)\<rparr>"]
    by (simp add: source_Upsert_ok)
qed simp

lemma insort_map: "insort_key f (g x) (map g xs) = map g (insort_key (\<lambda>y. f (g y)) x xs)"
  by (induction xs) simp_all

lemma sort_map: "sort_key f (map g xs) = map g (sort_key (\<lambda>x. f (g x)) xs)"
  by (induction xs) (simp_all add: insort_map)

lemma fold_put_fresh:
  assumes "distinct (map (\<lambda>e. (urlHash (se_URL e), se_Path e)) es)"
    and "(\<lambda>e. (urlHash (se_URL e), se_Path e)) ` set es \<inter> source_key ` set tbl = {}"
  shows "fold (source_put now) es tbl = tbl @ map (source_new now) es"
  using assms
proof (induction es arbitrary: tbl)
  case (Cons e es)
  have k: "source_key (source_new now e) = (urlHash (se_URL e), se_Path e)" by (simp add: source_key_def source_new_def)
  have "source_key (source_new now e) \<notin> source_key ` set tbl" using Cons.prems(2) by (auto simp: k)
  then have "lookup source_key tbl (source_key (source_new now e)) = None" by (simp only: lookup_None_iff) simp
  then have "source_put now e tbl = tbl @ [source_new now e]" by (simp add: upsert1_def)
  moreover have "(\<lambda>e. (urlHash (se_URL e), se_Path e)) ` set es \<inter> source_key ` set (tbl @ [source_new now e]) = {}"
    using Cons.prems by (auto simp: k)
  ultimately show ?case using Cons.IH [of "tbl @ [source_new now e]"] Cons.prems(1) by simp
qed simp

section \<open>Properties\<close>

text \<open>
  C34: under every fault of the connection, a batch keeps one row for each URL hash and path, each with a
  non-empty path and content and the digest of its content.
\<close>

theorem sources_invariant:
  assumes "sources_inv (db_sources d)"
  shows "sources_inv (db_sources (fst (snd (UpsertBatch env entries (d, fs)))))"
  using upsert_from_inv [of "(d, fs)" env 0 entries] assms by (simp add: UpsertBatch_def)

definition entry0 :: "string \<Rightarrow> string \<Rightarrow> sourceEntry" where
  "entry0 p c = \<lparr>se_URL = ''u'', se_Path = p, se_Content = c\<rparr>"

definition pg2 :: pg where
  "pg2 = \<lparr>pg_jsonb = (\<lambda>_. None), pg_digest = (\<lambda>_. []), pg_gen_id = (\<lambda>_ _ _. []), pg_first_seen = 0, pg_now = 7\<rparr>"

theorem sources_invariant_witness:
  "sources_inv (db_sources (fst (snd (UpsertBatch pg2 [entry0 ''a'' ''x'', entry0 ''a'' ''y'']
     (empty_db, [None, Some (sql_error, True)])))))"
  by (rule sources_invariant) (simp add: sources_inv_def empty_db_def)

text \<open>
  A batch with an invalid entry stops there: the error names its index, the entries before it have
  been written, in order, and those after it have not.
\<close>

theorem UpsertBatch_stops_at_invalid:
  assumes "\<forall>e \<in> set before. source_check e = None" and "source_check bad = Some err"
  shows "UpsertBatch env (before @ bad # after) (d, []) =
     (Some (errorf_w (''httpcache: source upsert ['' @ dec_nat (length before) @ '']'') err),
      d\<lparr>db_sources := fold (source_put (pg_now env)) before (db_sources d)\<rparr>, [])"
  using upsert_from_prefix [OF assms(1), of env 0 "bad # after" d] assms(2)
  by (simp add: UpsertBatch_def source_Upsert_def)

theorem UpsertBatch_stops_at_invalid_witness:
  "UpsertBatch pg2 [entry0 ''a'' ''x'', entry0 [] ''y'', entry0 ''b'' ''z''] (empty_db, []) =
     (Some (errorf_w (''httpcache: source upsert ['' @ dec_nat 1 @ '']'') (ErrorText ''httpcache: source entry Path required'' None)),
      empty_db\<lparr>db_sources := [source_new 7 (entry0 ''a'' ''x'')]\<rparr>, [])"
  using UpsertBatch_stops_at_invalid [of "[entry0 ''a'' ''x'']" "entry0 [] ''y''"
      "ErrorText ''httpcache: source entry Path required'' None" pg2 "[entry0 ''b'' ''z'']" empty_db]
  by (simp add: source_check_def entry0_def empty_db_def upsert1_def lookup_def pg2_def)

text \<open>
  C19: what a batch stores for a URL that has no files yet is what the listing returns: a file per entry
  with its content and digest, in the order of the paths as stored, cut at the limit.
\<close>

theorem source_archive_roundtrip:
  assumes "\<forall>e \<in> set entries. source_check e = None \<and> se_URL e = url" and "distinct (map se_Path entries)"
    and "url \<noteq> []" and "\<forall>r \<in> set (db_sources d). sr_url_hash r \<noteq> urlHash url"
  shows "UpsertBatch env entries (d, []) = (None, d', fs) \<Longrightarrow>
     fst (ListForURL collate url limit (d', fs)) =
       Inr (take (if limit \<le> 0 then 5000 else nat limit)
         (map (\<lambda>e. \<lparr>sf_Path = trimPrefix (trimRight (se_Path e) (CHR ''/'')) ''./'', sf_Content = se_Content e,
                     sf_SHA256 = sha256 (se_Content e), sf_FetchedAtS = []\<rparr>)
            (sort_key (\<lambda>e. collate (se_Path e)) entries)))
     \<and> fst (CountForURL url (d', fs)) = Inr (int (length entries))"
proof -
  assume run: "UpsertBatch env entries (d, []) = (None, d', fs)"
  let ?now = "pg_now env"
  have inj: "distinct (map (\<lambda>e. (urlHash (se_URL e), se_Path e)) entries)"
    using assms(2) by (auto simp: distinct_map inj_on_def)
  have "(\<lambda>e. (urlHash (se_URL e), se_Path e)) ` set entries \<inter> source_key ` set (db_sources d) = {}"
    using assms(1,4) by (fastforce simp: source_key_def)
  then have tbl: "d' = d\<lparr>db_sources := db_sources d @ map (source_new ?now) entries\<rparr>" "fs = []"
    using run upsert_from_prefix [of entries env 0 "[]" d] assms(1) fold_put_fresh [OF inj]
    by (auto simp: UpsertBatch_def)
  have "filter (\<lambda>r. sr_url_hash r = urlHash url) (db_sources d) = []" using assms(4) by (simp add: filter_empty_conv)
  moreover have "filter (\<lambda>r. sr_url_hash r = urlHash url) (map (source_new ?now) entries) = map (source_new ?now) entries"
    using assms(1) by (auto simp: filter_id_conv source_new_def)
  ultimately have rows: "filter (\<lambda>r. sr_url_hash r = urlHash url) (db_sources d') = map (source_new ?now) entries"
    by (simp add: tbl)
  have "sort_key (\<lambda>r. collate (sr_path r)) (map (source_new ?now) entries)
      = map (source_new ?now) (sort_key (\<lambda>e. collate (se_Path e)) entries)"
    by (simp add: sort_map source_new_def)
  then show ?thesis
    using assms(3) rows tbl(2)
    by (auto simp: ListForURL_def CountForURL_def Let_def take_map source_file_def source_new_def)
qed

lemma entries0_ok: "\<forall>e \<in> set [entry0 ''b'' ''x'', entry0 ''./a/'' ''y'']. source_check e = None \<and> se_URL e = ''u''"
  by (simp add: source_check_def entry0_def)

theorem source_archive_roundtrip_witness:
  "\<exists>d' fs. UpsertBatch pg2 [entry0 ''b'' ''x'', entry0 ''./a/'' ''y''] (empty_db, []) = (None, d', fs)
     \<and> fst (ListForURL id ''u'' 0 (d', fs)) =
         Inr [\<lparr>sf_Path = ''a'', sf_Content = ''y'', sf_SHA256 = sha256 ''y'', sf_FetchedAtS = []\<rparr>,
              \<lparr>sf_Path = ''b'', sf_Content = ''x'', sf_SHA256 = sha256 ''x'', sf_FetchedAtS = []\<rparr>]"
proof -
  let ?es = "[entry0 ''b'' ''x'', entry0 ''./a/'' ''y'']"
  have "\<forall>e \<in> set ?es. source_check e = None" using entries0_ok by blast
  from upsert_from_prefix [OF this, of pg2 0 "[]" empty_db]
  obtain d' where run: "UpsertBatch pg2 ?es (empty_db, []) = (None, d', [])"
    unfolding append_Nil2 upsert_from.simps(1) UpsertBatch_def by blast
  have "sort_key (\<lambda>e. id (se_Path e)) ?es = [entry0 ''./a/'' ''y'', entry0 ''b'' ''x'']"
    by (simp add: entry0_def)
  moreover have "trimPrefix (trimRight ''./a/'' (CHR ''/'')) ''./'' = ''a''" "trimPrefix (trimRight ''b'' (CHR ''/'')) ''./'' = ''b''"
    by code_simp+
  ultimately show ?thesis
    using run source_archive_roundtrip [OF entries0_ok _ _ _ run, of id 0]
    by (auto simp: entry0_def empty_db_def)
qed

end
