(* ===== verification/Mtls.thy ===== *)
theory Mtls
  imports Prelude
begin

text \<open>
  The client for internal endpoints (sdk/mtls/mtls.go): its construction from three environment
  variables, and the process-wide instance built on first use. The file system, PEM parsing and the
  loading of a key pair are parameters; the tuning of the connection pool is left out. Shown: when
  requests carry the worker's certificate, and that a broken configuration falls back to the default
  client, with the error kept from the first call on.
\<close>

text \<open>A client is the library's default one or one with its roots, its key pair, timeout and minimal version.\<close>

datatype tls_version = VersionTLS12

datatype mtls_client =
    DefaultClient
  | MutualTLS duration tls_version string string

record mtls_files =
  mx_readFile :: "string \<Rightarrow> (string, bytes) result"
  mx_certs :: "bytes \<Rightarrow> string option"
  mx_keyPair :: "string \<Rightarrow> string \<Rightarrow> (string, string) result"

definition cleanTransport :: "string \<Rightarrow> string \<Rightarrow> mtls_client" where
  "cleanTransport roots pair = MutualTLS (60 * Second) VersionTLS12 roots pair"

definition mtls_build :: "mtls_files \<Rightarrow> (string \<Rightarrow> string) \<Rightarrow> (string, mtls_client) result" where
  "mtls_build fs getenv =
     (let caPath = getenv ''PARABELLUM_TLS_CA''; certPath = getenv ''PARABELLUM_TLS_CERT''; keyPath = getenv ''PARABELLUM_TLS_KEY'' in
      if caPath = [] \<and> certPath = [] \<and> keyPath = [] then Inr DefaultClient
      else if caPath = [] \<or> certPath = [] \<or> keyPath = []
      then Inl ''mtls: set all of PARABELLUM_TLS_{CA,CERT,KEY} or none''
      else case mx_readFile fs caPath of
        Inl e \<Rightarrow> Inl e
      | Inr caBytes \<Rightarrow>
          (case mx_certs fs caBytes of
             None \<Rightarrow> Inl ''mtls: ca file: no PEM certs found''
           | Some pool \<Rightarrow>
               (case mx_keyPair fs certPath keyPath of
                  Inl e \<Rightarrow> Inl e
                | Inr pair \<Rightarrow> Inr (cleanTransport pool pair))))"

text \<open>The package state: whether \<open>clientOnce\<close> has run, and what it left.\<close>

record mtls_state =
  ms_once :: bool
  ms_client :: "mtls_client option"
  ms_err :: "string option"

definition mtls_init :: mtls_state where
  "mtls_init = \<lparr>ms_once = False, ms_client = None, ms_err = None\<rparr>"

definition mtls_Client :: "mtls_files \<Rightarrow> (string \<Rightarrow> string) \<Rightarrow> mtls_state \<Rightarrow> mtls_client option \<times> mtls_state" where
  "mtls_Client fs getenv s =
     (let s = (if ms_once s then s
        else case mtls_build fs getenv of
          Inl e \<Rightarrow> s\<lparr>ms_once := True, ms_client := Some DefaultClient, ms_err := Some e\<rparr>
        | Inr c \<Rightarrow> s\<lparr>ms_once := True, ms_client := Some c\<rparr>)
      in (ms_client s, s))"

definition LastError :: "mtls_state \<Rightarrow> string option" where
  "LastError s = ms_err s"

section \<open>Facts\<close>

text \<open>The calls of a process, each with the environment and the files it would find.\<close>

fun client_calls :: "(mtls_files \<times> (string \<Rightarrow> string)) list \<Rightarrow> mtls_state \<Rightarrow> mtls_client option list \<times> mtls_state" where
  "client_calls [] s = ([], s)"
| "client_calls ((fs, getenv) # calls) s =
     (case mtls_Client fs getenv s of (c, s') \<Rightarrow> case client_calls calls s' of (cs, s'') \<Rightarrow> (c # cs, s''))"

lemma client_calls_once: "ms_once s \<Longrightarrow> client_calls calls s = (replicate (length calls) (ms_client s), s)"
  by (induction calls s rule: client_calls.induct) (simp_all add: mtls_Client_def)

section \<open>Properties\<close>

text \<open>
  The configuration found at the first call decides for the whole process: every call returns the
  client built then, or, when building failed, the plain default client, which presents no
  certificate and does not check the cluster's authority; the failure is only visible in LastError.
\<close>

theorem mtls_first_call_decides:
  "client_calls ((fs, getenv) # calls) mtls_init =
     (replicate (Suc (length calls)) (Some (case mtls_build fs getenv of Inl _ \<Rightarrow> DefaultClient | Inr c \<Rightarrow> c)),
      \<lparr>ms_once = True, ms_client = Some (case mtls_build fs getenv of Inl _ \<Rightarrow> DefaultClient | Inr c \<Rightarrow> c),
       ms_err = (case mtls_build fs getenv of Inl e \<Rightarrow> Some e | Inr _ \<Rightarrow> None)\<rparr>)"
  by (cases "mtls_build fs getenv")
    (simp_all add: mtls_Client_def mtls_init_def client_calls_once Let_def)

text \<open>
  A client with certificates is built exactly when all three variables are set and the files are
  readable; none set is the default client, and anything between is an error.
\<close>

theorem mtls_build_complete_config:
  "mtls_build fs getenv = Inr c \<longleftrightarrow>
     (\<forall>v \<in> {''PARABELLUM_TLS_CA'', ''PARABELLUM_TLS_CERT'', ''PARABELLUM_TLS_KEY''}. getenv v = []) \<and> c = DefaultClient
   \<or> (\<forall>v \<in> {''PARABELLUM_TLS_CA'', ''PARABELLUM_TLS_CERT'', ''PARABELLUM_TLS_KEY''}. getenv v \<noteq> [])
     \<and> (\<exists>ca pool pair. mx_readFile fs (getenv ''PARABELLUM_TLS_CA'') = Inr ca \<and> mx_certs fs ca = Some pool
         \<and> mx_keyPair fs (getenv ''PARABELLUM_TLS_CERT'') (getenv ''PARABELLUM_TLS_KEY'') = Inr pair
         \<and> c = MutualTLS (60 * Second) VersionTLS12 pool pair)"
  by (auto simp: mtls_build_def Let_def cleanTransport_def split: sum.splits option.splits if_splits)

end
