(* ===== verification/Runtime.thy ===== *)
theory Runtime
  imports River_Adapter Config
begin

text \<open>
  The runtime that Serve starts (worker/runtime.go): its construction and instance id, the registration
  of the worker with its manifest as JSON, the heartbeat, the admin endpoints, the boot sequence of Run
  and the shutdown. Parameters: the host name, the random bytes, the outcomes of opening and pinging the
  pool, of the queue client and of the admin server's shutdown, the tool, and the metrics handler.
  Shown: the row of a registered worker after any heartbeats, that instance ids keep replicas apart,
  what the update endpoint answers, and the order of boot and shutdown in every case.
\<close>

section \<open>The manifest as JSON\<close>

text \<open>
  \<open>json.Marshal\<close> on the structs: Go's field names in declaration order, as only \<open>Readme\<close> carries a JSON
  tag. An empty list stands for the nil slice that an absent YAML field leaves, printed as null.
\<close>

definition json_slice :: "('a \<Rightarrow> string) \<Rightarrow> 'a list \<Rightarrow> string" where
  "json_slice f xs = (if xs = [] then ''null'' else json_array (map f xs))"

definition json_bool :: "bool \<Rightarrow> string" where
  "json_bool b = (if b then ''true'' else ''false'')"

definition json_opt :: "('a \<Rightarrow> string) \<Rightarrow> 'a option \<Rightarrow> string" where
  "json_opt f x = (case x of None \<Rightarrow> ''null'' | Some v \<Rightarrow> f v)"

definition tab_json :: "uiTab \<Rightarrow> string" where
  "tab_json t = json_object [(''Label'', json_string (tb_Label t)), (''Icon'', json_string (tb_Icon t)),
     (''Badge'', json_string (tb_Badge t)), (''AttrsPath'', json_string (tb_AttrsPath t))]"

definition column_json :: "uiColumn \<Rightarrow> string" where
  "column_json c = json_object [(''Field'', json_string (cl_Field c)), (''Label'', json_string (cl_Label c)),
     (''Align'', json_string (cl_Align c)), (''Monospace'', json_bool (cl_Monospace c)), (''Mask'', json_bool (cl_Mask c)),
     (''Link'', json_bool (cl_Link c))]"

definition kvkey_json :: "uiKVKey \<Rightarrow> string" where
  "kvkey_json k = json_object [(''Field'', json_string (kk_Field k)), (''Label'', json_string (kk_Label k)),
     (''Hint'', json_string (kk_Hint k))]"

definition view_json :: "uiView \<Rightarrow> string" where
  "view_json v = json_object [(''Kind'', json_string (vw_Kind v)), (''Title'', json_string (vw_Title v)),
     (''Columns'', json_slice column_json (vw_Columns v)), (''Sort'', json_slice json_string (vw_Sort v)),
     (''Filters'', json_slice json_string (vw_Filters v)), (''Keys'', json_slice kvkey_json (vw_Keys v)),
     (''Source'', json_string (vw_Source v))]"

definition federated_json :: "uiFederated \<Rightarrow> string" where
  "federated_json f = json_object [(''RemoteEntry'', json_string (fe_RemoteEntry f)), (''Scope'', json_string (fe_Scope f)),
     (''Slots'', if fe_Slots f = [] then ''null''
                 else json_object (sort_key fst (map (\<lambda>(k, v). (k, json_string v)) (fe_Slots f))))]"

definition ui_json :: "uiSpec \<Rightarrow> string" where
  "ui_json u = json_object [(''Tab'', json_opt tab_json (ui_Tab u)), (''Views'', json_slice view_json (ui_Views u)),
     (''Federated'', json_opt federated_json (ui_Federated u))]"

definition consume_json :: "consumeSpec \<Rightarrow> string" where
  "consume_json c = json_object [(''Kinds'', json_slice json_string (cs_Kinds c)), (''Filter'', json_string (cs_Filter c))]"

definition produce_json :: "produceSpec \<Rightarrow> string" where
  "produce_json p = json_object [(''Assets'', json_slice json_string (ps_Assets p)),
     (''FindingKinds'', json_slice json_string (ps_FindingKinds p))]"

definition phase_json :: "phase \<Rightarrow> string" where
  "phase_json p = json_object [(''Name'', json_string (ph_Name p)), (''Consumes'', consume_json (ph_Consumes p)),
     (''Produces'', produce_json (ph_Produces p)), (''ConcurrencyPerHost'', dec_int (ph_ConcurrencyPerHost p)),
     (''AvgDurationMS'', dec_int (ph_AvgDurationMS p)), (''TimeoutSeconds'', dec_int (ph_TimeoutSeconds p)),
     (''PriorityHint'', dec_int (ph_PriorityHint p)), (''UI'', json_opt ui_json (ph_UI p))]"

definition list_json :: "externalListSpec \<Rightarrow> string" where
  "list_json l = json_object [(''Name'', json_string (el_Name l)), (''DefaultURL'', json_string (el_DefaultURL l)),
     (''Description'', json_string (el_Description l)), (''RefreshIntervalSeconds'', dec_int (el_RefreshIntervalSeconds l))]"

text \<open>Only the free-form configuration can make the encoding fail.\<close>

definition manifestAsJSON :: "manifest \<Rightarrow> string option" where
  "manifestAsJSON m =
     map_option (\<lambda>cfg. json_object
       ([(''Tool'', json_string (mf_Tool m)), (''Version'', json_string (mf_Version m)),
         (''Maintainer'', json_string (mf_Maintainer m)), (''Description'', json_string (mf_Description m)),
         (''DefaultEnabled'', json_opt json_bool (mf_DefaultEnabled m)), (''Config'', cfg),
         (''Secrets'', json_slice json_string (mf_Secrets m)), (''ExternalLists'', json_slice list_json (mf_ExternalLists m))]
        @ (if mf_Readme m = [] then [] else [(''readme'', json_string (mf_Readme m))])
        @ [(''Phases'', json_slice phase_json (mf_Phases m))]))
     (if mf_Config m = [] then Some ''null'' else marshal (GMap (mf_Config m)))"

section \<open>Construction\<close>

definition Version :: string where
  "Version = ''0.1.0''"

text \<open>
  A tool by its methods; the optional interfaces it implements are the options. \<open>Update\<close> and
  \<open>Healthcheck\<close> are given by what a call returns.
\<close>

record tool =
  tl_Name :: string
  tl_Run :: tool_run
  tl_Update :: "go_error option option"
  tl_ReloadConfig :: "(gmap \<Rightarrow> go_error option) option"
  tl_Healthcheck :: "healthReport option"

record runtimeOptions =
  ro_Tool :: "tool option"
  ro_Manifest :: "manifest option"
  ro_PGDSN :: string
  ro_AdminAddr :: string

text \<open>Whether the pool, the queue client and the admin server exist, and whether \<open>closeOnce\<close> has run.\<close>

record runtime =
  rn_tool :: tool
  rn_manifest :: manifest
  rn_pgDSN :: string
  rn_adminAddr :: string
  rn_instance :: string
  rn_pool :: bool
  rn_rc :: bool
  rn_admin :: bool
  rn_secretsKey :: "bytes option"
  rn_counters :: health_counters
  rn_closed :: bool

definition hex_encode :: "bytes \<Rightarrow> string" where
  "hex_encode bs = concat (map (\<lambda>b. [hex_digit (of_char b div 16), hex_digit (of_char b)]) bs)"

definition buildInstanceID :: "(go_error, string) result \<Rightarrow> bytes \<Rightarrow> string \<Rightarrow> string" where
  "buildInstanceID hostname rb tool =
     (let host = (case hostname of Inl _ \<Rightarrow> ''unknown'' | Inr h \<Rightarrow> if h = [] then ''unknown'' else h)
      in tool @ ''-'' @ host @ ''-'' @ hex_encode rb)"

definition newRuntime :: "(go_error, string) result \<Rightarrow> bytes \<Rightarrow> runtimeOptions \<Rightarrow> (go_error, runtime) result" where
  "newRuntime hostname rb opts =
     (case ro_Tool opts of
        None \<Rightarrow> Inl (ErrorText ''Tool required'' None)
      | Some t \<Rightarrow>
          (case ro_Manifest opts of
             None \<Rightarrow> Inl (ErrorText ''Manifest required'' None)
           | Some m \<Rightarrow>
               (if ro_PGDSN opts = [] then Inl (ErrorText ''PG DSN required (PG_DSN env or -dsn flag)'' None)
                else Inr \<lparr>rn_tool = t, rn_manifest = m, rn_pgDSN = ro_PGDSN opts, rn_adminAddr = ro_AdminAddr opts,
                  rn_instance = buildInstanceID hostname rb (mf_Tool m), rn_pool = False, rn_rc = False, rn_admin = False,
                  rn_secretsKey = None, rn_counters = \<lparr>hc_totalRuns = 0, hc_consecutiveFailures = 0\<rparr>, rn_closed = False\<rparr>)))"

section \<open>Registration and heartbeat\<close>

definition admin_meta :: "(go_error, string) result \<Rightarrow> string \<Rightarrow> gmap" where
  "admin_meta hostname adminAddr =
     (let host = (case hostname of Inl _ \<Rightarrow> [] | Inr h \<Rightarrow> h);
          host = (if host = [] then ''localhost'' else host);
          port = (if hasPrefix adminAddr '':'' then drop 1 adminAddr else adminAddr)
      in [(''admin_url'', GStr (''http://'' @ host @ '':'' @ port)), (''hostname'', GStr host)])"

definition worker_merge :: "time \<Rightarrow> worker_row \<Rightarrow> worker_row \<Rightarrow> worker_row" where
  "worker_merge now old new =
     old\<lparr>wk_tool := wk_tool new, wk_version := wk_version new, wk_sdk := wk_sdk new, wk_queues := wk_queues new,
       wk_manifest := wk_manifest new, wk_meta := jsonb_concat (wk_meta old) (wk_meta new), wk_heartbeat := now\<rparr>"

definition register_stmt :: "pg \<Rightarrow> runtime \<Rightarrow> string \<Rightarrow> string \<Rightarrow> db \<Rightarrow> db option" where
  "register_stmt env rt manifestJSON metaJSON d =
     (case (pg_jsonb env manifestJSON, pg_jsonb env metaJSON) of
        (Some mj, Some meta) \<Rightarrow>
          map_option (\<lambda>t. d\<lparr>db_workers := t\<rparr>)
            (insert_on_conflict wk_instance (worker_merge (pg_now env)) (\<lambda>_ _. True)
               [\<lparr>wk_instance = rn_instance rt, wk_tool = mf_Tool (rn_manifest rt), wk_version = mf_Version (rn_manifest rt),
                 wk_sdk = Version, wk_queues = phaseNames (rn_manifest rt), wk_manifest = mj, wk_meta = meta,
                 wk_started = pg_now env, wk_heartbeat = pg_now env\<rparr>] (db_workers d))
      | _ \<Rightarrow> None)"

definition registerWorker ::
  "pg \<Rightarrow> (go_error, string) result \<Rightarrow> runtime \<Rightarrow> db \<times> fault list \<Rightarrow> go_error option \<times> db \<times> fault list" where
  "registerWorker env hostname rt st =
     (case manifestAsJSON (rn_manifest rt) of
        None \<Rightarrow> (Some (ErrorText ''json: unsupported value'' None), st)
      | Some manifestJSON \<Rightarrow>
          (let metaJSON = (case marshal (GMap (admin_meta hostname (rn_adminAddr rt))) of None \<Rightarrow> [] | Some t \<Rightarrow> t)
           in pgexec (register_stmt env rt manifestJSON metaJSON) st))"

definition heartbeat_stmt :: "time \<Rightarrow> string \<Rightarrow> db \<Rightarrow> db option" where
  "heartbeat_stmt now inst d =
     Some (d\<lparr>db_workers := update_where (\<lambda>r. wk_instance r = inst) (\<lambda>r. r\<lparr>wk_heartbeat := now\<rparr>) (db_workers d)\<rparr>)"

text \<open>
  The loop, until the context ends (\<open>None\<close>); a tick comes with the database's clock at that moment.
  Failures are logged only.
\<close>

fun heartbeatLoop :: "string \<Rightarrow> time option list \<Rightarrow> db \<times> fault list \<Rightarrow> db \<times> fault list" where
  "heartbeatLoop inst [] st = st"
| "heartbeatLoop inst (None # es) st = st"
| "heartbeatLoop inst (Some now # es) st = heartbeatLoop inst es (snd (pgexec (heartbeat_stmt now inst) st))"

section \<open>Admin endpoints\<close>

text \<open>A response: status and body. \<open>http.Error\<close> ends its text with a newline.\<close>

type_synonym response = "int \<times> string"

definition nl :: string where
  "nl = [CHR 0x0A]"

text \<open>The second component says whether the tool's \<open>Update\<close> was called.\<close>

definition handleAdminUpdate :: "runtime \<Rightarrow> string \<Rightarrow> response \<times> bool" where
  "handleAdminUpdate rt meth =
     (if meth \<noteq> ''POST'' then ((405, ''POST only'' @ nl), False)
      else case tl_Update (rn_tool rt) of
        None \<Rightarrow> ((501, ''tool is not Updatable'' @ nl), False)
      | Some (Some err) \<Rightarrow> ((500, error_Error err @ nl), True)
      | Some None \<Rightarrow> ((200, ''updated''), True))"

definition readyz :: "go_error option \<Rightarrow> response" where
  "readyz ping = (case ping of Some err \<Rightarrow> (503, error_Error err) | None \<Rightarrow> (200, ''ready''))"

text \<open>The routes; an encoder that fails writes nothing, and the status is then still the default one.\<close>

definition admin_handler :: "response \<Rightarrow> go_error option \<Rightarrow> runtime \<Rightarrow> string \<Rightarrow> string \<Rightarrow> response \<times> bool" where
  "admin_handler metrics ping rt path meth =
     (if path = ''/healthz'' then ((200, ''ok''), False)
      else if path = ''/readyz'' then (readyz ping, False)
      else if path = ''/manifest''
      then ((200, case manifestAsJSON (rn_manifest rt) of None \<Rightarrow> [] | Some t \<Rightarrow> t @ nl), False)
      else if path = ''/admin/update'' then handleAdminUpdate rt meth
      else if path = ''/metrics'' then (metrics, False)
      else ((404, ''404 page not found'' @ nl), False))"

section \<open>Boot and shutdown\<close>

text \<open>What the runtime does to the outside, in order.\<close>

datatype action =
    OpenPool | PingPool | Register | StartAdmin | StartConsumer | SpawnHeartbeat | SpawnHealth
  | ReloadConfig | SpawnConfigLoop | AwaitCancel | StopRiver | ShutdownAdmin | ClosePool

definition shutdown :: "go_error option \<Rightarrow> go_error option \<Rightarrow> runtime \<Rightarrow> go_error option \<times> action list \<times> runtime" where
  "shutdown stop_err admin_err rt =
     (if rn_closed rt then (None, [], rt)
      else
        let rt = rt\<lparr>rn_closed := True\<rparr>;
            firstErr = (if rn_rc rt then stop_err else None);
            acts = (if rn_rc rt then [StopRiver] else []);
            firstErr = (if rn_admin rt \<and> firstErr = None then admin_err else firstErr);
            acts = acts @ (if rn_admin rt then [ShutdownAdmin] else []);
            acts = acts @ (if rn_pool rt then [ClosePool] else [])
        in (firstErr, acts, rt))"

definition runtime_Close :: "go_error option \<Rightarrow> go_error option \<Rightarrow> runtime \<Rightarrow> go_error option \<times> action list \<times> runtime" where
  "runtime_Close = shutdown"

text \<open>The surroundings of a run: what each call on them returns.\<close>

record surroundings =
  su_pg :: pg
  su_hostname :: "(go_error, string) result"
  su_openPool :: "go_error option"
  su_ping :: "go_error option"
  su_newClient :: "(string \<times> int) list \<Rightarrow> cascadeWorker option \<Rightarrow> (go_error, unit) result"
  su_startClient :: "go_error option"
  su_num :: "string \<Rightarrow> string option"
  su_gunzip :: "bytes \<Rightarrow> (go_error, bytes) result"
  su_getenv :: "string \<Rightarrow> string"
  su_stopErr :: "go_error option"
  su_adminErr :: "go_error option"

definition start_consumer_of :: "surroundings \<Rightarrow> runtime \<Rightarrow> (go_error, unit) result" where
  "start_consumer_of su rt =
     startConsumer (su_newClient su) (\<lambda>_. su_startClient su) (tl_Name (rn_tool rt))
       (Some \<lparr>rt_pool = rn_pool rt, rt_secretsKey = rn_secretsKey rt\<rparr>) (rn_manifest rt)"

text \<open>Run up to the consumer, and from there on.\<close>

definition run_up ::
  "surroundings \<Rightarrow> runtime \<Rightarrow> db \<times> fault list \<Rightarrow> go_error option \<times> action list \<times> runtime \<times> db \<times> fault list" where
  "run_up su rt st =
     (case su_openPool su of
        Some e \<Rightarrow> (Some (errorf_w ''pg pool'' e), [OpenPool], rt, st)
      | None \<Rightarrow>
          (let rt = rt\<lparr>rn_pool := True\<rparr> in
           case su_ping su of
             Some e \<Rightarrow> (Some (errorf_w ''pg ping'' e), [OpenPool, PingPool], rt, st)
           | None \<Rightarrow>
               (case registerWorker (su_pg su) (su_hostname su) rt st of
                  (Some e, st') \<Rightarrow> (Some (errorf_w ''self-register'' e), [OpenPool, PingPool, Register], rt, st')
                | (None, st') \<Rightarrow>
                    (let rt = rt\<lparr>rn_admin := True\<rparr>;
                         acts = [OpenPool, PingPool, Register, StartAdmin, StartConsumer]
                     in case start_consumer_of su rt of
                          Inl e \<Rightarrow> (Some (errorf_w ''river consumer'' e), acts, rt, st')
                        | Inr _ \<Rightarrow> (None, acts, rt\<lparr>rn_rc := True\<rparr>, st')))))"

definition serve_loop ::
  "surroundings \<Rightarrow> runtime \<Rightarrow> db \<times> fault list \<Rightarrow> go_error option \<times> action list \<times> runtime \<times> db \<times> fault list" where
  "serve_loop su rt st =
     (let (acts, rt, st) =
        (case tl_ReloadConfig (rn_tool rt) of
           None \<Rightarrow> ([], rt, st)
         | Some f \<Rightarrow>
             (case applyConfig (su_num su) (su_gunzip su) (su_getenv su) (Some f) (rn_manifest rt) (rn_secretsKey rt) st of
                (err, key, st') \<Rightarrow> ([ReloadConfig, SpawnConfigLoop], rt\<lparr>rn_secretsKey := key\<rparr>, st')));
          (err, down, rt) = shutdown (su_stopErr su) (su_adminErr su) rt
      in (err, [SpawnHeartbeat, SpawnHealth] @ acts @ [AwaitCancel] @ down, rt, st))"

definition runtime_Run ::
  "surroundings \<Rightarrow> runtime \<Rightarrow> db \<times> fault list \<Rightarrow> go_error option \<times> action list \<times> runtime \<times> db \<times> fault list" where
  "runtime_Run su rt st =
     (case run_up su rt st of
        (Some e, r) \<Rightarrow> (Some e, r)
      | (None, acts, rt', st') \<Rightarrow>
          (case serve_loop su rt' st' of (err, acts', r) \<Rightarrow> (err, acts @ acts', r)))"

section \<open>The workers table\<close>

interpretation workers_tbl: upsert_table wk_instance "worker_merge now" "\<lambda>_ _. True" for now
  by unfold_locales (simp add: worker_merge_def)

definition register_row :: "pg \<Rightarrow> runtime \<Rightarrow> gmap \<Rightarrow> gmap \<Rightarrow> worker_row" where
  "register_row env rt mj meta =
     \<lparr>wk_instance = rn_instance rt, wk_tool = mf_Tool (rn_manifest rt), wk_version = mf_Version (rn_manifest rt),
      wk_sdk = Version, wk_queues = phaseNames (rn_manifest rt), wk_manifest = mj, wk_meta = meta,
      wk_started = pg_now env, wk_heartbeat = pg_now env\<rparr>"

lemma register_stmt_effect:
  "register_stmt env rt mjson metajson d = Some d' \<longleftrightarrow>
     (\<exists>mj meta. pg_jsonb env mjson = Some mj \<and> pg_jsonb env metajson = Some meta
        \<and> d' = d\<lparr>db_workers := upsert1 wk_instance (worker_merge (pg_now env)) (\<lambda>_ _. True)
                   (register_row env rt mj meta) (db_workers d)\<rparr>)"
  by (auto simp: register_stmt_def insert_on_conflict_Cons1 register_row_def split: option.splits)

lemma registerWorker_ok:
  assumes "registerWorker env hostname rt (d, fs) = (None, d', fs')"
  obtains mj meta where
    "pg_jsonb env (the (manifestAsJSON (rn_manifest rt))) = Some mj"
    "pg_jsonb env (the (marshal (GMap (admin_meta hostname (rn_adminAddr rt))))) = Some meta"
    "d' = d\<lparr>db_workers := upsert1 wk_instance (worker_merge (pg_now env)) (\<lambda>_ _. True)
        (register_row env rt mj meta) (db_workers d)\<rparr>"
proof -
  obtain mjson where m: "manifestAsJSON (rn_manifest rt) = Some mjson"
    using assms by (auto simp: registerWorker_def split: option.splits)
  obtain t where t: "marshal (GMap (admin_meta hostname (rn_adminAddr rt))) = Some t"
    by (simp add: admin_meta_def Let_def)
  have "register_stmt env rt mjson t d = Some d'"
    using assms by (intro pgexec_ok [of _ d fs d' fs']) (simp add: registerWorker_def m t Let_def del: marshal.simps)
  then show ?thesis using that m t by (auto simp: register_stmt_effect)
qed

lemma register_lookup:
  "lookup wk_instance (upsert1 wk_instance (worker_merge now) (\<lambda>_ _. True) new tbl) k =
     (if k = wk_instance new
      then Some (case lookup wk_instance tbl k of None \<Rightarrow> new | Some old \<Rightarrow> worker_merge now old new)
      else lookup wk_instance tbl k)"
  by (simp add: workers_tbl.lookup_upsert1 cong: option.case_cong)

text \<open>A heartbeat touches one column of one row, whatever happens to the connection.\<close>

lemma heartbeat_lookup:
  "lookup wk_instance (db_workers (the (heartbeat_stmt now inst d))) k =
     (if k = inst then map_option (\<lambda>r. r\<lparr>wk_heartbeat := now\<rparr>) (lookup wk_instance (db_workers d) k)
      else lookup wk_instance (db_workers d) k)"
proof -
  have "lookup wk_instance (update_where (\<lambda>r. wk_instance r = inst) (\<lambda>r. r\<lparr>wk_heartbeat := now\<rparr>) (db_workers d)) k
      = map_option (\<lambda>r. if wk_instance r = inst then r\<lparr>wk_heartbeat := now\<rparr> else r) (lookup wk_instance (db_workers d) k)"
    by (rule lookup_update_where) simp
  then show ?thesis
    using lookup_SomeD [of wk_instance "db_workers d" k]
    by (cases "lookup wk_instance (db_workers d) k") (auto simp: heartbeat_stmt_def)
qed

lemma heartbeat_exec:
  assumes "pgexec (heartbeat_stmt now inst) (d, fs) = (e, d', fs')"
  shows "d' = d \<or> d' = the (heartbeat_stmt now inst d)"
  using pgexec_cases [OF assms] by auto

lemma heartbeats_other:
  "k \<noteq> inst \<Longrightarrow>
   lookup wk_instance (db_workers (fst (heartbeatLoop inst es (d, fs)))) k = lookup wk_instance (db_workers d) k"
proof (induction inst es "(d, fs)" arbitrary: d fs rule: heartbeatLoop.induct)
  case (3 inst now es)
  obtain e d' fs' where x: "pgexec (heartbeat_stmt now inst) (d, fs) = (e, d', fs')" by (metis prod_cases3)
  with 3(1) [of d' fs'] 3(2) heartbeat_exec [OF x] show ?case by (auto simp: heartbeat_lookup)
qed auto

lemma heartbeats_own:
  assumes "lookup wk_instance (db_workers d) inst = Some r"
  shows "\<exists>h \<in> insert (wk_heartbeat r) (the ` set es).
     lookup wk_instance (db_workers (fst (heartbeatLoop inst es (d, fs)))) inst = Some (r\<lparr>wk_heartbeat := h\<rparr>)"
  using assms
proof (induction inst es "(d, fs)" arbitrary: d fs r rule: heartbeatLoop.induct)
  case (3 inst now es)
  obtain e d' fs' where x: "pgexec (heartbeat_stmt now inst) (d, fs) = (e, d', fs')" by (metis prod_cases3)
  consider "lookup wk_instance (db_workers d') inst = Some r"
    | "lookup wk_instance (db_workers d') inst = Some (r\<lparr>wk_heartbeat := now\<rparr>)"
    using heartbeat_exec [OF x] 3(2) by (auto simp: heartbeat_lookup)
  then show ?case
  proof cases
    case 1
    from 3(1) [of d' fs', OF _ this] x show ?thesis by auto
  next
    case 2
    from 3(1) [of d' fs', OF _ this] x show ?thesis by auto
  qed
qed auto

lemma heartbeats_answered:
  assumes "lookup wk_instance (db_workers d) inst = Some r"
  shows "lookup wk_instance (db_workers (fst (heartbeatLoop inst (map Some ts) (d, [])))) inst
     = Some (r\<lparr>wk_heartbeat := last (wk_heartbeat r # ts)\<rparr>)"
  using assms
proof (induction ts arbitrary: d r)
  case (Cons t ts)
  let ?d = "the (heartbeat_stmt t inst d)"
  have "pgexec (heartbeat_stmt t inst) (d, []) = (None, ?d, [])" by (simp add: heartbeat_stmt_def)
  moreover have "lookup wk_instance (db_workers ?d) inst = Some (r\<lparr>wk_heartbeat := t\<rparr>)"
    using Cons.prems by (simp add: heartbeat_lookup)
  ultimately show ?case using Cons.IH [of ?d] by simp
qed simp

section \<open>Boot\<close>

definition boot_order :: "action list" where
  "boot_order = [OpenPool, PingPool, Register, StartAdmin, StartConsumer]"

definition fresh_runtime :: "runtime \<Rightarrow> bool" where
  "fresh_runtime rt \<longleftrightarrow> \<not> rn_pool rt \<and> \<not> rn_rc rt \<and> \<not> rn_admin rt \<and> \<not> rn_closed rt"

lemma newRuntime_fresh: "newRuntime hostname rb opts = Inr rt \<Longrightarrow> fresh_runtime rt"
  by (auto simp: newRuntime_def fresh_runtime_def split: option.splits if_splits)

lemma run_up_cases:
  assumes "run_up su rt st = (err, acts, rt', st')" and "fresh_runtime rt"
  shows "(err \<noteq> None \<and> (\<exists>k \<in> {1, 2, 3, 5}. acts = take k boot_order) \<and> \<not> rn_closed rt' \<and> \<not> rn_rc rt')
     \<or> (err = None \<and> acts = boot_order \<and> rt' = rt\<lparr>rn_pool := True, rn_admin := True, rn_rc := True\<rparr>)"
  using assms
  by (auto simp: run_up_def boot_order_def fresh_runtime_def Let_def split: option.splits prod.splits sum.splits)

lemma run_up_registered:
  assumes "run_up su rt (d, fs) = (err, acts, rt', d', fs')" and "StartConsumer \<in> set acts"
  shows "rn_instance rt \<in> wk_instance ` set (db_workers d')"
proof -
  obtain d1 fs1 where reg: "registerWorker (su_pg su) (su_hostname su) (rt\<lparr>rn_pool := True\<rparr>) (d, fs) = (None, d1, fs1)"
      and "d' = d1"
    using assms by (auto simp: run_up_def Let_def split: option.splits prod.splits sum.splits)
  obtain mj meta where "d1 = d\<lparr>db_workers := upsert1 wk_instance (worker_merge (pg_now (su_pg su))) (\<lambda>_ _. True)
      (register_row (su_pg su) (rt\<lparr>rn_pool := True\<rparr>) mj meta) (db_workers d)\<rparr>"
    using registerWorker_ok [OF reg] by blast
  with \<open>d' = d1\<close> show ?thesis by (simp add: workers_tbl.keys_upsert1 register_row_def)
qed

text \<open>Reading the configuration leaves the database as it is.\<close>

lemma fetch_lists_db [simp]: "fst (snd (fetch_lists g ls acc st)) = fst st"
proof (induction ls arbitrary: acc st)
  case (Cons l ls)
  obtain r st' where f: "fetchListContent g (el_Name l) st = (r, st')" by (rule prod.exhaust)
  then have "fst st' = fst st" by (auto simp: fetchListContent_def Let_def)
  with Cons f show ?case by (auto split: sum.split prod.split)
qed simp

lemma applyConfig_db: "fst (snd (snd (applyConfig u g e r m k st))) = fst st"
  by (auto simp: applyConfig_def effective_config_def fetchMergedConfig_def injectExternalLists_def Let_def split: option.split)

lemma serve_loop_facts:
  assumes "serve_loop su rt st = (err, acts, rt', st')" and "rn_pool rt" "rn_admin rt" "rn_rc rt" "\<not> rn_closed rt"
  shows "acts = [SpawnHeartbeat, SpawnHealth] @ (if tl_ReloadConfig (rn_tool rt) = None then [] else [ReloadConfig, SpawnConfigLoop])
           @ [AwaitCancel, StopRiver, ShutdownAdmin, ClosePool]
       \<and> err = (case su_stopErr su of Some e \<Rightarrow> Some e | None \<Rightarrow> su_adminErr su)
       \<and> rn_closed rt' \<and> fst st' = fst st"
proof (cases "tl_ReloadConfig (rn_tool rt)")
  case None
  with assms show ?thesis by (auto simp: serve_loop_def shutdown_def Let_def split: option.splits)
next
  case (Some f)
  obtain e k s where a: "applyConfig (su_num su) (su_gunzip su) (su_getenv su) (Some f) (rn_manifest rt) (rn_secretsKey rt) st
      = (e, k, s)" by (metis prod_cases3)
  have "fst s = fst st" using applyConfig_db [of "su_num su"] a by (metis snd_conv)
  with assms Some a show ?thesis by (auto simp: serve_loop_def shutdown_def Let_def split: option.splits)
qed

section \<open>Instance ids\<close>

lemma hex_digit_inject: "hex_digit a = hex_digit b \<Longrightarrow> a mod 16 = b mod 16"
proof -
  assume "hex_digit a = hex_digit b"
  moreover have "distinct ''0123456789abcdef''" by simp
  ultimately show ?thesis
    by (simp add: hex_digit_def nth_eq_iff_index_eq del: distinct.simps)
qed

lemma hex_byte_inject:
  assumes "hex_digit (of_char b div 16) = hex_digit (of_char c div 16)" "hex_digit (of_char b) = hex_digit (of_char c)"
  shows "b = (c :: char)"
proof -
  have lt: "of_char x div 16 < (16::nat)" for x :: char
    using of_char_of [of "of_char x :: nat"] by (simp add: less_mult_imp_div_less)
  have "of_char b div 16 = (of_char c div 16 :: nat)" "of_char b mod 16 = (of_char c mod 16 :: nat)"
    using hex_digit_inject [OF assms(1)] hex_digit_inject [OF assms(2)] lt [of b] lt [of c] by simp_all
  then have "(of_char b :: nat) = of_char c" by (metis div_mult_mod_eq)
  then show ?thesis by simp
qed

lemma hex_encode_inject: "length bs = length cs \<Longrightarrow> hex_encode bs = hex_encode cs \<Longrightarrow> bs = cs"
proof (induction bs arbitrary: cs)
  case (Cons b bs)
  then obtain c cs' where "cs = c # cs'" by (cases cs) auto
  with Cons show ?case by (auto simp: hex_encode_def intro: hex_byte_inject)
qed simp

section \<open>Properties\<close>

text \<open>
  C14: once registered, a worker's row names its tool, version, queues and the SDK version, keeps the
  start time of its first registration, and after any ticks of
  the heartbeat and any faults of the connection differs from that only in the heartbeat, which is the
  time of the registration or of one of the ticks, and of the last one when no statement failed. Rows of
  other instances do not change.
\<close>

theorem registered_worker_row:
  assumes "registerWorker env hostname rt (d, []) = (None, d', fs')"
  shows "\<exists>r. wk_tool r = mf_Tool (rn_manifest rt) \<and> wk_version r = mf_Version (rn_manifest rt) \<and> wk_sdk r = Version
    \<and> wk_queues r = phaseNames (rn_manifest rt)
    \<and> wk_started r = (case lookup wk_instance (db_workers d) (rn_instance rt) of None \<Rightarrow> pg_now env | Some old \<Rightarrow> wk_started old)
    \<and> (\<forall>fs ts. \<exists>h \<in> set (pg_now env # ts).
         lookup wk_instance (db_workers (fst (heartbeatLoop (rn_instance rt) (map Some ts) (d', fs)))) (rn_instance rt)
           = Some (r\<lparr>wk_heartbeat := h\<rparr>))
    \<and> (\<forall>ts. lookup wk_instance (db_workers (fst (heartbeatLoop (rn_instance rt) (map Some ts) (d', [])))) (rn_instance rt)
           = Some (r\<lparr>wk_heartbeat := last (pg_now env # ts)\<rparr>))
    \<and> (\<forall>fs ts k. k \<noteq> rn_instance rt \<longrightarrow>
         lookup wk_instance (db_workers (fst (heartbeatLoop (rn_instance rt) (map Some ts) (d', fs)))) k
           = lookup wk_instance (db_workers d) k)"
proof -
  obtain mj meta where d': "d' = d\<lparr>db_workers := upsert1 wk_instance (worker_merge (pg_now env)) (\<lambda>_ _. True)
        (register_row env rt mj meta) (db_workers d)\<rparr>"
    using registerWorker_ok [OF assms] by blast
  let ?new = "register_row env rt mj meta"
  have inst: "wk_instance ?new = rn_instance rt" by (simp add: register_row_def)
  define r where "r = (case lookup wk_instance (db_workers d) (rn_instance rt) of
      None \<Rightarrow> ?new | Some old \<Rightarrow> worker_merge (pg_now env) old ?new)"
  have row: "lookup wk_instance (db_workers d') (rn_instance rt) = Some r"
    by (simp add: d' register_lookup r_def inst)
  have hb: "wk_heartbeat r = pg_now env"
    by (simp add: r_def register_row_def worker_merge_def split: option.split)
  have own: "\<exists>h \<in> set (pg_now env # ts).
       lookup wk_instance (db_workers (fst (heartbeatLoop (rn_instance rt) (map Some ts) (d', fs)))) (rn_instance rt)
         = Some (r\<lparr>wk_heartbeat := h\<rparr>)" for fs ts
    using heartbeats_own [OF row, of "map Some ts" fs] by (auto simp: hb image_image)
  have answered: "lookup wk_instance (db_workers (fst (heartbeatLoop (rn_instance rt) (map Some ts) (d', [])))) (rn_instance rt)
         = Some (r\<lparr>wk_heartbeat := last (pg_now env # ts)\<rparr>)" for ts
    using heartbeats_answered [OF row] by (simp add: hb)
  have other: "lookup wk_instance (db_workers (fst (heartbeatLoop (rn_instance rt) (map Some ts) (d', fs)))) k
         = lookup wk_instance (db_workers d) k" if "k \<noteq> rn_instance rt" for fs ts k
    using heartbeats_other [OF that] that by (simp add: d' register_lookup inst)
  have "wk_tool r = mf_Tool (rn_manifest rt) \<and> wk_version r = mf_Version (rn_manifest rt) \<and> wk_sdk r = Version
    \<and> wk_queues r = phaseNames (rn_manifest rt)
    \<and> wk_started r = (case lookup wk_instance (db_workers d) (rn_instance rt) of None \<Rightarrow> pg_now env | Some old \<Rightarrow> wk_started old)"
    by (simp add: r_def register_row_def worker_merge_def split: option.split)
  with own answered other show ?thesis by blast
qed

definition pg3 :: pg where
  "pg3 = \<lparr>pg_jsonb = (\<lambda>_. Some []), pg_digest = (\<lambda>_. []), pg_gen_id = (\<lambda>_ _ _. []), pg_first_seen = 0, pg_now = 7\<rparr>"

definition tool0 :: tool where
  "tool0 = \<lparr>tl_Name = ''tm-x'', tl_Run = (\<lambda>_. Inl TransientErr), tl_Update = None, tl_ReloadConfig = None, tl_Healthcheck = None\<rparr>"

definition ropts0 :: runtimeOptions where
  "ropts0 = \<lparr>ro_Tool = Some tool0, ro_Manifest = Some (manifest0 [phase0 ''a'']), ro_PGDSN = ''dsn'', ro_AdminAddr = '':9090''\<rparr>"

definition runtime0 :: runtime where
  "runtime0 = (case newRuntime (Inr ''h'') ''abcd'' ropts0 of Inr rt \<Rightarrow> rt)"

lemma newRuntime0: "newRuntime (Inr ''h'') ''abcd'' ropts0 = Inr runtime0"
  by (simp add: runtime0_def newRuntime_def ropts0_def)

lemma register0:
  "registerWorker pg3 (Inr ''h'') (runtime0\<lparr>rn_pool := b\<rparr>) (empty_db, [])
   = (None, empty_db\<lparr>db_workers := [register_row pg3 runtime0 [] []]\<rparr>, [])"
proof -
  obtain j where "manifestAsJSON (rn_manifest runtime0) = Some j"
    by (simp add: runtime0_def newRuntime_def ropts0_def manifestAsJSON_def manifest0_def)
  then show ?thesis
    by (simp add: registerWorker_def register_stmt_def insert_on_conflict_Cons1 upsert1_def lookup_def empty_db_def
        pg3_def register_row_def Let_def del: marshal.simps)
qed

theorem registered_worker_row_witness:
  "\<exists>d'. registerWorker pg3 (Inr ''h'') (runtime0\<lparr>rn_pool := True\<rparr>) (empty_db, []) = (None, d', [])
     \<and> (\<exists>r. lookup wk_instance (db_workers (fst (heartbeatLoop (rn_instance runtime0) [Some 8, Some 9] (d', [])))) (rn_instance runtime0)
           = Some r \<and> wk_heartbeat r = 9 \<and> wk_queues r = [''a''])"
proof -
  have q: "phaseNames (rn_manifest runtime0) = [''a'']"
    by (simp add: runtime0_def newRuntime_def ropts0_def phaseNames_def manifest0_def phase0_def)
  obtain r where "wk_queues r = [''a'']" and "\<forall>ts. lookup wk_instance (db_workers (fst (heartbeatLoop (rn_instance runtime0)
      (map Some ts) (empty_db\<lparr>db_workers := [register_row pg3 runtime0 [] []]\<rparr>, [])))) (rn_instance runtime0)
      = Some (r\<lparr>wk_heartbeat := last (pg_now pg3 # ts)\<rparr>)"
    using registered_worker_row [OF register0 [of True]] by (auto simp: q)
  from this(2) [rule_format, of "[8, 9]"] this(1) register0 [of True] show ?thesis by auto
qed

text \<open>
  C7: Run boots in one order and stops at the first step that fails, leaving what it has opened to the end
  of the process; a run that comes up waits for the cancellation, then stops the queue client, the admin
  server and the pool, in that order, reports the first of their errors, and a further Close does
  nothing. Jobs are consumed only when the worker's row is in the table, whatever faults the connection
  has. (The comment on the life cycle in runtime.go lists the pool before the admin server; the code stops the
  admin server first.)
\<close>

theorem Run_boot_and_shutdown:
  assumes "newRuntime hostname rb opts = Inr rt" and "runtime_Run su rt (d, fs) = (err, acts, rt', d', fs')"
  shows "(err \<noteq> None \<and> (\<exists>k \<in> {1, 2, 3, 5}. acts = take k boot_order) \<and> \<not> rn_closed rt' \<and> ClosePool \<notin> set acts
      \<or> acts = boot_order @ [SpawnHeartbeat, SpawnHealth]
          @ (if tl_ReloadConfig (rn_tool rt) = None then [] else [ReloadConfig, SpawnConfigLoop])
          @ [AwaitCancel, StopRiver, ShutdownAdmin, ClosePool]
        \<and> err = (case su_stopErr su of Some e \<Rightarrow> Some e | None \<Rightarrow> su_adminErr su)
        \<and> runtime_Close x y rt' = (None, [], rt'))
    \<and> (StartConsumer \<in> set acts \<longrightarrow> rn_instance rt \<in> wk_instance ` set (db_workers d'))"
proof -
  have fresh: "fresh_runtime rt" by (rule newRuntime_fresh [OF assms(1)])
  obtain e acts1 rt1 d1 fs1 where up: "run_up su rt (d, fs) = (e, acts1, rt1, d1, fs1)" by (metis prod_cases5)
  show ?thesis
  proof (cases e)
    case (Some e')
    with assms(2) up have "err = e" "acts = acts1" "rt' = rt1" "d' = d1" by (simp_all add: runtime_Run_def)
    with run_up_cases [OF up fresh] Some run_up_registered [OF up] show ?thesis
      by (auto simp: boot_order_def)
  next
    case None
    with run_up_cases [OF up fresh] have a: "acts1 = boot_order"
      and rt1: "rt1 = rt\<lparr>rn_pool := True, rn_admin := True, rn_rc := True\<rparr>" by auto
    obtain acts2 where sl: "serve_loop su rt1 (d1, fs1) = (err, acts2, rt', d', fs')" and "acts = acts1 @ acts2"
      using assms(2) up None by (auto simp: runtime_Run_def split: prod.splits)
    moreover have "rn_pool rt1" "rn_admin rt1" "rn_rc rt1" "\<not> rn_closed rt1" "rn_tool rt1 = rn_tool rt"
      using fresh by (simp_all add: rt1 fresh_runtime_def)
    ultimately show ?thesis
      using serve_loop_facts [OF sl] run_up_registered [OF up] a
      by (auto simp: boot_order_def runtime_Close_def shutdown_def)
  qed
qed

definition surroundings0 :: surroundings where
  "surroundings0 = \<lparr>su_pg = pg3, su_hostname = Inr ''h'', su_openPool = None, su_ping = None, su_newClient = (\<lambda>_ _. Inr ()),
     su_startClient = None, su_num = Some, su_gunzip = (\<lambda>_. Inr []), su_getenv = (\<lambda>_. []),
     su_stopErr = Some TransientErr, su_adminErr = None\<rparr>"

theorem Run_boot_and_shutdown_witness:
  "\<exists>acts rt' d' fs'. runtime_Run surroundings0 runtime0 (empty_db, []) = (Some TransientErr, acts, rt', d', fs')
     \<and> acts = boot_order @ [SpawnHeartbeat, SpawnHealth, AwaitCancel, StopRiver, ShutdownAdmin, ClosePool]
     \<and> rn_instance runtime0 \<in> wk_instance ` set (db_workers d')"
proof -
  have t: "tl_ReloadConfig (rn_tool runtime0) = None"
    by (simp add: runtime0_def newRuntime_def ropts0_def tool0_def)
  obtain acts rt' d' fs' where run: "runtime_Run surroundings0 runtime0 (empty_db, []) = (Some TransientErr, acts, rt', d', fs')"
    and len: "ClosePool \<in> set acts"
    by (simp add: runtime_Run_def run_up_def surroundings0_def register0 start_consumer_of_def startConsumer_def Let_def
        serve_loop_def t shutdown_def)
      (simp add: runtime0_def newRuntime_def ropts0_def tool0_def)
  from Run_boot_and_shutdown [OF newRuntime0 run] len t run show ?thesis
    by (auto simp: boot_order_def)
qed

text \<open>
  The address the control plane is told is only a URL for a listen address without a host: the host of
  a full listen address is repeated after the container's.
\<close>

lemma admin_url_repeats_host:
  assumes "h \<noteq> []" and "hd listen \<noteq> CHR '':''" and "listen \<noteq> []"
  shows "map_of (admin_meta (Inr h) (listen @ '':'' @ port)) ''admin_url'' = Some (GStr (''http://'' @ h @ '':'' @ listen @ '':'' @ port))"
  using assms by (cases listen) (simp_all add: admin_meta_def Let_def hasPrefix_def)

text \<open>Replicas of one tool on one host have different instance ids when their random bytes differ.\<close>

theorem instance_ids_distinct:
  assumes "length rb = length rb'" and "buildInstanceID hostname rb tool = buildInstanceID hostname rb' tool"
  shows "rb = rb'"
  using assms by (auto simp: buildInstanceID_def Let_def intro: hex_encode_inject split: sum.splits if_splits)

theorem instance_ids_distinct_witness:
  "buildInstanceID (Inr ''h'') ''abcd'' ''tm-x'' \<noteq> buildInstanceID (Inr ''h'') ''abce'' ''tm-x''"
  using instance_ids_distinct [of "''abcd''" "''abce''" "Inr ''h''" "''tm-x''"] by auto

end
