(* ===== verification/Json_Indent.thy ===== *)
theory Json_Indent
  imports Json_Roundtrip
begin

text \<open>
  The indentation of \<open>json.Encoder\<close> with \<open>SetIndent\<close>: the tokens of a text keep their bytes, and line breaks and
  spaces are put between them. Shown: an indented JSON text reads as the text itself.
\<close>

section \<open>Pieces\<close>

text \<open>The tokens of a text with the bytes each was scanned from.\<close>

function pieces :: "string \<Rightarrow> (token \<times> string) list option" where
  "pieces s =
     (case dropWhile white s of
        [] \<Rightarrow> Some []
      | c # r \<Rightarrow>
          (case scan_token (c # r) of
             None \<Rightarrow> None
           | Some (t, rest) \<Rightarrow> map_option ((#) (t, take (length (c # r) - length rest) (c # r))) (pieces rest)))"
  by pat_completeness auto
termination
proof (relation "measure length")
  fix s c r x t rest
  assume "dropWhile white s = c # r" "scan_token (c # r) = Some x" "(t, rest) = x"
  then show "(rest, s) \<in> measure length"
    using scan_token_shorter [of "c # r" t rest] length_dropWhile_le [of white s] by auto
qed simp

declare pieces.simps [simp del]

lemma pieces_tokens: "tokens s = map_option (map fst) (pieces s)"
proof (induction s rule: pieces.induct)
  case (1 s)
  show ?case
  proof (cases "dropWhile white s")
    case Nil
    show ?thesis unfolding tokens.simps [of s] pieces.simps [of s] Nil by simp
  next
    case (Cons c r)
    show ?thesis
    proof (cases "scan_token (c # r)")
      case None
      then show ?thesis unfolding tokens.simps [of s] pieces.simps [of s] Cons by simp
    next
      case (Some x)
      then obtain t rest where x: "scan_token (c # r) = Some (t, rest)" by (cases x) simp
      from 1 [OF Cons x refl] show ?thesis
        unfolding tokens.simps [of s] pieces.simps [of s] Cons by (simp add: x option.map_comp o_def)
    qed
  qed
qed

section \<open>The indented text\<close>

definition newline :: "nat \<Rightarrow> string" where
  "newline depth = CHR 0x0A # concat (replicate depth ''  '')"

text \<open>
  \<open>appendIndent\<close> with two spaces: after an opening bracket the line break waits for the next token, so that
  an empty array or object stays on its line.
\<close>

fun append_indent :: "bool \<Rightarrow> nat \<Rightarrow> (token \<times> string) list \<Rightarrow> string" where
  "append_indent need d [] = []"
| "append_indent need d ((t, x) # ps) =
     (if t = TEndObject \<or> t = TEndArray
      then (if need then x @ append_indent False d ps else newline (d - 1) @ x @ append_indent False (d - 1) ps)
      else
        let d' = (if need then Suc d else d) in
        (if need then newline d' else []) @ x @
        (if t = TBeginObject \<or> t = TBeginArray then append_indent True d' ps
         else if t = TComma then newline d' @ append_indent False d' ps
         else if t = TColon then '' '' @ append_indent False d' ps
         else append_indent False d' ps))"

definition json_indent :: "string \<Rightarrow> string option" where
  "json_indent s = map_option (append_indent False 0) (pieces s)"

section \<open>A token does not depend on what follows it\<close>

definition number_end :: "string \<Rightarrow> bool" where
  "number_end r \<longleftrightarrow> (case r of [] \<Rightarrow> True | c # _ \<Rightarrow> \<not> digit c \<and> c \<noteq> CHR ''.'' \<and> c \<noteq> CHR ''e'' \<and> c \<noteq> CHR ''E'')"

lemma takeWhile_end: "(case r of [] \<Rightarrow> True | c # _ \<Rightarrow> \<not> P c) \<Longrightarrow>
  takeWhile P (takeWhile P s @ r) = takeWhile P s \<and> dropWhile P (takeWhile P s @ r) = r"
proof -
  assume r: "case r of [] \<Rightarrow> True | c # _ \<Rightarrow> \<not> P c"
  have all: "\<forall>x \<in> set (takeWhile P s). P x" by (auto dest: set_takeWhileD)
  have "takeWhile P r = []" "dropWhile P r = r" using r by (cases r; simp)+
  then show ?thesis using all by (simp add: takeWhile_append2 dropWhile_append2)
qed

lemma digits1_local:
  assumes "digits1 s = Some (t, rest)"
  shows "s = t @ rest" and "(case r of [] \<Rightarrow> True | c # _ \<Rightarrow> \<not> digit c) \<Longrightarrow> digits1 (t @ r) = Some (t, r)" and "t \<noteq> []"
proof -
  have t: "t = takeWhile digit s" "rest = dropWhile digit s" "t \<noteq> []" using assms by (auto simp: digits1_def split: if_splits)
  then show "s = t @ rest" "t \<noteq> []" by simp_all
  show "digits1 (t @ r) = Some (t, r)" if "case r of [] \<Rightarrow> True | c # _ \<Rightarrow> \<not> digit c"
    using takeWhile_end [OF that, of s] t by (simp add: digits1_def)
qed

lemma int_part_local:
  assumes "int_part s = Some (t, rest)"
  shows "s = t @ rest" and "(case r of [] \<Rightarrow> True | c # _ \<Rightarrow> \<not> digit c) \<Longrightarrow> int_part (t @ r) = Some (t, r)" and "t \<noteq> []"
    and "digit (hd t)"
proof -
  have *: "s = t @ rest \<and> ((case r of [] \<Rightarrow> True | c # _ \<Rightarrow> \<not> digit c) \<longrightarrow> int_part (t @ r) = Some (t, r)) \<and> t \<noteq> [] \<and> digit (hd t)"
  proof (cases s)
    case (Cons c u)
    show ?thesis
    proof (cases "c = CHR ''0''")
      case True
      then show ?thesis using assms Cons by (auto simp: int_part_def in_range_def)
    next
      case False
      then have d: "digits1 s = Some (t, rest)" using assms Cons by (simp add: int_part_def)
      note l = digits1_local [OF d]
      obtain t' where t: "t = c # t'" using l(1,3) Cons by (cases t) auto
      have "digit (hd t)" using d l(3) by (auto simp: digits1_def hd_in_set split: if_splits dest!: set_takeWhileD [OF hd_in_set])
      then show ?thesis using l False by (auto simp: int_part_def t)
    qed
  qed (use assms in \<open>simp add: int_part_def\<close>)
  then show "s = t @ rest" "t \<noteq> []" "digit (hd t)" by blast+
  show "(case r of [] \<Rightarrow> True | c # _ \<Rightarrow> \<not> digit c) \<Longrightarrow> int_part (t @ r) = Some (t, r)" using * by blast
qed

lemma frac_part_local:
  assumes "frac_part s = Some (t, rest)"
  shows "s = t @ rest" and "(case r of [] \<Rightarrow> True | c # _ \<Rightarrow> \<not> digit c \<and> c \<noteq> CHR ''.'') \<Longrightarrow> frac_part (t @ r) = Some (t, r)"
    and "t = [] \<or> hd t = CHR ''.''"
proof -
  have *: "s = t @ rest \<and> ((case r of [] \<Rightarrow> True | c # _ \<Rightarrow> \<not> digit c \<and> c \<noteq> CHR ''.'') \<longrightarrow> frac_part (t @ r) = Some (t, r))
      \<and> (t = [] \<or> hd t = CHR ''.'')"
  proof (cases "take 1 s = ''.''")
    case True
    then obtain u where s: "s = CHR ''.'' # u" by (cases s) auto
    then obtain ds where d: "digits1 u = Some (ds, rest)" "t = CHR ''.'' # ds" using assms by (auto simp: frac_part_def)
    have "digits1 (ds @ r) = Some (ds, r)" if "case r of [] \<Rightarrow> True | c # _ \<Rightarrow> \<not> digit c \<and> c \<noteq> CHR ''.''"
      by (rule digits1_local(2) [OF d(1)]) (use that in \<open>cases r; simp\<close>)
    with d digits1_local(1) [OF d(1)] show ?thesis by (auto simp: s frac_part_def)
  next
    case False
    then have "t = []" "rest = s" using assms by (cases s; auto simp: frac_part_def split: if_splits)+
    then show ?thesis by (cases r) (auto simp: frac_part_def)
  qed
  then show "s = t @ rest" "t = [] \<or> hd t = CHR ''.''" by blast+
  show "(case r of [] \<Rightarrow> True | c # _ \<Rightarrow> \<not> digit c \<and> c \<noteq> CHR ''.'') \<Longrightarrow> frac_part (t @ r) = Some (t, r)" using * by blast
qed

lemma exp_part_local:
  assumes "exp_part s = Some (t, rest)"
  shows "s = t @ rest" and "number_end r \<Longrightarrow> exp_part (t @ r) = Some (t, r)"
    and "t = [] \<or> hd t = CHR ''e'' \<or> hd t = CHR ''E''"
proof -
  have *: "s = t @ rest \<and> (number_end r \<longrightarrow> exp_part (t @ r) = Some (t, r)) \<and> (t = [] \<or> hd t = CHR ''e'' \<or> hd t = CHR ''E'')"
  proof (cases "\<exists>c u. s = c # u \<and> (c = CHR ''e'' \<or> c = CHR ''E'')")
    case True
    then obtain c u where s: "s = c # u" and c: "c = CHR ''e'' \<or> c = CHR ''E''" by blast
    obtain d u' where u: "u = d # u'" using assms s c by (cases u) (auto simp: exp_part_def)
    have nd: "case r of [] \<Rightarrow> True | c # _ \<Rightarrow> \<not> digit c" if "number_end r" using that by (cases r) (simp_all add: number_end_def)
    show ?thesis
    proof (cases "d = CHR ''+'' \<or> d = CHR ''-''")
      case True
      then obtain ds where ds: "digits1 u' = Some (ds, rest)" "t = c # d # ds" using assms s u c by (auto simp: exp_part_def)
      with digits1_local [OF ds(1)] nd c True show ?thesis by (auto simp: s u exp_part_def)
    next
      case False
      then obtain ds where ds: "digits1 u = Some (ds, rest)" "t = c # ds" using assms s u c by (auto simp: exp_part_def)
      note l = digits1_local [OF ds(1)]
      obtain ds' where ds': "ds = d # ds'" using l(1,3) u by (cases ds) auto
      with ds l nd c False show ?thesis by (auto simp: s exp_part_def)
    qed
  next
    case False
    then have "t = []" "rest = s" using assms by (cases s; auto simp: exp_part_def split: if_splits)+
    then show ?thesis by (cases r) (auto simp: exp_part_def number_end_def)
  qed
  then show "s = t @ rest" "t = [] \<or> hd t = CHR ''e'' \<or> hd t = CHR ''E''" by blast+
  show "number_end r \<Longrightarrow> exp_part (t @ r) = Some (t, r)" using * by blast
qed

lemma scan_number_local:
  assumes "scan_number s = Some (t, rest)"
  shows "s = t @ rest" and "number_end r \<Longrightarrow> scan_number (t @ r) = Some (t, r)" and "t \<noteq> []"
    and "digit (hd t) \<or> hd t = CHR ''-''"
proof -
  obtain sg s0 where p: "(if take 1 s = ''-'' then (''-'', drop 1 s) else ([], s)) = (sg, s0)" by (rule prod.exhaust)
  obtain i s1 f s2 e where parts: "int_part s0 = Some (i, s1)" "frac_part s1 = Some (f, s2)" "exp_part s2 = Some (e, rest)"
    and t: "t = sg @ i @ f @ e"
    using assms unfolding scan_number_def p by (auto split: option.splits)
  note li = int_part_local [OF parts(1)] and lf = frac_part_local [OF parts(2)] and le = exp_part_local [OF parts(3)]
  have s: "s = sg @ s0" and sg: "sg = [] \<or> sg = ''-''" using p by (cases s; auto split: if_splits)+
  show "s = t @ rest" using s li(1) lf(1) le(1) t by simp
  show "t \<noteq> []" using li(3) t by simp
  show "digit (hd t) \<or> hd t = CHR ''-''" using li(3,4) sg by (cases i) (auto simp: t)
  show "scan_number (t @ r) = Some (t, r)" if r: "number_end r"
  proof -
    have er: "case e @ r of [] \<Rightarrow> True | c # _ \<Rightarrow> \<not> digit c \<and> c \<noteq> CHR ''.''"
      using le(3) r by (cases e) (auto simp: number_end_def in_range_def split: list.split)
    then have fer: "case f @ e @ r of [] \<Rightarrow> True | c # _ \<Rightarrow> \<not> digit c"
      using lf(3) by (cases f) (auto simp: in_range_def split: list.splits)
    obtain c i' where ci: "i = c # i'" using li(3) by (cases i) auto
    moreover have "c \<noteq> CHR ''-''" using li(4) ci by (auto simp: in_range_def)
    ultimately have "(if take 1 (t @ r) = ''-'' then (''-'', drop 1 (t @ r)) else ([], t @ r)) = (sg, i @ f @ e @ r)"
      using sg by (auto simp: t)
    then show ?thesis unfolding scan_number_def by (simp add: li(2) [OF fer] lf(2) [OF er] le(2) [OF r] t)
  qed
qed

lemma hex4_length: "hex4 x = Some n \<Longrightarrow> 4 \<le> length x"
  by (cases x; cases "tl x"; cases "tl (tl x)"; cases "tl (tl (tl x))") (auto simp: hex4_def split: option.splits)

lemma hex4_append: "4 \<le> length x \<Longrightarrow> hex4 (x @ r) = hex4 x"
  by (simp add: hex4_def)

text \<open>A text ending in the closing quote: what follows it does not matter for a rune or a surrogate pair inside.\<close>

lemma utf8_len_quote: "utf8_len (c # y @ quote # r) = utf8_len (c # y @ quote # r')"
proof -
  have q: "\<not> in_range lo hi quote" if "35 \<le> lo" for lo hi using that by (simp add: in_range_def quote_def)
  show ?thesis
  proof (cases y)
    case Nil
    then show ?thesis by (auto simp: utf8_len_def q split: list.split)
  next
    case (Cons a y')
    then show ?thesis
    proof (cases y')
      case Nil
      then show ?thesis using Cons by (auto simp: utf8_len_def q split: list.split)
    next
      case (Cons b y'')
      then show ?thesis using \<open>y = a # y'\<close> by (cases y'') (auto simp: utf8_len_def q split: list.split)
    qed
  qed
qed

definition closed_by :: "string \<Rightarrow> string \<Rightarrow> bool" where
  "closed_by x u \<longleftrightarrow> (\<exists>y. x = y @ [quote]) \<and> (\<forall>r. unquote (x @ r) = Some (u, r))"

definition lookahead :: "string \<Rightarrow> nat option" where
  "lookahead z = (if take 2 z = [backslash, CHR ''u''] then hex4 (drop 2 z) else None)"

lemma unicode_escape_lookahead:
  "unicode_escape s =
     (case hex4 (drop 1 s) of
        None \<Rightarrow> None
      | Some r \<Rightarrow>
          (if 55296 \<le> r \<and> r < 57344
           then (case lookahead (drop 5 s) of
                   Some r' \<Rightarrow>
                     (if r < 56320 \<and> 56320 \<le> r' \<and> r' < 57344
                      then Some (utf8_rune (65536 + (r - 55296) * 1024 + (r' - 56320)), 11)
                      else Some (replacement, 5))
                 | None \<Rightarrow> Some (replacement, 5))
           else Some (utf8_rune r, 5)))"
proof -
  have la: "(if take 2 (drop 5 s) = [backslash, CHR ''u''] then hex4 (drop 7 s) else None) = lookahead (drop 5 s)"
    by (simp add: lookahead_def)
  show ?thesis unfolding unicode_escape_def la ..
qed

lemma lookahead_closed:
  assumes "closed_by x u"
  shows "lookahead (x @ r) = lookahead (x @ r')"
proof -
  obtain y where y: "x = y @ [quote]" using assms by (auto simp: closed_by_def)
  have qb: "quote \<noteq> backslash" by (simp add: quote_def backslash_def)
  show ?thesis
  proof (cases "take 2 x = [backslash, CHR ''u'']")
    case True
    then obtain z where x: "x = backslash # CHR ''u'' # z" by (cases x; cases "tl x") auto
    have "unquote x = Some (u, [])" using assms by (auto simp: closed_by_def dest: spec [of _ "[]"])
    then have "hex4 z \<noteq> None" using qb
      by (auto simp: x unquote.simps(2) unicode_escape_lookahead split: option.splits)
    then have "4 \<le> length z" using hex4_length by blast
    then show ?thesis by (simp add: lookahead_def x hex4_append)
  next
    case False
    have "take 2 (x @ z) \<noteq> [backslash, CHR ''u'']" for z
    proof (cases y)
      case Nil
      then show ?thesis using y qb by simp
    next
      case (Cons a w)
      then have "2 \<le> length x" using y by (cases w) auto
      then show ?thesis using False by simp
    qed
    then show ?thesis by (simp add: lookahead_def)
  qed
qed

lemma unicode_escape_closed:
  assumes "unicode_escape s = Some (t, n)" and "drop n s = x @ rest" and "closed_by x u"
  shows "unicode_escape (take n s @ x @ r) = Some (t, n) \<and> n \<le> length s"
proof -
  obtain c where c: "hex4 (drop 1 s) = Some c" using assms(1) by (auto simp: unicode_escape_lookahead split: option.splits)
  have n: "n = 5 \<or> n = 11" using assms(1) c by (auto simp: unicode_escape_lookahead split: option.splits if_splits)
  have x: "x \<noteq> []" using assms(3) by (auto simp: closed_by_def)
  then have le: "n \<le> length s" using assms(2) by (metis append_is_Nil_conv drop_eq_Nil nat_le_linear)
  have l4: "4 \<le> length (drop 1 (take n s))" and d1: "drop 1 (take n s @ z) = drop 1 (take n s) @ z" for z using le n by auto
  have "hex4 (drop 1 (take n s @ z)) = hex4 (drop 1 (take n s))" for z unfolding d1 by (rule hex4_append [OF l4])
  moreover have "s = take n s @ x @ rest" using assms(2) by (metis append_take_drop_id)
  ultimately have hd: "hex4 (drop 1 (take n s @ x @ r)) = Some c" using c by metis
  have la: "lookahead (drop 5 (take n s @ x @ r)) = lookahead (drop 5 s)"
  proof (cases "n = 5")
    case True
    have "drop 5 (take n s @ x @ r) = x @ r" using le True by simp
    with lookahead_closed [OF assms(3), of r rest] assms(2) True show ?thesis by simp
  next
    case False
    then have n: "n = 11" using n by simp
    have s: "s = take 11 s @ x @ rest" using assms(2) n by (metis append_take_drop_id)
    have l: "length (drop 5 (take 11 s)) = 6" using le n by simp
    have "lookahead (drop 5 (take 11 s) @ z) = lookahead (drop 5 (take 11 s))" for z
      using l hex4_append [of "drop 2 (drop 5 (take 11 s))" z] by (simp add: lookahead_def)
    moreover have "drop 5 (take 11 s @ z) = drop 5 (take 11 s) @ z" for z using le n by simp
    ultimately show ?thesis using n s by metis
  qed
  have "unicode_escape (take n s @ x @ r) = unicode_escape s"
    unfolding unicode_escape_lookahead [of "take n s @ x @ r"] unicode_escape_lookahead [of s] hd c la ..
  with assms(1) le show ?thesis by simp
qed

lemma unquote_closed: "unquote s = Some (u, rest) \<Longrightarrow> \<exists>x. s = x @ rest \<and> closed_by x u"
proof (induction s arbitrary: u rest rule: unquote.induct)
  case (2 c s)
  note eq = 2(6) [unfolded unquote.simps(2)]
  have step: "\<exists>x. c # s = x @ rest \<and> closed_by x u"
    if "z \<noteq> []" "c # s = z @ s2" "unquote s2 = Some (u2, rest)" "u = t @ u2"
      "\<And>x r. s2 = x @ rest \<Longrightarrow> closed_by x u2 \<Longrightarrow> unquote (z @ x @ r) = map_option (apfst ((@) t)) (unquote (x @ r))"
      "\<exists>x. s2 = x @ rest \<and> closed_by x u2" for z s2 u2 t
  proof -
    note prems = that
    obtain x where x: "s2 = x @ rest" "closed_by x u2" using prems(6) by blast
    have "closed_by (z @ x) u"
      using x(2) prems(5) [OF x] prems(4) by (auto simp: closed_by_def)
    then show ?thesis using prems(2) x(1) by (intro exI [of _ "z @ x"]) simp
  qed
  show ?case
  proof (cases "c = quote")
    case True
    then have "closed_by [c] u" "s = rest" using eq by (auto simp: closed_by_def unquote.simps(2))
    then show ?thesis by (intro exI [of _ "[c]"]) simp
  next
    case nq: False
    show ?thesis
    proof (cases "c = backslash")
      case bs: True
      then obtain e s' where s: "s = e # s'" using eq nq by (cases s) auto
      show ?thesis
      proof (cases "e = CHR ''u''")
        case True
        then obtain t n u2 where e: "unicode_escape s = Some (t, n)" and u2: "unquote (drop n s) = Some (u2, rest)" "u = t @ u2"
          using eq nq bs s by (auto split: option.splits)
        have n: "0 < n" using e by (auto simp: unicode_escape_def split: option.splits if_splits)
        show ?thesis
        proof (rule step [of "c # take n s" "drop n s" u2 t])
          fix x r assume x: "drop n s = x @ rest" "closed_by x u2"
          note ue = unicode_escape_closed [OF e x, of r]
          have tk: "take n s @ x @ r = e # take (n - 1) s' @ x @ r" using n by (cases n) (simp_all add: s)
          have "drop n (e # take (n - 1) s' @ x @ r) = x @ r" unfolding tk [symmetric] using ue by simp
          with tk ue True bs nq show "unquote ((c # take n s) @ x @ r) = map_option (apfst ((@) t)) (unquote (x @ r))"
            by (auto simp: unquote.simps(2))
        qed (use u2 2(1) [OF nq bs s True e refl u2(1)] in simp_all)
      next
        case False
        then obtain t u2 where e: "simple_escape e = Some t" and u2: "unquote s' = Some (u2, rest)" "u = t @ u2"
          using eq nq bs s by (auto split: option.splits)
        show ?thesis
          by (rule step [of "[c, e]" s' u2 t])
            (use u2 s e False nq bs 2(2) [OF nq bs s False e u2(1)] in \<open>simp_all add: unquote.simps(2)\<close>)
      qed
    next
      case nb: False
      have ctl: "\<not> of_char c < (32::nat)" using eq nq nb by auto
      show ?thesis
      proof (cases "of_char c < (128::nat)")
        case True
        then obtain u2 where u2: "unquote s = Some (u2, rest)" "u = [c] @ u2" using eq nq nb ctl by auto
        show ?thesis
          by (rule step [of "[c]" s u2 "[c]"])
            (use u2 nq nb ctl True 2(3) [OF nq nb ctl True u2(1)] in \<open>simp_all add: unquote.simps(2) apfst_def map_prod_def\<close>)
      next
        case big: False
        show ?thesis
        proof (cases "utf8_len (c # s) = 0")
          case True
          then obtain u2 where u2: "unquote s = Some (u2, rest)" "u = replacement @ u2" using eq nq nb ctl big by (auto simp: Let_def)
          show ?thesis
          proof (rule step [of "[c]" s u2 replacement])
            fix x r assume x: "s = x @ rest" "closed_by x u2"
            then obtain y where y: "x = y @ [quote]" by (auto simp: closed_by_def)
            have "utf8_len (c # x @ r) = 0" using True utf8_len_quote [of c y rest r] by (simp add: x(1) y)
            then show "unquote ([c] @ x @ r) = map_option (apfst ((@) replacement)) (unquote (x @ r))"
              using nq nb ctl big by (simp add: unquote.simps(2))
          qed (use u2 2(4) [OF nq nb ctl big refl True u2(1)] in simp_all)
        next
          case False
          define n where "n = utf8_len (c # s)"
          obtain u2 where u2: "unquote (drop n (c # s)) = Some (u2, rest)" "u = take n (c # s) @ u2"
            using eq nq nb ctl big False by (auto simp: Let_def n_def)
          have le: "n \<le> length (c # s)" unfolding n_def by (rule utf8_len_le)
          obtain k where k: "n = Suc k" using False by (cases n) (simp_all add: n_def)
          show ?thesis
          proof (rule step [of "take n (c # s)" "drop n (c # s)" u2 "take n (c # s)"])
            fix x r assume "drop n (c # s) = x @ rest"
            have len: "utf8_len (take n (c # s) @ x @ r) = n" using utf8_len_take [OF False] by (simp add: n_def)
            moreover have "take n (c # s) @ x @ r = c # (take k s @ x @ r)" by (simp add: k)
            moreover have "take n (c # (take k s @ x @ r)) = take n (c # s)" "drop n (c # (take k s @ x @ r)) = x @ r"
              using le by (simp_all add: k)
            ultimately show "unquote (take n (c # s) @ x @ r) = map_option (apfst ((@) (take n (c # s)))) (unquote (x @ r))"
              using nq nb ctl big k by (simp add: unquote.simps(2) Let_def del: take_Suc_Cons drop_Suc_Cons)
          qed (use u2 k 2(5) [OF nq nb ctl big refl False] n_def in simp_all)
        qed
      qed
    qed
  qed
qed simp

abbreviation is_number :: "token \<Rightarrow> bool" where
  "is_number t \<equiv> (\<exists>n. t = TNumber n)"

definition good_piece :: "token \<Rightarrow> string \<Rightarrow> bool" where
  "good_piece t x \<longleftrightarrow> x \<noteq> [] \<and> \<not> white (hd x) \<and> (\<not> is_number t \<longrightarrow> number_end x)
     \<and> (\<forall>r. (is_number t \<longrightarrow> number_end r) \<longrightarrow> scan_token (x @ r) = Some (t, r))"

lemma number_end_Cons: "number_end (c # r) \<longleftrightarrow> \<not> digit c \<and> c \<noteq> CHR ''.'' \<and> c \<noteq> CHR ''e'' \<and> c \<noteq> CHR ''E''"
  by (simp add: number_end_def)

lemma good_literal: "scan_literal s = Some (t, rest) \<Longrightarrow> \<exists>x. s = x @ rest \<and> good_piece t x"
proof -
  assume l: "scan_literal s = Some (t, rest)"
  have p: "punctuation (CHR ''t'') = None" "punctuation (CHR ''f'') = None" "punctuation (CHR ''n'') = None"
    "CHR ''t'' \<noteq> quote" "CHR ''f'' \<noteq> quote" "CHR ''n'' \<noteq> quote" by code_simp+
  have g: "good_piece (TLiteral (GBool True)) ''true''" "good_piece (TLiteral (GBool False)) ''false''" "good_piece (TLiteral GNil) ''null''"
    using p by (auto simp: good_piece_def white_def number_end_Cons in_range_def scan_token_def scan_literal_def hasPrefix_def)
  have h: "hasPrefix s q \<Longrightarrow> s = q @ drop (length q) s" for q by (metis append_take_drop_id hasPrefix_def)
  consider "hasPrefix s ''true''" "t = TLiteral (GBool True)" "rest = drop (length ''true'') s"
    | "hasPrefix s ''false''" "t = TLiteral (GBool False)" "rest = drop (length ''false'') s"
    | "hasPrefix s ''null''" "t = TLiteral GNil" "rest = drop (length ''null'') s"
    using l by (auto simp: scan_literal_def eval_nat_numeral split: if_splits)
  then show ?thesis using g h by cases metis+
qed

lemma scan_token_piece:
  assumes "scan_token (c # r) = Some (t, rest)" and "\<not> white c"
  shows "\<exists>x. c # r = x @ rest \<and> good_piece t x"
proof (cases "punctuation c")
  case (Some p)
  then have "t = p" "rest = r" using assms(1) by (simp_all add: scan_token_def)
  moreover have "c \<in> set ''{}[]:,''" "\<not> is_number p" using Some by (auto simp: punctuation_def split: if_splits)
  ultimately show ?thesis using Some assms(2)
    by (intro exI [of _ "[c]"]) (auto simp: good_piece_def scan_token_def number_end_Cons in_range_def)
next
  case pn: None
  show ?thesis
  proof (cases "c = quote")
    case True
    then obtain u where u: "unquote r = Some (u, rest)" "t = TString u" using assms(1) pn by (auto simp: scan_token_def)
    from unquote_closed [OF u(1)] obtain x where x: "r = x @ rest" "closed_by x u" by blast
    have "number_end (c # x)" using True by (simp add: number_end_Cons quote_def in_range_def)
    then have "good_piece t (c # x)"
      using x(2) u(2) True pn assms(2) by (auto simp: good_piece_def closed_by_def scan_token_def)
    with x(1) show ?thesis by (intro exI [of _ "c # x"]) simp
  next
    case nq: False
    show ?thesis
    proof (cases "c = CHR ''-'' \<or> digit c")
      case True
      then obtain n where n: "scan_number (c # r) = Some (n, rest)" "t = TNumber n" using assms(1) pn nq by (auto simp: scan_token_def)
      note l = scan_number_local [OF n(1)]
      obtain n' where n': "n = c # n'" using l(1,3) by (cases n) auto
      have "scan_token (n @ z) = Some (t, z)" if "number_end z" for z
        using l(2) [OF that] True pn nq n(2) by (auto simp: n' scan_token_def)
      then have "good_piece t n" using n(2) assms(2) by (auto simp: good_piece_def n')
      with l(1) show ?thesis by blast
    next
      case False
      then have "scan_literal (c # r) = Some (t, rest)" using assms(1) pn nq by (simp add: scan_token_def)
      from good_literal [OF this] show ?thesis .
    qed
  qed
qed

lemma pieces_good: "pieces s = Some ps \<Longrightarrow> list_all (\<lambda>(t, x). good_piece t x) ps"
proof (induction s arbitrary: ps rule: pieces.induct)
  case (1 s)
  show ?case
  proof (cases "dropWhile white s")
    case Nil
    then show ?thesis using 1(2) unfolding pieces.simps [of s] Nil by simp
  next
    case (Cons c r)
    obtain t rest qs where x: "scan_token (c # r) = Some (t, rest)" "pieces rest = Some qs"
      and ps: "ps = (t, take (length (c # r) - length rest) (c # r)) # qs"
      using 1(2) unfolding pieces.simps [of s] Cons by (auto split: option.splits)
    have "\<not> white c" using Cons by (metis hd_dropWhile list.distinct(1) list.sel(1))
    from scan_token_piece [OF x(1) this] obtain y where y: "c # r = y @ rest" "good_piece t y" by blast
    have "take (length (c # r) - length rest) (c # r) = y" unfolding y(1) by simp
    with y(2) 1(1) [OF Cons x(1) refl x(2)] show ?thesis by (simp add: ps)
  qed
qed

section \<open>Reading the indented text\<close>

fun separated :: "token list \<Rightarrow> bool" where
  "separated (t # u # ts) \<longleftrightarrow> \<not> (is_number t \<and> is_number u) \<and> separated (u # ts)"
| "separated ts \<longleftrightarrow> True"

lemma machine_separated: "machine st e ts = Some v \<Longrightarrow> separated ts"
proof (induction ts arbitrary: st e)
  case (Cons t ts)
  obtain st' e' where s: "step e t st = Some (st', e')" "machine st' e' ts = Some v"
    using Cons.prems by (auto split: option.splits)
  have "\<not> (is_number t \<and> is_number u)" if "ts = u # us" for u us
  proof
    assume n: "is_number t \<and> is_number u"
    then obtain n where t: "t = TNumber n" by blast
    have "e' = ExpNext \<or> (\<exists>v. e' = ExpEnd v)"
      using s(1) by (cases e; cases st; cases "hd st") (auto simp: t)
    moreover have "step ExpNext u st' = None" "step (ExpEnd w) u st' = None" for w using n by (auto split: list.split)
    ultimately show False using s(2) that by auto
  qed
  with Cons.IH [OF s(2)] show ?case by (cases ts) auto
qed simp

lemma tokens_skip: "\<forall>c \<in> set ws. white c \<Longrightarrow> tokens (ws @ s) = tokens s"
  by (simp add: tokens.simps [of "ws @ s"] tokens.simps [of s] dropWhile_append2)

lemma tokens_piece:
  assumes "good_piece t x" and "is_number t \<Longrightarrow> number_end r"
  shows "tokens (x @ r) = map_option ((#) t) (tokens r)"
proof -
  obtain c y where x: "x = c # y" "\<not> white c" using assms(1) by (cases x) (simp_all add: good_piece_def)
  have "scan_token (c # y @ r) = Some (t, r)" using assms by (auto simp: good_piece_def x)
  then show ?thesis by (subst tokens.simps) (simp add: x)
qed

lemma newline_white: "\<forall>c \<in> set (newline d). white c"
  by (auto simp: newline_def white_def)

lemmas tokens_newline = tokens_skip [OF newline_white]

lemma white_number_end: "white c \<Longrightarrow> number_end (c # r)"
  unfolding white_def number_end_Cons in_range_def by auto

lemma append_indent_end:
  assumes "\<forall>c \<in> set ws. white c" and "list_all (\<lambda>(t, x). good_piece t x) ps" and "ps = [] \<or> \<not> is_number (fst (hd ps))"
  shows "number_end (append_indent False d ps @ ws)"
proof (cases ps)
  case Nil
  then show ?thesis using assms(1) white_number_end by (cases ws) (simp_all add: number_end_def)
next
  case (Cons p qs)
  obtain t x where p: "p = (t, x)" by (rule prod.exhaust)
  have "number_end x" "x \<noteq> []" using assms(2,3) by (auto simp: Cons p good_piece_def)
  then have "number_end (x @ r)" for r by (cases x) (simp_all add: number_end_Cons)
  moreover have "number_end (newline k @ r)" for k r by (simp add: newline_def number_end_Cons in_range_def)
  ultimately show ?thesis by (simp add: Cons p Let_def)
qed

lemma append_indent_tokens:
  assumes ws: "\<forall>c \<in> set ws. white c"
  shows "list_all (\<lambda>(t, x). good_piece t x) ps \<Longrightarrow> separated (map fst ps) \<Longrightarrow>
    tokens (append_indent need d ps @ ws) = Some (map fst ps)"
proof (induction ps arbitrary: need d)
  case Nil
  then show ?case using tokens_skip [OF ws, of "[]"] by (simp add: tokens.simps [of "[]"])
next
  case (Cons p ps)
  obtain t x where p: "p = (t, x)" by (rule prod.exhaust)
  have g: "good_piece t x" "list_all (\<lambda>(t, x). good_piece t x) ps" using Cons.prems(1) by (simp_all add: p)
  have sep: "separated (map fst ps)" "is_number t \<Longrightarrow> ps = [] \<or> \<not> is_number (fst (hd ps))"
    using Cons.prems(2) by (cases ps; auto simp: p)+
  have ih: "tokens (append_indent b k ps @ ws) = Some (map fst ps)" for b k by (rule Cons.IH [OF g(2) sep(1)])
  have num: "tokens (x @ append_indent False k ps @ ws) = Some (t # map fst ps)" for k
    using tokens_piece [OF g(1), of "append_indent False k ps @ ws"] append_indent_end [OF ws g(2), of k] sep(2) ih by auto
  have other: "tokens (x @ r) = map_option ((#) t) (tokens r)" if "\<not> is_number t" for r
    using tokens_piece [OF g(1)] that by blast
  have sp: "tokens (CHR '' '' # r) = tokens r" for r using tokens_skip [of "'' ''" r] by (simp add: white_def)
  show ?case using num other ih by (auto simp: p Let_def tokens_newline sp)
qed

text \<open>A JSON text and its indented form, with a line break after it, read the same.\<close>

lemma json_indent_parse:
  assumes "json_parse s = Some v"
  shows "\<exists>out. json_indent s = Some out \<and> json_parse (out @ [CHR 0x0A]) = Some v"
proof -
  obtain ts where ts: "tokens s = Some ts" "machine [] ExpValue ts = Some v"
    using assms by (auto simp: json_parse_def split: option.splits)
  then obtain ps where ps: "pieces s = Some ps" "ts = map fst ps" using pieces_tokens [of s] by (cases "pieces s") auto
  have "tokens (append_indent False 0 ps @ [CHR 0x0A]) = Some ts"
    using append_indent_tokens [OF _ pieces_good [OF ps(1)]] machine_separated [OF ts(2)] ps(2) by (simp add: white_def)
  then show ?thesis using ps ts(2) by (simp add: json_indent_def json_parse_def)
qed

end
