(* ===== verification/Json_Doc.thy ===== *)
theory Json_Doc
  imports Json_Indent
begin

text \<open>
  Go values with structs inside as \<open>json.Marshal\<close> writes them: the members of a struct come in the order of
  its fields, the entries of a map sorted. Shown: the text of a document, indented or not, is read back
  as what the document shows.
\<close>

datatype doc = Struct "(string \<times> doc) list" | Slice "doc list" | Go gval

fun doc_text :: "doc \<Rightarrow> string option" where
  "doc_text (Struct ms) = map_option json_object (members (map (\<lambda>kv. (fst kv, doc_text (snd kv))) ms))"
| "doc_text (Slice ds) = map_option json_array (all_some (map doc_text ds))"
| "doc_text (Go v) = marshal v"

fun doc_view :: "doc \<Rightarrow> gval" where
  "doc_view (Struct ms) = GMap (map (\<lambda>kv. (coerce_utf8 (fst kv), doc_view (snd kv))) ms)"
| "doc_view (Slice ds) = GList (map doc_view ds)"
| "doc_view (Go v) = json_view v"

text \<open>The values inside can be printed, and the nesting is at most what a reader accepts.\<close>

fun doc_ok :: "nat \<Rightarrow> doc \<Rightarrow> bool" where
  "doc_ok n (Struct ms) = (n < max_nesting \<and> list_all (\<lambda>kv. doc_ok (Suc n) (snd kv)) ms)"
| "doc_ok n (Slice ds) = (n < max_nesting \<and> list_all (doc_ok (Suc n)) ds)"
| "doc_ok n (Go v) = (printable v \<and> n + nesting v \<le> max_nesting)"

lemma doc_text_ok: "doc_ok n d \<Longrightarrow> \<exists>s. doc_text d = Some s"
proof (induction n d rule: doc_ok.induct)
  case (1 n ms)
  then have "\<forall>kv \<in> set ms. \<exists>s. doc_text (snd kv) = Some s" by (simp add: list_all_iff)
  then have "\<exists>kvs. members (map (\<lambda>kv. (fst kv, doc_text (snd kv))) ms) = Some kvs" by (induction ms) auto
  then show ?case by auto
next
  case (2 n ds)
  then have "\<forall>d \<in> set ds. \<exists>s. doc_text d = Some s" by (simp add: list_all_iff)
  then have "\<exists>ss. all_some (map doc_text ds) = Some ss" by (induction ds) auto
  then show ?case by auto
qed (simp add: printable_marshal)

lemma reads_doc: "doc_text d = Some s \<Longrightarrow> doc_ok (length st) d \<Longrightarrow> reads st s (doc_view d)"
proof (induction d arbitrary: s st)
  case (Struct ms)
  from Struct.prems(1) obtain xs where xs: "list_all2 (\<lambda>kv x. fst x = fst kv \<and> doc_text (snd kv) = Some (snd x)) ms xs"
    and s: "s = json_object xs" by (auto simp: members_iff list_all2_map1)
  let ?kvs = "map (\<lambda>kv. (coerce_utf8 (fst kv), doc_view (snd kv))) ms"
  have "list_all2 (\<lambda>x kv. fst kv = coerce_utf8 (fst x) \<and> (\<forall>acc k. reads (InObject acc k # st) (snd x) (snd kv))) xs ?kvs"
  proof (rule list_all2_all_nthI)
    show "length xs = length ?kvs" using xs by (auto dest: list_all2_lengthD)
    fix n assume "n < length xs"
    then have n: "ms ! n \<in> set ms" "fst (xs ! n) = fst (ms ! n)" "doc_text (snd (ms ! n)) = Some (snd (xs ! n))"
        "?kvs ! n = (coerce_utf8 (fst (ms ! n)), doc_view (snd (ms ! n)))"
      using xs by (auto simp: list_all2_conv_all_nth)
    have "doc_ok (length (InObject acc k # st)) (snd (ms ! n))" for acc k using Struct.prems(2) n(1) by (simp add: list_all_iff)
    then have "\<forall>acc k. reads (InObject acc k # st) (snd (xs ! n)) (doc_view (snd (ms ! n)))"
      using Struct.IH [OF n(1) snds.intros n(3)] by blast
    with n show "fst (?kvs ! n) = coerce_utf8 (fst (xs ! n)) \<and> (\<forall>acc k. reads (InObject acc k # st) (snd (xs ! n)) (snd (?kvs ! n)))"
      by (simp only: fst_conv snd_conv simp_thms)
  qed
  with Struct.prems(2) show ?case unfolding s doc_view.simps by (intro reads_object) simp_all
next
  case (Slice ds)
  from Slice.prems(1) obtain ss where ss: "list_all2 (\<lambda>d s. doc_text d = Some s) ds ss" and s: "s = json_array ss"
    by (auto simp: all_some_iff list_all2_map1)
  have "list_all2 (\<lambda>s v. \<forall>acc. reads (InArray acc # st) s v) ss (map doc_view ds)"
  proof (rule list_all2_all_nthI)
    show "length ss = length (map doc_view ds)" using ss by (simp add: list_all2_lengthD)
    fix n assume "n < length ss"
    then have n: "ds ! n \<in> set ds" "doc_text (ds ! n) = Some (ss ! n)" "map doc_view ds ! n = doc_view (ds ! n)"
      using ss by (auto simp: list_all2_conv_all_nth)
    have "doc_ok (length (InArray acc # st)) (ds ! n)" for acc using Slice.prems(2) n(1) by (simp add: list_all_iff)
    then show "\<forall>acc. reads (InArray acc # st) (ss ! n) (map doc_view ds ! n)"
      unfolding n(3) using Slice.IH [OF n(1,2)] by blast
  qed
  with Slice.prems(2) show ?case unfolding s doc_view.simps by (intro reads_array) simp_all
next
  case (Go v)
  then show ?case using reads_marshal [of v s st] by simp
qed

lemma doc_parse:
  assumes "doc_text d = Some s" and "doc_ok 0 d"
  shows "json_parse s = Some (doc_view d)"
proof -
  have "read_from [] ExpValue (s @ []) = read_from [] (ExpEnd (doc_view d)) []"
    using reads_doc [of d s "[]"] assms by (simp del: append_Nil2)
  moreover have "read_from [] (ExpEnd (doc_view d)) [] = Some (doc_view d)"
    by (simp add: read_from_def tokens.simps)
  ultimately show ?thesis by (simp add: read_from_def json_parse_def)
qed

text \<open>\<open>Encode\<close> of an encoder that indents: nothing when the value cannot be encoded.\<close>

definition encode_indented :: "doc option \<Rightarrow> string" where
  "encode_indented d =
     (case (case d of None \<Rightarrow> None | Some d \<Rightarrow> doc_text d) of
        None \<Rightarrow> []
      | Some s \<Rightarrow> (case json_indent s of None \<Rightarrow> [] | Some out \<Rightarrow> out @ [CHR 0x0A]))"

lemma encode_indented_parse:
  assumes "doc_ok 0 d"
  shows "json_parse (encode_indented (Some d)) = Some (doc_view d)"
proof -
  obtain s where s: "doc_text d = Some s" using doc_text_ok [OF assms] by blast
  from json_indent_parse [OF doc_parse [OF s assms]] obtain out where
    "json_indent s = Some out" "json_parse (out @ [CHR 0x0A]) = Some (doc_view d)" by blast
  then show ?thesis by (simp add: encode_indented_def s)
qed

end
