(* ===== verification/Once.thy ===== *)
theory Once
  imports Tool Http Json_Doc
begin

text \<open>
  The input and the output of the one-shot mode (worker/once.go): the asset of the command line and the
  printed result. How \<open>time.Time\<close> prints itself and how a float64 is read are parameters; so is whether a tool
  returns nil or an empty slice when it found nothing. Theory \<open>Once_Read\<close> reads the printed text back.
\<close>

section \<open>The asset\<close>

text \<open>A field of type \<open>map[string]any\<close>: null makes it nil, an object is added to what it holds.\<close>

fun into_map :: "(string \<Rightarrow> string option) \<Rightarrow> gval \<Rightarrow> gmap option \<times> bool \<Rightarrow> gmap option \<times> bool" where
  "into_map num GNil (old, ok) = (None, ok)"
| "into_map num (GMap ms) (old, ok) =
     (case to_any num (GMap ms) of
        Some (GMap m) \<Rightarrow> (Some (as_map m (case old of None \<Rightarrow> [] | Some m \<Rightarrow> m)), ok)
      | _ \<Rightarrow> (old, False))"
| "into_map num _ (old, ok) = (old, False)"

definition asset_member :: "(string \<Rightarrow> string option) \<Rightarrow> string \<Rightarrow> gval \<Rightarrow> asset \<Rightarrow> bool \<Rightarrow> asset \<times> bool" where
  "asset_member num k v a ok =
     (if names_field k ''id'' then apfst (\<lambda>x. a\<lparr>as_ID := x\<rparr>) (into_string v (as_ID a, ok))
      else if names_field k ''scope_id'' then apfst (\<lambda>x. a\<lparr>as_ScopeID := x\<rparr>) (into_string v (as_ScopeID a, ok))
      else if names_field k ''kind'' then apfst (\<lambda>x. a\<lparr>as_Kind := x\<rparr>) (into_string v (as_Kind a, ok))
      else if names_field k ''value'' then apfst (\<lambda>x. a\<lparr>as_Value := x\<rparr>) (into_string v (as_Value a, ok))
      else if names_field k ''parent_id'' then apfst (\<lambda>x. a\<lparr>as_ParentID := x\<rparr>) (into_string v (as_ParentID a, ok))
      else if names_field k ''attrs'' then apfst (\<lambda>x. a\<lparr>as_Attrs := x\<rparr>) (into_map num v (as_Attrs a, ok))
      else if names_field k ''state'' then apfst (\<lambda>x. a\<lparr>as_State := x\<rparr>) (into_string v (as_State a, ok))
      else (a, ok))"

primrec asset_members :: "(string \<Rightarrow> string option) \<Rightarrow> (string \<times> gval) list \<Rightarrow> asset \<times> bool \<Rightarrow> asset \<times> bool" where
  "asset_members num [] r = r"
| "asset_members num (kv # ms) r = asset_members num ms (asset_member num (fst kv) (snd kv) (fst r) (snd r))"

definition empty_asset :: asset where
  "empty_asset = \<lparr>as_ID = [], as_ScopeID = [], as_Kind = [], as_Value = [], as_ParentID = [], as_Attrs = None, as_State = []\<rparr>"

definition unmarshal_asset :: "(string \<Rightarrow> string option) \<Rightarrow> string \<Rightarrow> asset option" where
  "unmarshal_asset num raw =
     (case json_parse raw of
        Some (GMap ms) \<Rightarrow> (case asset_members num ms (empty_asset, True) of (a, ok) \<Rightarrow> if ok then Some a else None)
      | Some GNil \<Rightarrow> Some empty_asset
      | _ \<Rightarrow> None)"

definition parseOnceAsset :: "(string \<Rightarrow> string option) \<Rightarrow> string \<Rightarrow> (go_error, asset) result" where
  "parseOnceAsset num raw =
     (case unmarshal_asset num raw of
        None \<Rightarrow> Inl (ErrorText ''parse'' None)
      | Some a \<Rightarrow>
          (let a = (if as_Kind a = [] then a\<lparr>as_Kind := ''url''\<rparr> else a) in
           if as_Value a = [] then Inl (ErrorText ''asset.value required'' None) else Inr a))"

lemma parseOnceAsset_complete: "parseOnceAsset num raw = Inr a \<Longrightarrow> as_Kind a \<noteq> [] \<and> as_Value a \<noteq> []"
  by (auto simp: parseOnceAsset_def Let_def split: option.splits if_splits)

section \<open>The result\<close>

text \<open>The structs of worker/tool.go as documents; a nil slice, map or pointer is null.\<close>

definition map_doc :: "gmap option \<Rightarrow> doc" where
  "map_doc m = Go (case m of None \<Rightarrow> GNil | Some m \<Rightarrow> GMap m)"

definition omit_empty :: "string \<Rightarrow> string \<Rightarrow> (string \<times> doc) list" where
  "omit_empty name v = (if v = [] then [] else [(name, Go (GStr v))])"

definition asset_doc :: "asset \<Rightarrow> doc" where
  "asset_doc a = Struct
     (omit_empty ''id'' (as_ID a)
      @ [(''scope_id'', Go (GStr (as_ScopeID a))), (''kind'', Go (GStr (as_Kind a))), (''value'', Go (GStr (as_Value a)))]
      @ omit_empty ''parent_id'' (as_ParentID a)
      @ (case as_Attrs a of None \<Rightarrow> [] | Some m \<Rightarrow> if m = [] then [] else [(''attrs'', Go (GMap m))])
      @ omit_empty ''state'' (as_State a))"

definition finding_doc :: "finding \<Rightarrow> doc" where
  "finding_doc f = Struct
     [(''Kind'', Go (GStr (fi_Kind f))), (''Severity'', Go (GStr (fi_Severity f))), (''Title'', Go (GStr (fi_Title f))),
      (''Data'', map_doc (fi_Data f))]"

definition int_doc :: "int option \<Rightarrow> doc" where
  "int_doc i = Go (case i of None \<Rightarrow> GNil | Some i \<Rightarrow> GInt i)"

text \<open>A timestamp beyond the years that \<open>time.Time\<close> prints makes the encoding fail.\<close>

definition feedback_doc :: "(time \<Rightarrow> string option) \<Rightarrow> secretFeedback \<Rightarrow> doc option" where
  "feedback_doc time_text fb =
     map_option (\<lambda>t. Struct [(''ExpiresAt'', t), (''QuotaRemaining'', int_doc (sf_QuotaRemaining fb)), (''QuotaLimit'', int_doc (sf_QuotaLimit fb))])
       (case sf_ExpiresAt fb of
          None \<Rightarrow> Some (Go GNil)
        | Some t \<Rightarrow> map_option (\<lambda>x. Go (GStr x)) (time_text t))"

definition slice_doc :: "bool \<Rightarrow> doc list \<Rightarrow> doc" where
  "slice_doc nil_empty ds = (if ds = [] \<and> nil_empty then Go GNil else Slice ds)"

definition result_doc :: "(time \<Rightarrow> string option) \<Rightarrow> bool \<times> bool \<Rightarrow> tool_result \<Rightarrow> doc option" where
  "result_doc time_text nils res =
     map_option (\<lambda>fb. Struct
        [(''NewAssets'', slice_doc (fst nils) (map asset_doc (re_NewAssets res))),
         (''Findings'', slice_doc (snd nils) (map finding_doc (re_Findings res))),
         (''AssetUpdate'', map_doc (re_AssetUpdate res)), (''Stats'', map_doc (re_Stats res)), (''SecretFeedback'', fb)])
       (case re_SecretFeedback res of None \<Rightarrow> Some (Go GNil) | Some fb \<Rightarrow> feedback_doc time_text fb)"

definition printOnceResult :: "(time \<Rightarrow> string option) \<Rightarrow> bool \<times> bool \<Rightarrow> tool_result \<Rightarrow> string" where
  "printOnceResult time_text nils res = encode_indented (result_doc time_text nils res)"

end
