(* ===== verification/Once_Read.thy ===== *)
theory Once_Read
  imports Once Json_Struct
begin

text \<open>
  Reading what the one-shot mode prints: \<open>json.Unmarshal\<close> of the printed text into a new \<open>Result\<close> of
  worker/tool.go, field by field. How \<open>time.Time\<close> reads its own text is a parameter. Shown: the reader gets the result
  that was printed, as JSON can show it.
\<close>

section \<open>The reader\<close>

fun into_asset :: "(string \<Rightarrow> string option) \<Rightarrow> gval \<Rightarrow> asset \<times> bool \<Rightarrow> asset \<times> bool" where
  "into_asset num (GMap ms) r = asset_members num ms r"
| "into_asset num GNil r = r"
| "into_asset num _ (a, ok) = (a, False)"

definition finding_member :: "(string \<Rightarrow> string option) \<Rightarrow> string \<Rightarrow> gval \<Rightarrow> finding \<Rightarrow> bool \<Rightarrow> finding \<times> bool" where
  "finding_member num k v f ok =
     (if names_field k ''Kind'' then apfst (\<lambda>x. f\<lparr>fi_Kind := x\<rparr>) (into_string v (fi_Kind f, ok))
      else if names_field k ''Severity'' then apfst (\<lambda>x. f\<lparr>fi_Severity := x\<rparr>) (into_string v (fi_Severity f, ok))
      else if names_field k ''Title'' then apfst (\<lambda>x. f\<lparr>fi_Title := x\<rparr>) (into_string v (fi_Title f, ok))
      else if names_field k ''Data'' then apfst (\<lambda>x. f\<lparr>fi_Data := x\<rparr>) (into_map num v (fi_Data f, ok))
      else (f, ok))"

fun into_finding :: "(string \<Rightarrow> string option) \<Rightarrow> gval \<Rightarrow> finding \<times> bool \<Rightarrow> finding \<times> bool" where
  "into_finding num (GMap ms) r = fold (\<lambda>kv (f, ok). finding_member num (fst kv) (snd kv) f ok) ms r"
| "into_finding num GNil r = r"
| "into_finding num _ (f, ok) = (f, False)"

definition empty_finding :: finding where
  "empty_finding = \<lparr>fi_Kind = [], fi_Severity = [], fi_Title = [], fi_Data = None\<rparr>"

text \<open>Pointers: null makes them nil, everything else is stored into a new value.\<close>

fun into_int_ptr :: "gval \<Rightarrow> int option \<times> bool \<Rightarrow> int option \<times> bool" where
  "into_int_ptr GNil (old, ok) = (None, ok)"
| "into_int_ptr v (old, ok) = apfst Some (into_int v (case old of None \<Rightarrow> 0 | Some i \<Rightarrow> i, ok))"

fun into_time_ptr :: "(string \<Rightarrow> time option) \<Rightarrow> gval \<Rightarrow> time option \<times> bool \<Rightarrow> time option \<times> bool" where
  "into_time_ptr time_of GNil (old, ok) = (None, ok)"
| "into_time_ptr time_of (GStr s) (old, ok) = (case time_of s of None \<Rightarrow> (old, False) | Some t \<Rightarrow> (Some t, ok))"
| "into_time_ptr time_of _ (old, ok) = (old, False)"

definition feedback_member :: "(string \<Rightarrow> time option) \<Rightarrow> string \<Rightarrow> gval \<Rightarrow> secretFeedback \<Rightarrow> bool \<Rightarrow> secretFeedback \<times> bool" where
  "feedback_member time_of k v f ok =
     (if names_field k ''ExpiresAt'' then apfst (\<lambda>x. f\<lparr>sf_ExpiresAt := x\<rparr>) (into_time_ptr time_of v (sf_ExpiresAt f, ok))
      else if names_field k ''QuotaRemaining'' then apfst (\<lambda>x. f\<lparr>sf_QuotaRemaining := x\<rparr>) (into_int_ptr v (sf_QuotaRemaining f, ok))
      else if names_field k ''QuotaLimit'' then apfst (\<lambda>x. f\<lparr>sf_QuotaLimit := x\<rparr>) (into_int_ptr v (sf_QuotaLimit f, ok))
      else (f, ok))"

definition empty_feedback :: secretFeedback where
  "empty_feedback = \<lparr>sf_ExpiresAt = None, sf_QuotaRemaining = None, sf_QuotaLimit = None\<rparr>"

fun into_feedback :: "(string \<Rightarrow> time option) \<Rightarrow> gval \<Rightarrow> secretFeedback option \<times> bool \<Rightarrow> secretFeedback option \<times> bool" where
  "into_feedback time_of (GMap ms) (old, ok) =
     apfst Some (fold (\<lambda>kv (f, ok). feedback_member time_of (fst kv) (snd kv) f ok) ms
       (case old of None \<Rightarrow> empty_feedback | Some f \<Rightarrow> f, ok))"
| "into_feedback time_of GNil (old, ok) = (None, ok)"
| "into_feedback time_of _ (old, ok) = (old, False)"

definition map_field :: "(string \<Rightarrow> string option) \<Rightarrow> (string \<times> gval) list \<Rightarrow> string \<Rightarrow> gmap option \<times> bool" where
  "map_field num ms name = fold (into_map num) (field_values ms name) (None, True)"

definition unmarshal_result :: "(string \<Rightarrow> string option) \<Rightarrow> (string \<Rightarrow> time option) \<Rightarrow> string \<Rightarrow> tool_result option" where
  "unmarshal_result num time_of raw =
     (case json_parse raw of
        None \<Rightarrow> None
      | Some v \<Rightarrow>
          (let (ms, ok) = struct_members v;
               (assets, ok1) = slice_field empty_asset (into_asset num) ms ''NewAssets'';
               (findings, ok2) = slice_field empty_finding (into_finding num) ms ''Findings'';
               (update, ok3) = map_field num ms ''AssetUpdate'';
               (stats, ok4) = map_field num ms ''Stats'';
               (fb, ok5) = fold (into_feedback time_of) (field_values ms ''SecretFeedback'') (None, True)
           in if ok \<and> ok1 \<and> ok2 \<and> ok3 \<and> ok4 \<and> ok5
              then Some \<lparr>re_NewAssets = assets, re_Findings = findings, re_AssetUpdate = update, re_Stats = stats, re_SecretFeedback = fb\<rparr>
              else None))"

section \<open>What JSON can show\<close>

text \<open>
  The result as a reader of JSON sees it: texts with their invalid bytes replaced, maps by their view, and no
  attributes for empty ones, which the struct tag omits.
\<close>

definition map_view :: "gmap \<Rightarrow> gmap" where
  "map_view m = (case json_view (GMap m) of GMap w \<Rightarrow> w | _ \<Rightarrow> [])"

definition seen_asset :: "asset \<Rightarrow> asset" where
  "seen_asset a = \<lparr>as_ID = coerce_utf8 (as_ID a), as_ScopeID = coerce_utf8 (as_ScopeID a), as_Kind = coerce_utf8 (as_Kind a),
     as_Value = coerce_utf8 (as_Value a), as_ParentID = coerce_utf8 (as_ParentID a),
     as_Attrs = (if as_Attrs a = Some [] then None else map_option map_view (as_Attrs a)), as_State = coerce_utf8 (as_State a)\<rparr>"

definition seen_finding :: "finding \<Rightarrow> finding" where
  "seen_finding f = \<lparr>fi_Kind = coerce_utf8 (fi_Kind f), fi_Severity = coerce_utf8 (fi_Severity f), fi_Title = coerce_utf8 (fi_Title f),
     fi_Data = map_option map_view (fi_Data f)\<rparr>"

definition seen_result :: "tool_result \<Rightarrow> tool_result" where
  "seen_result res = \<lparr>re_NewAssets = map seen_asset (re_NewAssets res), re_Findings = map seen_finding (re_Findings res),
     re_AssetUpdate = map_option map_view (re_AssetUpdate res), re_Stats = map_option map_view (re_Stats res),
     re_SecretFeedback = re_SecretFeedback res\<rparr>"

text \<open>
  The values JSON can show: maps with keys in UTF-8 whose values print and are nested no deeper than a reader accepts
  inside the document, machine integers, and times that print and read as themselves.
\<close>

definition shown_map :: "gmap option \<Rightarrow> bool" where
  "shown_map m =
     (case m of
        None \<Rightarrow> True
      | Some m \<Rightarrow> wf_val (GMap m) \<and> utf8_keys (GMap m) \<and> printable (GMap m) \<and> nesting (GMap m) + 3 \<le> max_nesting)"

definition int64 :: "int option \<Rightarrow> bool" where
  "int64 i = (case i of None \<Rightarrow> True | Some i \<Rightarrow> - (2 ^ 63) \<le> i \<and> i < 2 ^ 63)"

definition shown_feedback :: "(time \<Rightarrow> string option) \<Rightarrow> (string \<Rightarrow> time option) \<Rightarrow> secretFeedback \<Rightarrow> bool" where
  "shown_feedback time_text time_of fb \<longleftrightarrow>
     int64 (sf_QuotaRemaining fb) \<and> int64 (sf_QuotaLimit fb)
     \<and> (case sf_ExpiresAt fb of
          None \<Rightarrow> True
        | Some t \<Rightarrow> (case time_text t of None \<Rightarrow> False | Some s \<Rightarrow> time_of (coerce_utf8 s) = Some t))"

definition shown_result :: "(time \<Rightarrow> string option) \<Rightarrow> (string \<Rightarrow> time option) \<Rightarrow> tool_result \<Rightarrow> bool" where
  "shown_result time_text time_of res \<longleftrightarrow>
     list_all (\<lambda>a. shown_map (as_Attrs a)) (re_NewAssets res) \<and> list_all (\<lambda>f. shown_map (fi_Data f)) (re_Findings res)
     \<and> shown_map (re_AssetUpdate res) \<and> shown_map (re_Stats res)
     \<and> (case re_SecretFeedback res of None \<Rightarrow> True | Some fb \<Rightarrow> shown_feedback time_text time_of fb)"

section \<open>Integers\<close>

lemma digits_val_snoc:
  "digits_val acc (s @ [c]) =
     (case digits_val acc s of None \<Rightarrow> None | Some a \<Rightarrow> map_option (\<lambda>d. 10 * a + d) (digit_val c))"
  by (induction s arbitrary: acc) (auto split: option.split)

lemma digit_val_char: "n < 10 \<Longrightarrow> digit_val (char_of (48 + n)) = Some (int n)"
proof -
  assume "n < 10"
  then have "of_char (char_of (48 + n) :: char) = 48 + n" by simp
  then have "of_char (char_of (48 + n) :: char) = (of_nat (48 + n) :: int)" by (metis of_nat_of_char)
  with \<open>n < 10\<close> show ?thesis by (simp add: digit_val_def)
qed

lemma digits_val_dec: "digits_val 0 (dec_nat n) = Some (int n)"
proof (induction n rule: dec_nat.induct)
  case (1 n)
  show ?case
  proof (cases "n < 10")
    case True
    then show ?thesis by (subst dec_nat.simps) (simp add: digit_val_char)
  next
    case False
    then have "digits_val 0 (dec_nat n) = Some (10 * int (n div 10) + int (n mod 10))"
      using 1 by (subst dec_nat.simps) (simp add: digits_val_snoc digit_val_char)
    moreover have "10 * int (n div 10) + int (n mod 10) = int n"
      by (metis mult_div_mod_eq of_nat_add of_nat_mult of_nat_numeral)
    ultimately show ?thesis by (simp only: of_nat_div of_nat_mod)
  qed
qed

lemma dec_nat_digit: "dec_nat n \<noteq> [] \<and> digit_val (hd (dec_nat n)) \<noteq> None"
  using digits_val_dec [of n] by (cases "dec_nat n") (auto split: option.splits, subst (asm) dec_nat.simps, simp split: if_splits)

lemma atoi_dec_int: "- (2 ^ 63) \<le> i \<Longrightarrow> i < 2 ^ 63 \<Longrightarrow> atoi (dec_int i) = Some i"
proof -
  assume r: "- (2 ^ 63) \<le> i" "i < 2 ^ 63"
  have sign: "digit_val (CHR ''-'') = None" "digit_val (CHR ''+'') = None" by (simp_all add: digit_val_def)
  have h: "hd (dec_nat n) \<noteq> CHR ''-''" "hd (dec_nat n) \<noteq> CHR ''+''" "dec_nat n \<noteq> []" for n
    using dec_nat_digit [of n] sign by auto
  show ?thesis
    using r h [of "nat i"] h [of "nat (- i)"] digits_val_dec [of "nat i"] digits_val_dec [of "nat (- i)"]
    by (auto simp: atoi_def dec_int_def Let_def)
qed

section \<open>Reading the document\<close>

text \<open>The names of the fields are ASCII, and no two fields of one struct have names that a member could confuse.\<close>

lemma folded_names [simp]:
  "foldName ''id'' = ''ID''" "foldName ''scope_id'' = ''SCOPE_ID''" "foldName ''kind'' = ''KIND''"
  "foldName ''value'' = ''VALUE''" "foldName ''parent_id'' = ''PARENT_ID''" "foldName ''attrs'' = ''ATTRS''"
  "foldName ''state'' = ''STATE''" "foldName ''Kind'' = ''KIND''" "foldName ''Severity'' = ''SEVERITY''"
  "foldName ''Title'' = ''TITLE''" "foldName ''Data'' = ''DATA''" "foldName ''ExpiresAt'' = ''EXPIRESAT''"
  "foldName ''QuotaRemaining'' = ''QUOTAREMAINING''" "foldName ''QuotaLimit'' = ''QUOTALIMIT''"
  "foldName ''NewAssets'' = ''NEWASSETS''" "foldName ''Findings'' = ''FINDINGS''"
  "foldName ''AssetUpdate'' = ''ASSETUPDATE''" "foldName ''Stats'' = ''STATS''"
  "foldName ''SecretFeedback'' = ''SECRETFEEDBACK''"
  by (simp_all add: up_def in_range_def char_of_eq_iff)

lemma names_utf8 [simp]:
  "coerce_utf8 ''id'' = ''id''" "coerce_utf8 ''scope_id'' = ''scope_id''" "coerce_utf8 ''kind'' = ''kind''"
  "coerce_utf8 ''value'' = ''value''" "coerce_utf8 ''parent_id'' = ''parent_id''" "coerce_utf8 ''attrs'' = ''attrs''"
  "coerce_utf8 ''state'' = ''state''" "coerce_utf8 ''Kind'' = ''Kind''" "coerce_utf8 ''Severity'' = ''Severity''"
  "coerce_utf8 ''Title'' = ''Title''" "coerce_utf8 ''Data'' = ''Data''" "coerce_utf8 ''ExpiresAt'' = ''ExpiresAt''"
  "coerce_utf8 ''QuotaRemaining'' = ''QuotaRemaining''" "coerce_utf8 ''QuotaLimit'' = ''QuotaLimit''"
  "coerce_utf8 ''NewAssets'' = ''NewAssets''" "coerce_utf8 ''Findings'' = ''Findings''"
  "coerce_utf8 ''AssetUpdate'' = ''AssetUpdate''" "coerce_utf8 ''Stats'' = ''Stats''"
  "coerce_utf8 ''SecretFeedback'' = ''SecretFeedback''"
  by (simp_all add: coerce_utf8.simps(2))

lemma json_view_map: "json_view (GMap m) = GMap (map_view m)"
  by (simp add: map_view_def)

lemma into_map_view:
  assumes "shown_map (Some m)"
  shows "into_map Some (json_view (GMap m)) (None, ok) = (Some (map_view m), ok)"
proof -
  have m: "wf_val (GMap m)" "utf8_keys (GMap m)" "printable (GMap m)" using assms by (simp_all add: shown_map_def)
  have "to_any Some (GMap (map_view m)) = Some (GMap (map_view m))" using to_any_view [OF m] by (simp only: json_view_map)
  moreover have "go_map (map_view m)" using wf_view [OF m(1,2)] by (simp only: json_view_map wf_val.simps)
  then have "as_map (map_view m) [] = map_view m" using as_map_append [of "[]" "map_view m"] by simp
  ultimately show ?thesis unfolding json_view_map by (simp del: to_any.simps)
qed

lemma into_map_doc: "shown_map m \<Longrightarrow> into_map Some (doc_view (map_doc m)) (None, ok) = (map_option map_view m, ok)"
  by (cases m) (simp_all add: map_doc_def into_map_view del: json_view.simps(4))

lemma asset_members_append: "asset_members num (xs @ ys) r = asset_members num ys (asset_members num xs r)"
  by (induction xs arbitrary: r) simp_all

lemma asset_member_names:
  "asset_member num ''id'' v a ok = apfst (\<lambda>x. a\<lparr>as_ID := x\<rparr>) (into_string v (as_ID a, ok))"
  "asset_member num ''scope_id'' v a ok = apfst (\<lambda>x. a\<lparr>as_ScopeID := x\<rparr>) (into_string v (as_ScopeID a, ok))"
  "asset_member num ''kind'' v a ok = apfst (\<lambda>x. a\<lparr>as_Kind := x\<rparr>) (into_string v (as_Kind a, ok))"
  "asset_member num ''value'' v a ok = apfst (\<lambda>x. a\<lparr>as_Value := x\<rparr>) (into_string v (as_Value a, ok))"
  "asset_member num ''parent_id'' v a ok = apfst (\<lambda>x. a\<lparr>as_ParentID := x\<rparr>) (into_string v (as_ParentID a, ok))"
  "asset_member num ''attrs'' v a ok = apfst (\<lambda>x. a\<lparr>as_Attrs := x\<rparr>) (into_map num v (as_Attrs a, ok))"
  "asset_member num ''state'' v a ok = apfst (\<lambda>x. a\<lparr>as_State := x\<rparr>) (into_string v (as_State a, ok))"
  by (simp_all add: asset_member_def names_field_def del: foldName.simps)

abbreviation members_view :: "(string \<times> doc) list \<Rightarrow> (string \<times> gval) list" where
  "members_view ms \<equiv> map (\<lambda>kv. (coerce_utf8 (fst kv), doc_view (snd kv))) ms"

lemma omitted_members:
  "as_ID a = [] \<Longrightarrow> asset_members num (members_view (omit_empty ''id'' v)) (a, ok) = (a\<lparr>as_ID := coerce_utf8 v\<rparr>, ok)"
  "as_ParentID a = [] \<Longrightarrow> asset_members num (members_view (omit_empty ''parent_id'' v)) (a, ok) = (a\<lparr>as_ParentID := coerce_utf8 v\<rparr>, ok)"
  "as_State a = [] \<Longrightarrow> asset_members num (members_view (omit_empty ''state'' v)) (a, ok) = (a\<lparr>as_State := coerce_utf8 v\<rparr>, ok)"
  by (simp_all add: omit_empty_def asset_member_names)

lemma into_asset_doc:
  assumes "shown_map (as_Attrs a)"
  shows "into_asset Some (doc_view (asset_doc a)) (empty_asset, ok) = (seen_asset a, ok)"
proof -
  have attrs: "asset_members Some (members_view (case as_Attrs a of None \<Rightarrow> [] | Some m \<Rightarrow> if m = [] then [] else [(''attrs'', Go (GMap m))])) (b, ok)
      = (b\<lparr>as_Attrs := if as_Attrs a = Some [] then None else map_option map_view (as_Attrs a)\<rparr>, ok)" if "as_Attrs b = None" for b
    using assms that
    by (cases "as_Attrs a") (simp_all add: asset_member_names into_map_view del: json_view.simps(4))
  show ?thesis
    unfolding asset_doc_def doc_view.simps into_asset.simps map_append asset_members_append
    by (simp add: omitted_members attrs asset_member_names empty_asset_def seen_asset_def)
qed

lemma into_finding_doc:
  assumes "shown_map (fi_Data f)"
  shows "into_finding Some (doc_view (finding_doc f)) (empty_finding, ok) = (seen_finding f, ok)"
  using into_map_doc [OF assms]
  by (simp add: finding_doc_def finding_member_def names_field_def empty_finding_def seen_finding_def del: foldName.simps)

lemma into_int_doc: "int64 i \<Longrightarrow> into_int_ptr (doc_view (int_doc i)) (None, ok) = (i, ok)"
  by (cases i) (simp_all add: int_doc_def int64_def atoi_dec_int)

lemma into_feedback_doc:
  assumes "shown_feedback time_text time_of fb"
  shows "\<exists>d. feedback_doc time_text fb = Some d \<and> into_feedback time_of (doc_view d) (None, ok) = (Some fb, ok) \<and> doc_ok 1 d"
proof -
  have ints: "into_int_ptr (doc_view (int_doc (sf_QuotaRemaining fb))) (None, ok) = (sf_QuotaRemaining fb, ok)"
    "into_int_ptr (doc_view (int_doc (sf_QuotaLimit fb))) (None, ok) = (sf_QuotaLimit fb, ok)" for ok
    using assms by (simp_all add: shown_feedback_def into_int_doc)
  have okd: "doc_ok n (int_doc i)" if "n \<le> 2" for n i
    using that by (cases i) (simp_all add: int_doc_def max_nesting_def)
  show ?thesis
    using assms ints okd
    by (auto simp: shown_feedback_def feedback_doc_def feedback_member_def names_field_def empty_feedback_def max_nesting_def
        simp del: foldName.simps split: option.splits)
qed

lemma into_elems_map:
  assumes "\<forall>x \<in> set xs. \<forall>ok. elem (f x) (zero, ok) = (g x, ok)"
  shows "into_elems zero elem (map f xs) [] ok = (map g xs, ok)"
  using assms by (induction xs) simp_all

lemma slice_field_doc:
  assumes "field_values ms name = [doc_view (slice_doc nils (map f xs))]"
    and "\<forall>x \<in> set xs. \<forall>ok. elem (doc_view (f x)) (zero, ok) = (g x, ok)"
  shows "slice_field zero elem ms name = (map g xs, True)"
  using assms(1) into_elems_map [OF assms(2)]
  by (cases "xs = []") (auto simp: slice_field_def slice_doc_def o_def)

section \<open>The printed result\<close>

lemma result_doc_ok:
  assumes "shown_result time_text time_of res"
  shows "\<exists>fb. result_doc time_text nils res = Some (Struct
        [(''NewAssets'', slice_doc (fst nils) (map asset_doc (re_NewAssets res))),
         (''Findings'', slice_doc (snd nils) (map finding_doc (re_Findings res))),
         (''AssetUpdate'', map_doc (re_AssetUpdate res)), (''Stats'', map_doc (re_Stats res)), (''SecretFeedback'', fb)])
    \<and> into_feedback time_of (doc_view fb) (None, True) = (re_SecretFeedback res, True) \<and> doc_ok 1 fb"
  using assms into_feedback_doc [of time_text time_of _ True]
  by (cases "re_SecretFeedback res") (fastforce simp: shown_result_def result_doc_def max_nesting_def)+

lemma map_doc_ok: "shown_map m \<Longrightarrow> n \<le> 3 \<Longrightarrow> doc_ok n (map_doc m)"
  by (cases m) (auto simp: shown_map_def map_doc_def max_nesting_def simp del: nesting.simps(2) printable.simps(3) wf_val.simps utf8_keys.simps)

lemma asset_doc_ok: "shown_map (as_Attrs a) \<Longrightarrow> doc_ok 2 (asset_doc a)"
  by (auto simp: asset_doc_def omit_empty_def shown_map_def max_nesting_def
      simp del: nesting.simps(2) printable.simps(3) wf_val.simps utf8_keys.simps split: option.splits)

lemma finding_doc_ok: "shown_map (fi_Data f) \<Longrightarrow> doc_ok 2 (finding_doc f)"
  using map_doc_ok [of "fi_Data f" 3] by (simp add: finding_doc_def max_nesting_def)

lemma slice_doc_ok: "list_all (doc_ok 2) ds \<Longrightarrow> doc_ok 1 (slice_doc nils ds)"
  by (simp add: slice_doc_def max_nesting_def numeral_2_eq_2)

lemma printed_result_reads_back:
  assumes "shown_result time_text time_of res"
  shows "unmarshal_result Some time_of (printOnceResult time_text nils res) = Some (seen_result res)"
proof -
  obtain fb where d: "result_doc time_text nils res = Some (Struct
        [(''NewAssets'', slice_doc (fst nils) (map asset_doc (re_NewAssets res))),
         (''Findings'', slice_doc (snd nils) (map finding_doc (re_Findings res))),
         (''AssetUpdate'', map_doc (re_AssetUpdate res)), (''Stats'', map_doc (re_Stats res)), (''SecretFeedback'', fb)])"
      (is "_ = Some ?d")
    and fb: "into_feedback time_of (doc_view fb) (None, True) = (re_SecretFeedback res, True)" "doc_ok 1 fb"
    using result_doc_ok [OF assms, of nils] by blast
  have sh: "\<forall>a \<in> set (re_NewAssets res). shown_map (as_Attrs a)" "\<forall>f \<in> set (re_Findings res). shown_map (fi_Data f)"
      "shown_map (re_AssetUpdate res)" "shown_map (re_Stats res)"
    using assms by (simp_all add: shown_result_def list_all_iff)
  have "doc_ok 0 ?d"
    using sh fb(2) slice_doc_ok [of "map asset_doc (re_NewAssets res)" "fst nils"] slice_doc_ok [of "map finding_doc (re_Findings res)" "snd nils"]
    by (simp add: list_all_iff asset_doc_ok finding_doc_ok map_doc_ok max_nesting_def)
  from encode_indented_parse [OF this] have parse: "json_parse (printOnceResult time_text nils res) = Some (doc_view ?d)"
    by (simp only: printOnceResult_def d)
  obtain ms where ms: "doc_view ?d = GMap ms" "field_values ms ''NewAssets'' = [doc_view (slice_doc (fst nils) (map asset_doc (re_NewAssets res)))]"
      "field_values ms ''Findings'' = [doc_view (slice_doc (snd nils) (map finding_doc (re_Findings res)))]"
      "field_values ms ''AssetUpdate'' = [doc_view (map_doc (re_AssetUpdate res))]"
      "field_values ms ''Stats'' = [doc_view (map_doc (re_Stats res))]" "field_values ms ''SecretFeedback'' = [doc_view fb]"
    by (simp add: field_values_def names_field_def del: foldName.simps)
  have "slice_field empty_asset (into_asset Some) ms ''NewAssets'' = (map seen_asset (re_NewAssets res), True)"
    by (rule slice_field_doc [OF ms(2)]) (use sh(1) into_asset_doc in blast)
  moreover have "slice_field empty_finding (into_finding Some) ms ''Findings'' = (map seen_finding (re_Findings res), True)"
    by (rule slice_field_doc [OF ms(3)]) (use sh(2) into_finding_doc in blast)
  ultimately show ?thesis
    using sh(3,4) by (simp add: unmarshal_result_def parse [unfolded ms(1)] map_field_def ms(4-6) into_map_doc fb(1) seen_result_def)
qed

end
