(* ===== verification/Tracing.thy ===== *)
theory Tracing
  imports Tool
begin

text \<open>
  Tracing setup (sdk/tracing/tracing.go): Init, its once-only wrapper and the tracers it leads to. The OpenTelemetry SDK is a
  parameter: whether merging the resource and building the exporter succeed. The state is what the
  package sets globally: the tracer provider and the propagators. Go's nil function is a value of its own, as calling it
  panics.
\<close>

datatype provider = UnsetProvider | PlainProvider | ExportingProvider string string

datatype shutdown_func = NilFunc | NoopFunc | ProviderShutdown

record tracing_state =
  ts_provider :: provider
  ts_propagators :: "string list"
  ts_initOnce :: bool

definition tracing_init :: tracing_state where
  "tracing_init = \<lparr>ts_provider = UnsetProvider, ts_propagators = [], ts_initOnce = False\<rparr>"

record otel =
  ot_merge :: "string \<Rightarrow> go_error option"
  ot_exporter :: "string \<Rightarrow> go_error option"

definition propagators :: "string list" where
  "propagators = [''TraceContext'', ''Baggage'']"

definition tracing_Init ::
  "otel \<Rightarrow> (string \<Rightarrow> string) \<Rightarrow> string \<Rightarrow> tracing_state \<Rightarrow> shutdown_func \<times> go_error option \<times> tracing_state" where
  "tracing_Init ot getenv service s =
     (let endpoint = getenv ''OTEL_EXPORTER_OTLP_ENDPOINT'' in
      if endpoint = [] then (NoopFunc, None, s\<lparr>ts_provider := PlainProvider, ts_propagators := propagators\<rparr>)
      else
        let name = getenv ''OTEL_SERVICE_NAME''; service = (if name \<noteq> [] then name else service) in
        case ot_merge ot service of
          Some e \<Rightarrow> (NilFunc, Some e, s)
        | None \<Rightarrow>
            (case ot_exporter ot endpoint of
               Some e \<Rightarrow> (NilFunc, Some e, s)
             | None \<Rightarrow> (ProviderShutdown, None, s\<lparr>ts_provider := ExportingProvider service endpoint, ts_propagators := propagators\<rparr>)))"

definition InitOnce ::
  "otel \<Rightarrow> (string \<Rightarrow> string) \<Rightarrow> string \<Rightarrow> tracing_state \<Rightarrow> shutdown_func \<times> go_error option \<times> tracing_state" where
  "InitOnce ot getenv service s =
     (let (shutdown, err, s) = (if ts_initOnce s then (NilFunc, None, s)
        else tracing_Init ot getenv service (s\<lparr>ts_initOnce := True\<rparr>))
      in (if shutdown = NilFunc then NoopFunc else shutdown, err, s))"

text \<open>A named tracer of the provider that is set when a span is started.\<close>

definition Tracer :: "string \<Rightarrow> tracing_state \<Rightarrow> provider \<times> string" where
  "Tracer name s = (ts_provider s, name)"

text \<open>
  Tracers export exactly when an endpoint is configured and its exporter was built, under the service name of the
  environment if it gives one; after a failed setup they are as before.
\<close>

lemma Tracer_after_Init:
  assumes "tracing_Init ot getenv service s = (f, err, s')"
  shows "fst (Tracer name s') =
    (if err \<noteq> None then ts_provider s
     else if getenv ''OTEL_EXPORTER_OTLP_ENDPOINT'' = [] then PlainProvider
     else ExportingProvider (if getenv ''OTEL_SERVICE_NAME'' \<noteq> [] then getenv ''OTEL_SERVICE_NAME'' else service)
       (getenv ''OTEL_EXPORTER_OTLP_ENDPOINT''))
    \<and> ts_propagators s' = (if err \<noteq> None then ts_propagators s else propagators)"
  using assms by (auto simp: tracing_Init_def Tracer_def Let_def split: if_splits option.splits)

lemma Init_nil_iff_error: "fst (tracing_Init ot getenv service s) = NilFunc \<longleftrightarrow> fst (snd (tracing_Init ot getenv service s)) \<noteq> None"
  by (auto simp: tracing_Init_def Let_def split: option.split)

text \<open>The wrapper never hands out a nil function, and a second call changes nothing and reports no error.\<close>

lemma Init_once_flag: "ts_initOnce (snd (snd (tracing_Init ot getenv service s))) = ts_initOnce s"
  by (simp add: tracing_Init_def Let_def split: option.split)

lemma InitOnce_twice:
  assumes "InitOnce ot getenv service s = (f, err, s')"
  shows "f \<noteq> NilFunc \<and> InitOnce ot' getenv' service' s' = (NoopFunc, None, s')"
proof -
  have "ts_initOnce s'"
    using assms Init_once_flag [of ot getenv service "s\<lparr>ts_initOnce := True\<rparr>"]
    by (cases "ts_initOnce s") (auto simp: InitOnce_def split: prod.splits)
  moreover have "f \<noteq> NilFunc" using assms by (auto simp: InitOnce_def split: prod.splits if_split_asm)
  ultimately show ?thesis by (simp add: InitOnce_def)
qed

end
