(* ===== verification/Serve.thy ===== *)
theory Serve
  imports Runtime Once_Read Tracing
begin

text \<open>
  The entry point (worker/serve.go) and the one-shot mode (worker/once.go): configuration from the
  environment and the flags, the README, the three modes, and the synthetic job of the one-shot mode.
  Parameters: the environment, the flags given, the directory of the executable, the file system, the
  YAML parser, the reading of floats and the surroundings of the runtime. Logging is left out.
  Shown: what each mode runs and touches, how the end of the process depends on tracing, and what the
  one-shot asset and the README become.
\<close>

section \<open>Configuration\<close>

record config =
  cf_ManifestPath :: string
  cf_PGDSN :: string
  cf_AdminAddr :: string
  cf_LogLevel :: string
  cf_ValidateOnly :: bool
  cf_OneShotAssetJSON :: string

definition defaultString :: "(string \<Rightarrow> string) \<Rightarrow> string \<Rightarrow> string \<Rightarrow> string" where
  "defaultString getenv env fallback = (let v = getenv env in if v \<noteq> [] then v else fallback)"

text \<open>\<open>filepath.Join\<close> of a cleaned directory and a file name; the directory is \<open>None\<close> when \<open>os.Executable\<close> fails.\<close>

definition join_dir :: "string \<Rightarrow> string \<Rightarrow> string" where
  "join_dir dir name = (if dir = ''/'' then ''/'' @ name else dir @ ''/'' @ name)"

definition manifestNextToBinary :: "string option \<Rightarrow> string" where
  "manifestNextToBinary exe_dir = (case exe_dir of None \<Rightarrow> ''manifest.yaml'' | Some d \<Rightarrow> join_dir d ''manifest.yaml'')"

text \<open>\<open>flag\<close> gives the value of a flag on the command line, and \<open>validate\<close> whether the boolean one is set.\<close>

definition parseFlags :: "(string \<Rightarrow> string) \<Rightarrow> string option \<Rightarrow> (string \<Rightarrow> string option) \<Rightarrow> bool \<Rightarrow> config" where
  "parseFlags getenv exe_dir flag validate =
     (let given = (\<lambda>name def. case flag name of None \<Rightarrow> def | Some v \<Rightarrow> v) in
      \<lparr>cf_ManifestPath = given ''manifest'' (defaultString getenv ''MANIFEST_PATH'' (manifestNextToBinary exe_dir)),
       cf_PGDSN = given ''dsn'' (getenv ''PG_DSN''),
       cf_AdminAddr = given ''admin'' (defaultString getenv ''ADMIN_ADDR'' '':9090''),
       cf_LogLevel = given ''log-level'' (defaultString getenv ''LOG_LEVEL'' ''info''),
       cf_ValidateOnly = validate,
       cf_OneShotAssetJSON = given ''asset'' []\<rparr>)"

datatype level = LevelDebug | LevelInfo | LevelWarn | LevelError

definition parseLevel :: "string \<Rightarrow> level" where
  "parseLevel s = (if s = ''debug'' then LevelDebug else if s = ''warn'' then LevelWarn
     else if s = ''error'' then LevelError else LevelInfo)"

section \<open>The README\<close>

definition readme_candidates :: "string option \<Rightarrow> string \<Rightarrow> string list" where
  "readme_candidates exe_dir override =
     (if override \<noteq> [] then [override] else [])
     @ (case exe_dir of Some d \<Rightarrow> [join_dir d ''README.md''] | None \<Rightarrow> [])
     @ [''README.md'']"

fun first_readable :: "(string \<Rightarrow> (go_error, bytes) result) \<Rightarrow> string list \<Rightarrow> string" where
  "first_readable readFile [] = []"
| "first_readable readFile (p # ps) =
     (case readFile p of
        Inl _ \<Rightarrow> first_readable readFile ps
      | Inr b \<Rightarrow> if length b > 256 * 1024 then take (256 * 1024) b else b)"

definition loadReadme :: "(string \<Rightarrow> (go_error, bytes) result) \<Rightarrow> string option \<Rightarrow> string \<Rightarrow> string" where
  "loadReadme readFile exe_dir override = first_readable readFile (readme_candidates exe_dir override)"

section \<open>The one-shot mode\<close>

text \<open>
  How Serve ends: it prints the verdict on the manifest or the result of a run, returns from the runtime, or
  dies. A printed result comes with the text.
\<close>

datatype exit =
    Died string
  | ManifestOK string string nat
  | Printed tool_result string
  | Returned
  | IndexPanic
  | NilCallPanic

text \<open>The job is built from the first phase; a manifest without one makes the index panic.\<close>

definition runOnce ::
  "(string \<Rightarrow> string option) \<Rightarrow> (tool_result \<Rightarrow> string) \<Rightarrow> time \<Rightarrow> tool \<Rightarrow> manifest \<Rightarrow> config \<Rightarrow> exit \<times> job list" where
  "runOnce num print now t m cfg =
     (case parseOnceAsset num (cf_OneShotAssetJSON cfg) of
        Inl e \<Rightarrow> (Died (''asset: '' @ error_Error e), [])
      | Inr a \<Rightarrow>
          (case mf_Phases m of
             [] \<Rightarrow> (IndexPanic, [])
           | p # _ \<Rightarrow>
               (let jb = \<lparr>jb_ID = 0, jb_RunID = ''once'', jb_ScopeID = as_ScopeID a, jb_Phase = ph_Name p, jb_Asset = a,
                      jb_Priority = 4, jb_Deadline = now + 5 * Minute, jb_TraceID = [], jb_ForceFresh = False,
                      jb_APIKey = [], jb_APIKeyID = []\<rparr>
                in case tl_Run t jb of
                     Inl e \<Rightarrow> (Died (''Run: '' @ error_Error e), [jb])
                   | Inr res \<Rightarrow> (Printed res (print res), [jb]))))"

section \<open>Serve\<close>

text \<open>What Serve takes from outside, besides the tool and the surroundings of the runtime.\<close>

record process =
  pr_getenv :: "string \<Rightarrow> string"
  pr_exe_dir :: "string option"
  pr_flag :: "string \<Rightarrow> string option"
  pr_validate :: bool
  pr_readFile :: "string \<Rightarrow> (go_error, bytes) result"
  pr_yaml :: "bytes \<Rightarrow> (go_error, manifest) result"
  pr_num :: "string \<Rightarrow> string option"
  pr_time_text :: "time \<Rightarrow> string option"
  pr_nils :: "bool \<times> bool"
  pr_now :: time
  pr_hostname :: "(go_error, string) result"
  pr_rand :: bytes
  pr_otel :: otel

text \<open>
  Service mode. An error of tracing is logged and its shutdown function deferred all the same. An error
  of the runtime ends the process at once, without the deferred calls; otherwise these run: Close, which
  finds the runtime already shut down, and then the call of the tracing function. \<open>canceled\<close> is
  \<open>errors.Is (err, context.Canceled)\<close>.
\<close>

definition deferred_exit :: "shutdown_func \<Rightarrow> exit" where
  "deferred_exit f = (if f = NilFunc then NilCallPanic else Returned)"

definition serve_runtime ::
  "(go_error \<Rightarrow> bool) \<Rightarrow> process \<Rightarrow> surroundings \<Rightarrow> tool \<Rightarrow> manifest \<Rightarrow> config \<Rightarrow> db \<times> fault list
   \<Rightarrow> exit \<times> action list \<times> db \<times> fault list" where
  "serve_runtime canceled pr su t m cfg st =
     (let tracingShutdown = fst (tracing_Init (pr_otel pr) (pr_getenv pr) (mf_Tool m) tracing_init) in
      case newRuntime (pr_hostname pr) (pr_rand pr)
         \<lparr>ro_Tool = Some t, ro_Manifest = Some m, ro_PGDSN = cf_PGDSN cfg, ro_AdminAddr = cf_AdminAddr cfg\<rparr> of
        Inl e \<Rightarrow> (Died (''runtime init: '' @ error_Error e), [], st)
      | Inr rt \<Rightarrow>
          (case runtime_Run su rt st of
             (err, acts, rt', st') \<Rightarrow>
               (if (case err of None \<Rightarrow> True | Some e \<Rightarrow> canceled e)
                then (deferred_exit tracingShutdown,
                      acts @ fst (snd (runtime_Close (su_stopErr su) (su_adminErr su) rt')), st')
                else (Died (''runtime: '' @ error_Error (the err)), acts, st'))))"

definition serve_config :: "process \<Rightarrow> config" where
  "serve_config pr = parseFlags (pr_getenv pr) (pr_exe_dir pr) (pr_flag pr) (pr_validate pr)"

text \<open>The second component lists the jobs the tool was run on directly, the third what the runtime did.\<close>

definition Serve ::
  "(go_error \<Rightarrow> bool) \<Rightarrow> process \<Rightarrow> surroundings \<Rightarrow> tool \<Rightarrow> db \<times> fault list
   \<Rightarrow> exit \<times> job list \<times> action list \<times> db \<times> fault list" where
  "Serve canceled pr su t st =
     (let cfg = serve_config pr in
      case LoadManifest (pr_readFile pr) (pr_yaml pr) (cf_ManifestPath cfg) of
        Inl e \<Rightarrow> (Died ''manifest'', [], [], st)
      | Inr m \<Rightarrow>
          (if mf_Tool m \<noteq> tl_Name t then (Died ''mismatch'', [], [], st)
           else
             let m = m\<lparr>mf_Readme := loadReadme (pr_readFile pr) (pr_exe_dir pr) (pr_getenv pr ''WORKER_README_PATH'')\<rparr> in
             if cf_ValidateOnly cfg then (ManifestOK (mf_Tool m) (mf_Version m) (length (mf_Phases m)), [], [], st)
             else if cf_OneShotAssetJSON cfg \<noteq> []
             then (case runOnce (pr_num pr) (printOnceResult (pr_time_text pr) (pr_nils pr)) (pr_now pr) t m cfg of (x, jobs) \<Rightarrow> (x, jobs, [], st))
             else (case serve_runtime canceled pr su t m cfg st of (x, acts, st') \<Rightarrow> (x, [], acts, st'))))"

section \<open>Facts\<close>

lemma LoadManifest_phases: "LoadManifest rf y p = Inr m \<Longrightarrow> mf_Phases m \<noteq> []"
  by (auto simp: LoadManifest_def Validate_def Let_def split: sum.splits prod.splits option.splits if_splits)

definition once_job :: "manifest \<Rightarrow> job \<Rightarrow> bool" where
  "once_job m jb \<longleftrightarrow> jb_RunID jb = ''once'' \<and> jb_Phase jb = hd (phaseNames m) \<and> jb_ScopeID jb = as_ScopeID (jb_Asset jb)
     \<and> as_Kind (jb_Asset jb) \<noteq> [] \<and> as_Value (jb_Asset jb) \<noteq> []"

lemma runOnce_facts:
  assumes "runOnce num print now t m cfg = (x, jobs)" and "mf_Phases m \<noteq> []"
  shows "x \<noteq> IndexPanic \<and> length jobs \<le> 1 \<and> (\<forall>jb \<in> set jobs. once_job m jb)
    \<and> (\<forall>res out. x = Printed res out \<longrightarrow> (\<exists>jb. jobs = [jb] \<and> tl_Run t jb = Inr res) \<and> out = print res)"
proof (cases "parseOnceAsset num (cf_OneShotAssetJSON cfg)")
  case (Inr a)
  with assms parseOnceAsset_complete [OF Inr] show ?thesis
    by (cases "mf_Phases m") (auto simp: runOnce_def Let_def once_job_def phaseNames_def split: sum.splits)
qed (use assms in \<open>auto simp: runOnce_def\<close>)

lemma serve_runtime_exit:
  "serve_runtime canceled pr su t m cfg st = (x, r) \<Longrightarrow> x \<in> {Returned, NilCallPanic} \<or> (\<exists>e. x = Died e)"
  by (auto simp: serve_runtime_def deferred_exit_def Let_def split: sum.splits prod.splits option.splits if_splits)

lemma first_readable_prefix:
  assumes "\<exists>b. b \<in> Inr -` readFile ` set ps"
  shows "\<exists>qs p rs b. ps = qs @ p # rs \<and> (\<forall>q \<in> set qs. \<exists>e. readFile q = Inl e) \<and> readFile p = Inr b
    \<and> first_readable readFile ps = take (256 * 1024) b"
  using assms
proof (induction ps)
  case (Cons p ps)
  show ?case
  proof (cases "readFile p")
    case (Inl e)
    have "\<exists>b. b \<in> Inr -` readFile ` set ps" using Cons.prems Inl by auto
    from Cons.IH [OF this] obtain qs p' rs b where "ps = qs @ p' # rs" "\<forall>q \<in> set qs. \<exists>e. readFile q = Inl e"
        "readFile p' = Inr b" "first_readable readFile ps = take (256 * 1024) b" by blast
    then show ?thesis using Inl
      by (intro exI [of _ "p # qs"] exI [of _ p'] exI [of _ rs] exI [of _ b]) simp
  next
    case (Inr b)
    then show ?thesis by (intro exI [of _ "[]"] exI [of _ p] exI [of _ ps] exI [of _ b]) simp
  qed
qed simp

lemma first_readable_none: "\<forall>p \<in> set ps. \<exists>e. readFile p = Inl e \<Longrightarrow> first_readable readFile ps = []"
  by (induction ps) auto

section \<open>Properties\<close>

text \<open>
  C15: the tool runs, and the database is touched, only with a manifest that loads, validates and carries
  the tool's name. With the validate flag neither happens. With an asset on the command line the tool
  runs at most once, on a job of the manifest's first phase whose asset has a kind and a value, its
  result is what is printed, and the database is not touched. Picking the first phase never panics.
\<close>

theorem Serve_modes:
  assumes "Serve canceled pr su t st = (x, jobs, acts, st')"
  shows "x \<noteq> IndexPanic
    \<and> (jobs \<noteq> [] \<or> acts \<noteq> [] \<or> st' \<noteq> st \<longrightarrow>
        (\<exists>m. LoadManifest (pr_readFile pr) (pr_yaml pr) (cf_ManifestPath (serve_config pr)) = Inr m \<and> mf_Tool m = tl_Name t
           \<and> \<not> pr_validate pr \<and> (\<forall>jb \<in> set jobs. once_job m jb)))
    \<and> (cf_OneShotAssetJSON (serve_config pr) \<noteq> [] \<longrightarrow> acts = [] \<and> st' = st \<and> length jobs \<le> 1
        \<and> (\<forall>res out. x = Printed res out \<longrightarrow> (\<exists>jb. jobs = [jb] \<and> tl_Run t jb = Inr res)
              \<and> out = printOnceResult (pr_time_text pr) (pr_nils pr) res))
    \<and> (cf_OneShotAssetJSON (serve_config pr) = [] \<longrightarrow> jobs = [])"
proof (cases "LoadManifest (pr_readFile pr) (pr_yaml pr) (cf_ManifestPath (serve_config pr))")
  case (Inl e)
  with assms show ?thesis by (auto simp: Serve_def Let_def)
next
  case (Inr m)
  let ?m = "m\<lparr>mf_Readme := loadReadme (pr_readFile pr) (pr_exe_dir pr) (pr_getenv pr ''WORKER_README_PATH'')\<rparr>"
  have v: "cf_ValidateOnly (serve_config pr) = pr_validate pr" by (simp add: serve_config_def parseFlags_def)
  have phases: "mf_Phases ?m \<noteq> []" and same: "once_job ?m = once_job m"
    using LoadManifest_phases [OF Inr] by (auto simp: once_job_def phaseNames_def fun_eq_iff)
  show ?thesis
  proof (cases "mf_Tool m \<noteq> tl_Name t \<or> pr_validate pr")
    case True
    with assms Inr v show ?thesis by (auto simp: Serve_def Let_def split: if_splits)
  next
    case False
    show ?thesis
    proof (cases "cf_OneShotAssetJSON (serve_config pr) = []")
      case True
      then have "serve_runtime canceled pr su t ?m (serve_config pr) st = (x, acts, st')" "jobs = []"
        using assms Inr False v by (auto simp: Serve_def Let_def split: prod.splits)
      with serve_runtime_exit [OF this(1)] True Inr False show ?thesis by auto
    next
      case one: False
      then have "runOnce (pr_num pr) (printOnceResult (pr_time_text pr) (pr_nils pr)) (pr_now pr) t ?m (serve_config pr) = (x, jobs)" "acts = []" "st' = st"
        using assms Inr False v by (auto simp: Serve_def Let_def split: prod.splits)
      with runOnce_facts [OF this(1) phases] one Inr False same show ?thesis by auto
    qed
  qed
qed

text \<open>
  A service that ends without an error returns when tracing was set up, and panics on the nil
  shutdown function when setting it up had failed.
\<close>

theorem Serve_end_depends_on_tracing:
  assumes "Serve canceled pr su t st = (x, jobs, acts, st')"
  shows "(x = Returned \<longrightarrow> fst (snd (tracing_Init (pr_otel pr) (pr_getenv pr) (tl_Name t) tracing_init)) = None)
    \<and> (x = NilCallPanic \<longrightarrow> fst (snd (tracing_Init (pr_otel pr) (pr_getenv pr) (tl_Name t) tracing_init)) \<noteq> None)"
proof (cases "LoadManifest (pr_readFile pr) (pr_yaml pr) (cf_ManifestPath (serve_config pr))")
  case (Inl e)
  with assms show ?thesis by (auto simp: Serve_def Let_def)
next
  case (Inr m)
  let ?f = "fst (tracing_Init (pr_otel pr) (pr_getenv pr) (tl_Name t) tracing_init)"
  have "x = Returned \<longrightarrow> ?f \<noteq> NilFunc" "x = NilCallPanic \<longrightarrow> ?f = NilFunc"
    using assms Inr
    by (auto simp: Serve_def Let_def serve_runtime_def runOnce_def deferred_exit_def
        split: if_splits prod.splits sum.splits option.splits list.splits)
  then show ?thesis using Init_nil_iff_error [of "pr_otel pr" "pr_getenv pr" "tl_Name t" tracing_init] by auto
qed

text \<open>
  The README is the first 256 KiB of the first candidate that can be read, in the order of the
  override, the file next to the binary and the one in the working directory, and empty when none can.
\<close>

theorem loadReadme_first_readable:
  "length (loadReadme readFile exe_dir override) \<le> 256 * 1024
   \<and> ((\<forall>p \<in> set (readme_candidates exe_dir override). \<exists>e. readFile p = Inl e) \<longrightarrow> loadReadme readFile exe_dir override = [])
   \<and> ((\<exists>p \<in> set (readme_candidates exe_dir override). \<exists>b. readFile p = Inr b) \<longrightarrow>
      (\<exists>qs p rs b. readme_candidates exe_dir override = qs @ p # rs \<and> (\<forall>q \<in> set qs. \<exists>e. readFile q = Inl e)
         \<and> readFile p = Inr b \<and> loadReadme readFile exe_dir override = take (256 * 1024) b))"
proof -
  let ?ps = "readme_candidates exe_dir override"
  have none: "(\<forall>p \<in> set ?ps. \<exists>e. readFile p = Inl e) \<longrightarrow> loadReadme readFile exe_dir override = []"
    by (simp add: loadReadme_def first_readable_none)
  have some: "\<exists>qs p rs b. ?ps = qs @ p # rs \<and> (\<forall>q \<in> set qs. \<exists>e. readFile q = Inl e)
         \<and> readFile p = Inr b \<and> loadReadme readFile exe_dir override = take (256 * 1024) b"
    if "\<exists>p \<in> set ?ps. \<exists>b. readFile p = Inr b"
    unfolding loadReadme_def by (rule first_readable_prefix) (use that in \<open>force simp: image_iff\<close>)
  have "length (loadReadme readFile exe_dir override) \<le> 256 * 1024"
  proof (cases "\<exists>p \<in> set ?ps. \<exists>b. readFile p = Inr b")
    case True
    from some [OF this] show ?thesis by auto
  next
    case False
    then have "\<forall>p \<in> set ?ps. \<exists>e. readFile p = Inl e" by (metis sum.exhaust)
    with none show ?thesis by simp
  qed
  with none some show ?thesis by blast
qed

theorem loadReadme_first_readable_witness:
  "loadReadme (\<lambda>p. if p = ''README.md'' then Inr ''doc'' else Inl FatalErr) (Some ''/opt'') ''x'' = ''doc''"
proof -
  let ?rf = "\<lambda>p. if p = ''README.md'' then Inr ''doc'' else Inl FatalErr"
  have "\<exists>p \<in> set (readme_candidates (Some ''/opt'') ''x''). \<exists>b. ?rf p = Inr b"
    by (simp add: readme_candidates_def)
  then obtain qs p rs b where "?rf p = Inr b" "loadReadme ?rf (Some ''/opt'') ''x'' = take (256 * 1024) b"
    using loadReadme_first_readable [of ?rf "Some ''/opt''" "''x''"] by blast
  then show ?thesis by (auto split: if_splits)
qed

definition process0 :: "string \<Rightarrow> process" where
  "process0 asset = \<lparr>pr_getenv = (\<lambda>_. []), pr_exe_dir = None, pr_flag = (\<lambda>n. if n = ''asset'' then Some asset else None),
     pr_validate = False, pr_readFile = (\<lambda>_. Inr []), pr_yaml = (\<lambda>_. Inr (manifest0 [phase0 ''a''])),
     pr_num = Some, pr_time_text = (\<lambda>_. None), pr_nils = (True, True), pr_now = 0, pr_hostname = Inr ''h'', pr_rand = ''abcd'',
     pr_otel = \<lparr>ot_merge = (\<lambda>_. None), ot_exporter = (\<lambda>_. Some FatalErr)\<rparr>\<rparr>"

lemma valid0: "Validate (manifest0 [phase0 ''a'']) = (None, (manifest0 [phase0 ''a''])\<lparr>mf_DefaultEnabled := Some True\<rparr>)"
  by code_simp

definition process1 :: process where
  "process1 = (process0 [])\<lparr>pr_getenv := (\<lambda>n. if n = ''PG_DSN'' \<or> n = ''OTEL_EXPORTER_OTLP_ENDPOINT'' then ''x'' else [])\<rparr>"

definition surroundings1 :: surroundings where
  "surroundings1 = surroundings0\<lparr>su_openPool := Some TransientErr\<rparr>"

theorem Serve_end_depends_on_tracing_witness:
  "\<exists>acts. Serve (\<lambda>_. True) process1 surroundings1 tool0 (empty_db, []) = (NilCallPanic, [], acts, empty_db, [])
     \<and> fst (snd (tracing_Init (pr_otel process1) (pr_getenv process1) ''tm-x'' tracing_init)) \<noteq> None"
proof -
  define m where "m = (manifest0 [phase0 ''a''])\<lparr>mf_DefaultEnabled := Some True\<rparr>"
  have cfg: "serve_config process1 = \<lparr>cf_ManifestPath = ''manifest.yaml'', cf_PGDSN = ''x'', cf_AdminAddr = '':9090'',
      cf_LogLevel = ''info'', cf_ValidateOnly = False, cf_OneShotAssetJSON = []\<rparr>"
    by (simp add: serve_config_def process1_def process0_def parseFlags_def defaultString_def manifestNextToBinary_def)
  have load: "LoadManifest (pr_readFile process1) (pr_yaml process1) ''manifest.yaml'' = Inr m"
    by (simp add: LoadManifest_def process1_def process0_def valid0 m_def)
  have name: "mf_Tool m = tl_Name tool0" by (simp add: m_def manifest0_def tool0_def)
  have nil: "fst (tracing_Init (pr_otel process1) (pr_getenv process1) n tracing_init) = NilFunc" for n
    by (simp add: tracing_Init_def process1_def process0_def Let_def)
  have up: "run_up surroundings1 rt st = (Some (errorf_w ''pg pool'' TransientErr), [OpenPool], rt, st)" for rt st
    by (simp add: run_up_def surroundings1_def)
  have sr: "\<exists>acts. serve_runtime (\<lambda>_. True) process1 surroundings1 tool0 (m\<lparr>mf_Readme := r\<rparr>) (serve_config process1) st
      = (NilCallPanic, acts, st)" for r st
    by (simp add: serve_runtime_def nil newRuntime_def cfg runtime_Run_def up deferred_exit_def)
  obtain acts where run: "Serve (\<lambda>_. True) process1 surroundings1 tool0 (empty_db, []) = (NilCallPanic, [], acts, empty_db, [])"
    using sr [of "loadReadme (pr_readFile process1) (pr_exe_dir process1) (pr_getenv process1 ''WORKER_README_PATH'')" "(empty_db, [])"]
    by (auto simp: Serve_def Let_def load name cfg)
  from Serve_end_depends_on_tracing [OF run] run show ?thesis by (auto simp: tool0_def)
qed

definition once_asset0 :: string where
  "once_asset0 = ''{\"value\":\"https://x\"}''"

definition result1 :: tool_result where
  "result1 = \<lparr>re_NewAssets = [empty_asset\<lparr>as_Kind := ''host'', as_Value := ''h'', as_Attrs := Some [(''up'', GBool True)]\<rparr>],
     re_Findings = [\<lparr>fi_Kind = ''open'', fi_Severity = ''high'', fi_Title = ''p'', fi_Data = Some [(''port'', GStr ''80'')]\<rparr>],
     re_AssetUpdate = None, re_Stats = Some [],
     re_SecretFeedback = Some \<lparr>sf_ExpiresAt = None, sf_QuotaRemaining = Some 7, sf_QuotaLimit = None\<rparr>\<rparr>"

definition tool1 :: tool where
  "tool1 = tool0\<lparr>tl_Run := (\<lambda>_. Inr result1)\<rparr>"

lemma Serve_once0:
  "\<exists>jobs. Serve (\<lambda>_. False) (process0 once_asset0) surroundings0 tool1 (empty_db, [])
     = (Printed result1 (printOnceResult (\<lambda>_. None) (True, True) result1), jobs, [], empty_db, []) \<and> jobs \<noteq> []"
proof -
  let ?p = "process0 once_asset0"
  have given: "once_asset0 \<noteq> []" by (simp add: once_asset0_def)
  have cfg: "serve_config ?p = \<lparr>cf_ManifestPath = ''manifest.yaml'', cf_PGDSN = [], cf_AdminAddr = '':9090'',
      cf_LogLevel = ''info'', cf_ValidateOnly = False, cf_OneShotAssetJSON = once_asset0\<rparr>"
    by (simp add: serve_config_def process0_def parseFlags_def defaultString_def manifestNextToBinary_def)
  have asset: "parseOnceAsset (pr_num ?p) once_asset0 = Inr (empty_asset\<lparr>as_Kind := ''url'', as_Value := ''https://x''\<rparr>)"
    by code_simp
  define m where "m = (manifest0 [phase0 ''a''])\<lparr>mf_DefaultEnabled := Some True\<rparr>"
  have load: "LoadManifest (pr_readFile ?p) (pr_yaml ?p) ''manifest.yaml'' = Inr m"
    by (simp add: LoadManifest_def process0_def valid0 m_def)
  have name: "mf_Tool m = tl_Name tool1" and phases: "mf_Phases m = [phase0 ''a'']"
    by (simp_all add: m_def manifest0_def tool0_def tool1_def)
  have once: "\<exists>jb. runOnce (pr_num ?p) print (pr_now ?p) tool1 (m\<lparr>mf_Readme := r\<rparr>) (serve_config ?p) = (Printed result1 (print result1), [jb])" for r print
    by (simp add: runOnce_def cfg asset phases Let_def tool1_def)
  obtain jb where jb: "runOnce (pr_num ?p) (printOnceResult (pr_time_text ?p) (pr_nils ?p)) (pr_now ?p) tool1
      (m\<lparr>mf_Readme := loadReadme (pr_readFile ?p) (pr_exe_dir ?p) (pr_getenv ?p ''WORKER_README_PATH'')\<rparr>) (serve_config ?p)
      = (Printed result1 (printOnceResult (pr_time_text ?p) (pr_nils ?p) result1), [jb])" using once by blast
  have par: "pr_time_text ?p = (\<lambda>_. None)" "pr_nils ?p = (True, True)" by (simp_all add: process0_def)
  show ?thesis
    unfolding Serve_def Let_def by (simp add: cfg load name given jb [unfolded cfg] par [symmetric] del: split_paired_Ex)
qed

theorem Serve_modes_witness:
  "\<exists>jobs jb. Serve (\<lambda>_. False) (process0 once_asset0) surroundings0 tool1 (empty_db, [])
     = (Printed result1 (printOnceResult (\<lambda>_. None) (True, True) result1), jobs, [], empty_db, []) \<and> jobs = [jb] \<and> tl_Run tool1 jb = Inr result1"
proof -
  obtain jobs where run: "Serve (\<lambda>_. False) (process0 once_asset0) surroundings0 tool1 (empty_db, [])
      = (Printed result1 (printOnceResult (\<lambda>_. None) (True, True) result1), jobs, [], empty_db, [])" "jobs \<noteq> []"
    using Serve_once0 by blast
  have "cf_OneShotAssetJSON (serve_config (process0 once_asset0)) = once_asset0" "once_asset0 \<noteq> []"
    by (simp_all add: serve_config_def process0_def parseFlags_def once_asset0_def)
  with Serve_modes [OF run(1)] run(1) show ?thesis by auto
qed

text \<open>
  C35: what the one-shot mode prints is the result of its one run: a Go program that decodes the printed text into
  a \<open>Result\<close> gets the new assets with each of their fields, the findings, the update, the statistics and
  the feedback the tool returned, as JSON shows them (invalid bytes of texts replaced, numbers inside maps by
  their texts, empty attributes absent), as long as they hold only values that JSON can show, nested no
  deeper than a reader accepts.
\<close>

theorem once_output_reads_back:
  assumes "Serve canceled pr su t st = (Printed res out, jobs, acts, st')" and "shown_result (pr_time_text pr) time_of res"
  shows "(\<exists>jb. jobs = [jb] \<and> tl_Run t jb = Inr res) \<and> unmarshal_result Some time_of out = Some (seen_result res)"
proof -
  have "out = printOnceResult (pr_time_text pr) (pr_nils pr) res \<and> (\<exists>jb. jobs = [jb] \<and> tl_Run t jb = Inr res)"
    using assms(1) by (auto simp: Serve_def Let_def runOnce_def serve_runtime_def deferred_exit_def
        split: sum.splits if_splits prod.splits option.splits list.splits)
  then show ?thesis using printed_result_reads_back [OF assms(2)] by blast
qed

lemma result1_shown: "shown_result time_text time_of result1" "seen_result result1 = result1"
proof -
  have u: "coerce_utf8 ''host'' = ''host''" "coerce_utf8 ''h'' = ''h''" "coerce_utf8 ''up'' = ''up''" "coerce_utf8 ''open'' = ''open''"
    "coerce_utf8 ''high'' = ''high''" "coerce_utf8 ''p'' = ''p''" "coerce_utf8 ''port'' = ''port''" "coerce_utf8 ''80'' = ''80''"
    by (simp_all add: coerce_utf8.simps(2))
  show "shown_result time_text time_of result1"
    by (simp add: shown_result_def result1_def shown_map_def shown_feedback_def int64_def u max_nesting_def empty_asset_def)
  show "seen_result result1 = result1"
    by (simp add: seen_result_def seen_asset_def seen_finding_def map_view_def result1_def empty_asset_def u)
qed

theorem once_output_reads_back_witness:
  "unmarshal_result Some (\<lambda>_. None) (printOnceResult (\<lambda>_. None) (True, True) result1) = Some result1"
proof -
  obtain jobs where run: "Serve (\<lambda>_. False) (process0 once_asset0) surroundings0 tool1 (empty_db, [])
      = (Printed result1 (printOnceResult (\<lambda>_. None) (True, True) result1), jobs, [], empty_db, [])"
    using Serve_once0 by blast
  show ?thesis using once_output_reads_back [OF run result1_shown(1)] by (simp add: result1_shown(2))
qed

end
