(* ===== verification/Health_Race.thy ===== *)
theory Health_Race
  imports Health "HOL-Library.Multiset"
begin

text \<open>
  The health counters and reports with the interleavings of a running worker (worker/health.go): jobs
  run in parallel, each outcome is recorded by two atomic operations, the reporting loop reads the two
  counters one after the other, and the reports of health errors are written by goroutines of their own,
  in any order. Shown: the counters are those of the outcomes recorded one after another; a passive
  report is the report of one moment, except for a report that overlaps the first run; and no
  report is lost or written twice.
\<close>

section \<open>Steps\<close>

text \<open>
  A recorded outcome is an error and the id of an API key. Of the reporting loop, the point it has
  reached between two ticks: nothing done, the failures loaded, the report made. The last three fields
  are histories: outcomes in the order of their second atomic operation, passive reports in the order
  they were made, each with the number of outcomes settled when it loaded the failures, and everything written.
\<close>

type_synonym outcome = "go_error option \<times> string"

datatype reporter = Waiting | Loaded "32 word" nat | Made healthReport

record health_run =
  hn_counters :: health_counters
  hn_inflight :: "outcome list"
  hn_reporter :: reporter
  hn_goroutines :: "(healthReport \<times> string) list"
  hn_settled :: "outcome list"
  hn_passive :: "(nat \<times> healthReport) list"
  hn_written :: "(healthReport \<times> string) list"

definition remove_nth :: "nat \<Rightarrow> 'a list \<Rightarrow> 'a list" where
  "remove_nth i xs = take i xs @ drop (Suc i) xs"

text \<open>\<open>recordRunOutcome\<close> up to the first atomic operation, and the rest of it.\<close>

definition count_run :: "outcome \<Rightarrow> health_run \<Rightarrow> health_run" where
  "count_run oc s =
     s\<lparr>hn_counters := (hn_counters s)\<lparr>hc_totalRuns := hc_totalRuns (hn_counters s) + 1\<rparr>,
       hn_inflight := hn_inflight s @ [oc]\<rparr>"

definition outcome_report :: "outcome \<Rightarrow> (healthReport \<times> string) list" where
  "outcome_report oc =
     (case fst oc of
        None \<Rightarrow> []
      | Some e \<Rightarrow>
          (case as_HealthError e of
             None \<Rightarrow> []
           | Some (c, m) \<Rightarrow> [(\<lparr>hr_Status = ''unhealthy'', hr_Class = c, hr_Message = m, hr_Extra = None\<rparr>, snd oc)]))"

definition settle_run :: "nat \<Rightarrow> health_run \<Rightarrow> health_run" where
  "settle_run i s =
     (let oc = hn_inflight s ! i; c = hn_counters s in
      s\<lparr>hn_counters := c\<lparr>hc_consecutiveFailures := (if fst oc = None then 0 else hc_consecutiveFailures c + 1)\<rparr>,
        hn_inflight := remove_nth i (hn_inflight s),
        hn_goroutines := hn_goroutines s @ outcome_report oc,
        hn_settled := hn_settled s @ [oc]\<rparr>)"

text \<open>\<open>gatherHealth\<close> for a tool without \<open>Healthcheck\<close>: the failures are loaded first, then the runs.\<close>

definition load_runs :: "32 word \<Rightarrow> nat \<Rightarrow> health_run \<Rightarrow> health_run" where
  "load_runs fails n s =
     (let r = gatherHealth None ((hn_counters s)\<lparr>hc_consecutiveFailures := fails\<rparr>) in
      s\<lparr>hn_reporter := Made r, hn_passive := hn_passive s @ [(n, r)]\<rparr>)"

inductive health_step :: "health_run \<Rightarrow> health_run \<Rightarrow> bool" where
  count: "health_step s (count_run oc s)"
| settle: "i < length (hn_inflight s) \<Longrightarrow> health_step s (settle_run i s)"
| load_failures: "hn_reporter s = Waiting \<Longrightarrow>
    health_step s (s\<lparr>hn_reporter := Loaded (hc_consecutiveFailures (hn_counters s)) (length (hn_settled s))\<rparr>)"
| load_total: "hn_reporter s = Loaded fails n \<Longrightarrow> health_step s (load_runs fails n s)"
| write_passive: "hn_reporter s = Made r \<Longrightarrow>
    health_step s (s\<lparr>hn_reporter := Waiting, hn_written := hn_written s @ [(r, [])]\<rparr>)"
| write_background: "i < length (hn_goroutines s) \<Longrightarrow>
    health_step s (s\<lparr>hn_goroutines := remove_nth i (hn_goroutines s), hn_written := hn_written s @ [hn_goroutines s ! i]\<rparr>)"

inductive_cases health_stepE: "health_step s s'"

definition health_start :: health_run where
  "health_start = \<lparr>hn_counters = \<lparr>hc_totalRuns = 0, hc_consecutiveFailures = 0\<rparr>, hn_inflight = [], hn_reporter = Waiting,
     hn_goroutines = [], hn_settled = [], hn_passive = [], hn_written = []\<rparr>"

abbreviation settled_errors :: "health_run \<Rightarrow> go_error option list" where
  "settled_errors s \<equiv> map fst (hn_settled s)"

section \<open>Counters\<close>

lemma mset_remove_nth: "i < length xs \<Longrightarrow> add_mset (xs ! i) (mset (remove_nth i xs)) = mset xs"
  using arg_cong [OF id_take_nth_drop, of i xs mset] by (simp add: remove_nth_def)

lemma length_remove_nth: "i < length xs \<Longrightarrow> Suc (length (remove_nth i xs)) = length xs"
  by (simp add: remove_nth_def)

lemma trailing_snoc [simp]: "trailing (es @ [e]) = (if e = None then 0 else Suc (trailing es))"
  by (simp add: trailing_def)

definition counters_inv :: "health_run \<Rightarrow> bool" where
  "counters_inv s \<longleftrightarrow>
     hc_totalRuns (hn_counters s) = word_of_nat (length (hn_settled s) + length (hn_inflight s))
     \<and> hc_consecutiveFailures (hn_counters s) = word_of_nat (trailing (settled_errors s))"

lemma counters_inv_step: "health_step s s' \<Longrightarrow> counters_inv s \<Longrightarrow> counters_inv s'"
proof (induction rule: health_step.induct)
  case (settle i s)
  then show ?case
    by (auto simp: counters_inv_def settle_run_def Let_def length_remove_nth [OF settle(1), symmetric])
qed (simp_all add: counters_inv_def count_run_def load_runs_def Let_def)

lemma counters_inv_reachable: "health_step\<^sup>*\<^sup>* health_start s \<Longrightarrow> counters_inv s"
proof (induction rule: rtranclp_induct)
  case base
  show ?case by (simp add: counters_inv_def health_start_def trailing_def)
qed (rule counters_inv_step)

section \<open>Passive reports\<close>

definition healthy_report :: healthReport where
  "healthy_report = \<lparr>hr_Status = ''healthy'', hr_Class = ''ok'', hr_Message = [], hr_Extra = None\<rparr>"

text \<open>The report of the moment after the first \<open>n\<close> settled outcomes, and the exception that an overlap with the first runs allows.\<close>

definition report_ok :: "outcome list \<Rightarrow> nat \<times> healthReport \<Rightarrow> bool" where
  "report_ok ocs nr \<longleftrightarrow> fst nr \<le> length ocs
     \<and> (snd nr = gatherHealth None (after_runs (map fst (take (fst nr) ocs))) \<or> fst nr = 0 \<and> snd nr = healthy_report)"

lemma report_ok_snoc: "report_ok ocs nr \<Longrightarrow> report_ok (ocs @ [oc]) nr"
  by (auto simp: report_ok_def)

definition passive_inv :: "health_run \<Rightarrow> bool" where
  "passive_inv s \<longleftrightarrow>
     (\<forall>f n. hn_reporter s = Loaded f n \<longrightarrow>
        n \<le> length (hn_settled s) \<and> f = word_of_nat (trailing (map fst (take n (hn_settled s)))))
     \<and> (length (hn_settled s) + length (hn_inflight s) < 2 ^ 32 \<longrightarrow> (\<forall>nr \<in> set (hn_passive s). report_ok (hn_settled s) nr))"

text \<open>The number of runs matters to a report only by being zero or not.\<close>

lemma gather_total:
  assumes "(runs = 0) \<longleftrightarrow> (hc_totalRuns c = 0)"
  shows "gatherHealth None \<lparr>hc_totalRuns = runs, hc_consecutiveFailures = hc_consecutiveFailures c\<rparr> = gatherHealth None c"
  using assms by (simp add: gatherHealth_def Let_def)

lemma load_runs_ok:
  assumes "counters_inv s" and "n \<le> length (hn_settled s)" and "length (hn_settled s) + length (hn_inflight s) < 2 ^ 32"
  shows "report_ok (hn_settled s)
    (n, gatherHealth None ((hn_counters s)\<lparr>hc_consecutiveFailures := word_of_nat (trailing (map fst (take n (hn_settled s))))\<rparr>))"
proof -
  let ?total = "length (hn_settled s) + length (hn_inflight s)"
  let ?c = "after_runs (map fst (take n (hn_settled s)))"
  have c: "hc_totalRuns ?c = word_of_nat n" "hc_consecutiveFailures ?c = word_of_nat (trailing (map fst (take n (hn_settled s))))"
    using counters_after_runs [of "map fst (take n (hn_settled s))"] assms(2) by simp_all
  have eq: "(hn_counters s)\<lparr>hc_consecutiveFailures := hc_consecutiveFailures ?c\<rparr>
      = \<lparr>hc_totalRuns = word_of_nat ?total, hc_consecutiveFailures = hc_consecutiveFailures ?c\<rparr>"
    using assms(1) by (simp add: counters_inv_def)
  show ?thesis
  proof (cases "n = 0 \<and> ?total \<noteq> 0")
    case True
    then have "hc_consecutiveFailures ?c = 0" unfolding c(2) by (simp add: trailing_def)
    moreover have "(word_of_nat ?total :: 32 word) \<noteq> 0" using True assms(3) word_of_nat_32_eq_0 by blast
    ultimately show ?thesis
      unfolding c(2) [symmetric] eq using True
      by (simp add: report_ok_def gatherHealth_def Let_def healthy_report_def del: of_nat_add)
  next
    case False
    then have "(word_of_nat ?total :: 32 word) = 0 \<longleftrightarrow> hc_totalRuns ?c = 0"
      unfolding c(1) using assms(2,3) word_of_nat_32_eq_0 [of ?total] word_of_nat_32_eq_0 [of n] by auto
    from gather_total [OF this] show ?thesis
      unfolding c(2) [symmetric] eq using assms(2) by (simp add: report_ok_def)
  qed
qed

lemma passive_inv_step:
  assumes "health_step s s'" and "counters_inv s" and "passive_inv s"
  shows "passive_inv s'"
  using assms
proof (induction rule: health_step.induct)
  case (settle i s)
  then show ?case
    using length_remove_nth [OF settle(1)]
    by (auto simp: passive_inv_def settle_run_def Let_def report_ok_snoc)
next
  case (load_failures s)
  then show ?case by (simp add: passive_inv_def counters_inv_def)
next
  case (load_total s fails n)
  then show ?case using load_runs_ok [OF load_total(2), of n] by (auto simp: passive_inv_def load_runs_def Let_def)
qed (auto simp: passive_inv_def count_run_def)

lemma passive_inv_reachable: "health_step\<^sup>*\<^sup>* health_start s \<Longrightarrow> passive_inv s"
proof (induction rule: rtranclp_induct)
  case base
  show ?case by (simp add: passive_inv_def health_start_def)
next
  case (step s s')
  then show ?case using passive_inv_step counters_inv_reachable by blast
qed

section \<open>Written reports\<close>

definition made_reports :: "health_run \<Rightarrow> (healthReport \<times> string) multiset" where
  "made_reports s = image_mset (\<lambda>nr. (snd nr, [])) (mset (hn_passive s)) + mset (concat (map outcome_report (hn_settled s)))"

definition unwritten :: "health_run \<Rightarrow> (healthReport \<times> string) multiset" where
  "unwritten s = mset (hn_goroutines s) + (case hn_reporter s of Made r \<Rightarrow> {#(r, [])#} | _ \<Rightarrow> {#})"

lemma written_step:
  assumes "health_step s s'" and "mset (hn_written s) + unwritten s = made_reports s"
  shows "mset (hn_written s') + unwritten s' = made_reports s'"
  using assms
proof (induction rule: health_step.induct)
  case (write_background i s)
  then show ?case by (simp add: unwritten_def made_reports_def mset_remove_nth [OF write_background(1), symmetric])
next
  case (settle i s)
  then show ?case by (simp add: unwritten_def made_reports_def settle_run_def Let_def)
next
  case (load_total s fails n)
  then show ?case by (simp add: unwritten_def made_reports_def load_runs_def Let_def)
qed (simp_all add: unwritten_def made_reports_def count_run_def)

lemma written_reachable: "health_step\<^sup>*\<^sup>* health_start s \<Longrightarrow> mset (hn_written s) + unwritten s = made_reports s"
proof (induction rule: rtranclp_induct)
  case base
  show ?case by (simp add: unwritten_def made_reports_def health_start_def)
qed (rule written_step)

text \<open>Neither a passive report nor the report of a health error has extra data.\<close>

lemma passive_no_extra: "health_step\<^sup>*\<^sup>* health_start s \<Longrightarrow> \<forall>nr \<in> set (hn_passive s). hr_Extra (snd nr) = None"
proof (induction rule: rtranclp_induct)
  case (step s s')
  from step(2,3) show ?case
    by (induction rule: health_step.induct)
      (auto simp: count_run_def settle_run_def load_runs_def Let_def gatherHealth_def split: if_splits)
qed (simp add: health_start_def)

lemma outcome_no_extra: "rk \<in> set (outcome_report oc) \<Longrightarrow> hr_Extra (fst rk) = None"
  by (auto simp: outcome_report_def split: option.splits)

lemma written_extra:
  assumes "health_step\<^sup>*\<^sup>* health_start s" and "(r, k) \<in> set (hn_written s)"
  shows "extra_json r = ''{}''"
proof -
  have "(r, k) \<in># made_reports s" using assms(2) written_reachable [OF assms(1)] by (metis in_multiset_in_set union_iff)
  then have "hr_Extra r = None" using passive_no_extra [OF assms(1)] outcome_no_extra by (fastforce simp: made_reports_def)
  then show ?thesis by (simp add: extra_json_def)
qed

text \<open>The row after what was written, in that order, by undisturbed statements.\<close>

definition written_row :: "pg \<Rightarrow> string \<Rightarrow> db \<Rightarrow> health_run \<Rightarrow> health_row option" where
  "written_row env tool d s =
     lookup mh_tool (db_health (fst (after_reports tool (map (Pair env) (hn_written s)) d))) tool"

abbreviation ends_bad :: "healthReport \<times> string \<Rightarrow> bool" where
  "ends_bad rk \<equiv> bad_status (hr_Status (fst rk))"

lemma bad_reports_mset: "bad_reports (map (Pair env) ws) = size (filter_mset ends_bad (mset ws))"
  by (induction ws) (auto simp: bad_reports_def report_status_def)

lemma outcome_report_bad: "filter_mset ends_bad (mset (outcome_report oc)) = mset (outcome_report oc)"
  by (auto simp: outcome_report_def bad_status_def split: option.split)

lemma size_outcome_reports:
  "size (mset (concat (map outcome_report ocs))) = length (filter (\<lambda>oc. outcome_report oc \<noteq> []) ocs)"
  by (induction ocs) (auto simp: outcome_report_def split: option.splits)

lemma outcome_reports_bad:
  "filter_mset ends_bad (mset (concat (map outcome_report ocs))) = mset (concat (map outcome_report ocs))"
  by (induction ocs) (simp_all add: outcome_report_bad)

section \<open>Properties\<close>

text \<open>
  C26: with any number of jobs recording their outcomes at the same time, the counters at any moment at
  which none is between its two atomic operations are those of recording the outcomes one after another.
\<close>

theorem concurrent_outcomes_linearize:
  assumes "health_step\<^sup>*\<^sup>* health_start s" and "hn_inflight s = []"
  shows "hn_counters s = fold (\<lambda>(err, key) c. fst (recordRunOutcome err key c)) (hn_settled s)
    \<lparr>hc_totalRuns = 0, hc_consecutiveFailures = 0\<rparr>"
proof -
  have "(\<lambda>(err, key) c. fst (recordRunOutcome err key c)) = (\<lambda>oc c. fst (recordRunOutcome (fst oc) [] c))"
    by (auto simp: recordRunOutcome_def Let_def fun_eq_iff split: option.split)
  then have "fold (\<lambda>(err, key) c. fst (recordRunOutcome err key c)) (hn_settled s) c0
      = fold (\<lambda>e c. fst (recordRunOutcome e [] c)) (settled_errors s) c0" for c0
    by (simp add: fold_map comp_def)
  moreover have "hn_counters s = after_runs (settled_errors s)"
    using counters_inv_reachable [OF assms(1)] assms(2) counters_after_runs [of "settled_errors s"]
    by (simp add: counters_inv_def)
  ultimately show ?thesis by (simp add: after_runs_def)
qed

text \<open>A concrete execution: a run is counted between the two loads of a report, and fails with a health error.\<close>

definition outcome1 :: outcome where
  "outcome1 = (Some (HealthError ''api_key_invalid'' ''401''), ''k1'')"

definition race1 :: "nat \<Rightarrow> health_run" where
  "race1 k =
     (let s1 = health_start\<lparr>hn_reporter := Loaded 0 0\<rparr>;
          s2 = count_run outcome1 s1;
          s3 = settle_run 0 s2;
          s4 = load_runs 0 0 s3;
          s5 = s4\<lparr>hn_goroutines := remove_nth 0 (hn_goroutines s4), hn_written := hn_written s4 @ [hn_goroutines s4 ! 0]\<rparr>;
          s6 = s5\<lparr>hn_reporter := Waiting, hn_written := hn_written s5 @ [(healthy_report, [])]\<rparr>
      in if k = 0 then s3 else if k = 1 then s4 else s6)"

lemmas race1_simps = race1_def Let_def health_start_def count_run_def settle_run_def load_runs_def outcome1_def
  outcome_report_def remove_nth_def gatherHealth_def healthy_report_def

lemma race1_steps:
  "health_step\<^sup>*\<^sup>* health_start (race1 0)" "health_step (race1 0) (race1 1)" "health_step\<^sup>*\<^sup>* (race1 1) (race1 2)"
proof -
  let ?s1 = "health_start\<lparr>hn_reporter := Loaded 0 0\<rparr>"
  have "health_step health_start ?s1"
    using load_failures [of health_start] by (simp add: health_start_def)
  moreover have "health_step ?s1 (count_run outcome1 ?s1)" by (rule count)
  moreover have "health_step (count_run outcome1 ?s1) (race1 0)"
    unfolding race1_def Let_def using settle [of 0 "count_run outcome1 ?s1"] by (simp add: count_run_def)
  ultimately show "health_step\<^sup>*\<^sup>* health_start (race1 0)" by (meson converse_rtranclp_into_rtranclp r_into_rtranclp)
  show "health_step (race1 0) (race1 1)"
    unfolding race1_def Let_def using load_total [of "race1 0" 0 0] by (simp add: race1_simps)
  let ?s5 = "(race1 1)\<lparr>hn_goroutines := remove_nth 0 (hn_goroutines (race1 1)), hn_written := hn_written (race1 1) @ [hn_goroutines (race1 1) ! 0]\<rparr>"
  have "health_step (race1 1) ?s5" by (rule write_background) (simp add: race1_simps)
  moreover have "health_step ?s5 (race1 2)"
    using write_passive [of ?s5 healthy_report] by (simp add: race1_simps)
  ultimately show "health_step\<^sup>*\<^sup>* (race1 1) (race1 2)" by (meson converse_rtranclp_into_rtranclp r_into_rtranclp)
qed

lemma race1_reachable: "health_step\<^sup>*\<^sup>* health_start (race1 1)" "health_step\<^sup>*\<^sup>* health_start (race1 2)"
  using race1_steps by (meson rtranclp.rtrancl_into_rtrancl rtranclp_trans)+

theorem concurrent_outcomes_linearize_witness:
  "hn_counters (race1 0) = fst (recordRunOutcome (fst outcome1) (snd outcome1) \<lparr>hc_totalRuns = 0, hc_consecutiveFailures = 0\<rparr>)"
  using concurrent_outcomes_linearize [OF race1_steps(1)] by (simp add: race1_simps recordRunOutcome_def)

text \<open>
  C31: a passive report made while jobs record their outcomes is the report of the moment at which it loaded
  the failures; only a report that loaded them before the first outcome was settled may be healthy instead
  of unknown. (Fewer than 2^32 runs.)
\<close>

theorem passive_report_of_moment:
  assumes "health_step\<^sup>*\<^sup>* health_start s" and "length (hn_settled s) + length (hn_inflight s) < 2 ^ 32"
    and "(n, r) \<in> set (hn_passive s)"
  shows "n \<le> length (hn_settled s)
    \<and> (r = gatherHealth None (after_runs (map fst (take n (hn_settled s)))) \<or> n = 0 \<and> hr_Status r = ''healthy'')"
  using passive_inv_reachable [OF assms(1)] assms(2,3) by (fastforce simp: passive_inv_def report_ok_def healthy_report_def)

theorem passive_report_of_moment_witness:
  "\<exists>r. hn_passive (race1 1) = [(0, r)]
     \<and> (r = gatherHealth None (after_runs []) \<or> hr_Status r = ''healthy'')"
proof -
  have s: "length (hn_settled (race1 1)) + length (hn_inflight (race1 1)) < 2 ^ 32" by (simp add: race1_simps)
  obtain r where r: "hn_passive (race1 1) = [(0, r)]" by (simp add: race1_simps)
  then show ?thesis using passive_report_of_moment [OF race1_reachable(1) s, of 0 r] by simp
qed

text \<open>The exception does happen: the only run so far has failed, and the report of the worker is healthy.\<close>

lemma healthy_report_without_success:
  "\<exists>s. health_step\<^sup>*\<^sup>* health_start s \<and> (\<forall>oc \<in> set (hn_settled s). fst oc \<noteq> None)
     \<and> hn_passive s = [(0, healthy_report)]"
  using race1_reachable(1) by (intro exI [of _ "race1 1"]) (simp add: race1_simps)

text \<open>
  C30: when the reporting loop waits and all background writers are done, the row of the tool counts one
  failure for each passive report that was bad and one for each run that ended with a health error,
  whatever the order in which they were written: no report is lost or written twice. Of the database it is only
  assumed that it reads the text of an empty object as one.
\<close>

theorem concurrent_reports_counted:
  assumes "health_step\<^sup>*\<^sup>* health_start s" and "hn_reporter s = Waiting" and "hn_goroutines s = []"
    and "pg_jsonb env ''{}'' = Some []" and "tool \<notin> mh_tool ` set (db_health d)"
    and "written_row env tool d s = Some row"
  shows "mh_failures row = int (length (filter (\<lambda>nr. bad_status (hr_Status (snd nr))) (hn_passive s))
    + length (filter (\<lambda>oc. outcome_report oc \<noteq> []) (hn_settled s)))"
proof -
  let ?ws = "map (Pair env) (hn_written s)"
  have "mset (hn_written s) = made_reports s"
    using written_reachable [OF assms(1)] assms(2,3) by (simp add: unwritten_def)
  then have "bad_reports ?ws = size (filter_mset ends_bad (made_reports s))" by (simp add: bad_reports_mset)
  also have "\<dots> = length (filter (\<lambda>nr. bad_status (hr_Status (snd nr))) (hn_passive s))
      + length (filter (\<lambda>oc. outcome_report oc \<noteq> []) (hn_settled s))"
    unfolding made_reports_def filter_union_mset size_union outcome_reports_bad size_outcome_reports
    by (simp add: filter_mset_image_mset flip: mset_filter)
  finally have count: "bad_reports ?ws = \<dots>" .
  have "\<forall>(env, r, k) \<in> set ?ws. pg_jsonb env (extra_json r) \<noteq> None"
    using written_extra [OF assms(1)] assms(4) by auto
  from row_after_reports [OF this assms(5)] show ?thesis
    using assms(6) count by (auto simp: written_row_def row_counts_def)
qed

theorem concurrent_reports_counted_witness:
  "\<exists>row. written_row pg1 ''t'' empty_db (race1 2) = Some row \<and> mh_failures row = 1"
proof -
  have "snd (after_reports ''t'' ws empty_db) = [] \<and> (case lookup mh_tool (db_health (fst (after_reports ''t'' ws empty_db))) ''t'' of
      None \<Rightarrow> ws = [] | Some row \<Rightarrow> ws \<noteq> [] \<and> row_counts ws row)" if "ws = map (Pair pg1) (hn_written (race1 2))" for ws
    by (rule row_after_reports) (auto simp: that pg1_def empty_db_def written_extra [OF race1_reachable(2)])
  then obtain row where row: "written_row pg1 ''t'' empty_db (race1 2) = Some row"
    by (auto simp: written_row_def race1_simps split: option.splits)
  have "hn_reporter (race1 2) = Waiting" "hn_goroutines (race1 2) = []"
    "hn_passive (race1 2) = [(0, healthy_report)]" "filter (\<lambda>oc. outcome_report oc \<noteq> []) (hn_settled (race1 2)) = [outcome1]"
    by (simp_all add: race1_simps)
  with concurrent_reports_counted [OF race1_reachable(2) _ _ _ _ row] row show ?thesis
    by (simp add: pg1_def empty_db_def healthy_report_def bad_status_def)
qed

end
