(* ===== verification/Shared_Assets.thy ===== *)
theory Shared_Assets
  imports River_Adapter
begin

text \<open>
  The assets of a database that many workers write at the same time. Postgres runs each statement of the
  adapter atomically, but the statements of different jobs interleave, so the unit here is the statement: a
  step is any one of those that touch assets, or a change elsewhere. Shown: handling a job is a sequence
  of such steps, and no sequence of them, of whichever workers and with whatever faults, loses an asset: the
  row keeps its identity, id, state and parent, and its attributes keep their keys.
\<close>

section \<open>Statements as steps\<close>

definition merge_stmt :: "pg \<Rightarrow> uuid \<Rightarrow> string \<Rightarrow> db \<Rightarrow> db option" where
  "merge_stmt env assetID deltaJSON d =
     (case pg_jsonb env deltaJSON of
        None \<Rightarrow> None
      | Some j \<Rightarrow> Some (d\<lparr>db_assets := update_where (\<lambda>r. ar_id r = assetID)
          (\<lambda>r. r\<lparr>ar_attrs := jsonb_concat (ar_attrs r) j,
                 ar_last_seen := pg_now env,
                 ar_fingerprint := Some (pg_digest env (jsonb_concat (ar_attrs r) j))\<rparr>)
          (db_assets d)\<rparr>))"

definition parent_stmt :: "uuid \<Rightarrow> uuid \<Rightarrow> db \<Rightarrow> db option" where
  "parent_stmt childID parentID d =
     Some (d\<lparr>db_assets := update_where (\<lambda>r. ar_id r = childID \<and> ar_parent r = None)
       (\<lambda>r. r\<lparr>ar_parent := Some parentID\<rparr>) (db_assets d)\<rparr>)"

inductive stmt_step :: "db \<Rightarrow> db \<Rightarrow> bool" where
  upserts: "upsert_stmt env args d = Some d' \<Longrightarrow> stmt_step d d'"
| merges: "merge_stmt env i delta d = Some d' \<Longrightarrow> stmt_step d d'"
| sets_parent: "parent_stmt c p d = Some d' \<Longrightarrow> stmt_step d d'"
| elsewhere: "db_assets d' = db_assets d \<Longrightarrow> stmt_step d d'"

lemma pgexec_steps:
  assumes "pgexec stmt (d, fs) = (r, d', fs')" and "\<And>d'. stmt d = Some d' \<Longrightarrow> stmt_step d d'"
  shows "stmt_step\<^sup>*\<^sup>* d d'"
  using pgexec_cases [OF assms(1)] assms(2) by auto

section \<open>A job is a sequence of statements\<close>

named_theorems job_steps \<open>operations of the adapter as sequences of statements\<close>

lemma MergeUpdate_steps [job_steps]: "MergeUpdate env i delta (d, fs) = (r, d', fs') \<Longrightarrow> stmt_step\<^sup>*\<^sup>* d d'"
  unfolding MergeUpdate_def merge_stmt_def [symmetric]
  by (auto simp del: marshal.simps split: option.splits if_splits intro: pgexec_steps merges)

lemma SetParentChain_steps [job_steps]: "SetParentChain c p (d, fs) = (r, d', fs') \<Longrightarrow> stmt_step\<^sup>*\<^sup>* d d'"
  unfolding SetParentChain_def parent_stmt_def [symmetric] by (auto intro: pgexec_steps sets_parent)

lemma UpsertAsset_steps [job_steps]: "UpsertAsset env scope parent a (d, fs) = (r, d', fs') \<Longrightarrow> stmt_step\<^sup>*\<^sup>* d d'"
  by (auto simp: UpsertAsset_def Let_def simp del: marshal.simps split: option.splits if_splits intro: pgexec_steps upserts)

lemma upsertChunk_steps:
  "upsertChunk env parse scope parent as (d, fs) = Some (r, d', fs') \<Longrightarrow> stmt_step\<^sup>*\<^sup>* d d'"
  by (auto simp: upsertChunk_def split: option.splits sum.splits intro: pgexec_steps upserts)

lemma batch_loop_steps:
  "batch_loop env parse scope parent as (d, fs) = Some (r, d', fs') \<Longrightarrow> stmt_step\<^sup>*\<^sup>* d d'"
proof (induction "length as" arbitrary: as d fs rule: less_induct)
  case less
  show ?case
  proof (cases "as = []")
    case True
    with less.prems show ?thesis by (simp add: batch_loop.simps)
  next
    case False
    then obtain e d1 fs1 where c: "upsertChunk env parse scope parent (take 500 as) (d, fs) = Some (e, d1, fs1)"
      using less.prems by (subst (asm) batch_loop.simps) (auto split: option.splits)
    have "stmt_step\<^sup>*\<^sup>* d1 d'"
      using less.prems less.hyps [of "drop 500 as" d1 fs1] False c
      by (subst (asm) batch_loop.simps) (auto split: option.splits)
    with upsertChunk_steps [OF c] show ?thesis by simp
  qed
qed

lemma persist_steps:
  assumes "persist env parse args res (d, fs) = Some (r, d', fs')"
  shows "stmt_step\<^sup>*\<^sup>* d d'"
proof -
  obtain e d1 fs1 where m: "persist_merge env args res (d, fs) = (e, d1, fs1)" by (rule prod_cases3)
  then have 1: "stmt_step\<^sup>*\<^sup>* d d1" by (auto simp: persist_merge_def intro: job_steps split: if_splits)
  have "stmt_step\<^sup>*\<^sup>* d1 d'"
    using assms m batch_loop_steps
    by (auto simp: persist_def persist_assets_def UpsertAssetsBatch_def split: option.splits if_splits)
  with 1 show ?thesis by simp
qed

lemma store_result_steps: "stmt_step\<^sup>*\<^sup>* (fst (ws_db s)) (fst (ws_db (snd (store_result env parse w args jb res s))))"
proof -
  obtain d fs where s: "ws_db s = (d, fs)" by (rule prod.exhaust)
  show ?thesis
  proof (cases "persist env parse args res (d, fs)")
    case (Some x)
    then obtain r d1 fs1 where p: "persist env parse args res (d, fs) = Some (r, d1, fs1)" by (cases x) auto
    have "stmt_step d1 (fst (snd (persistSecretFeedback env True (jb_APIKeyID jb) (re_SecretFeedback res) (d1, fs1))))"
      by (rule elsewhere) (rule feedback_assets)
    with persist_steps [OF p] show ?thesis by (auto simp: store_result_def s p split: option.split)
  qed (simp add: store_result_def s)
qed

lemma Work_steps: "stmt_step\<^sup>*\<^sup>* (fst (ws_db s)) (fst (ws_db (snd (Work env parse run w deadline j s))))"
proof -
  have m: "stmt_step\<^sup>*\<^sup>* d (fst (ws_db (snd (with_metrics call rest s1))))"
    if "\<And>s2. ws_db s2 = ws_db s1 \<Longrightarrow> stmt_step\<^sup>*\<^sup>* d (fst (ws_db (snd (rest s2))))" and "stmt_step\<^sup>*\<^sup>* d (fst (ws_db s1))"
    for d call rest and s1 :: work_state
    using that by (auto simp: with_metrics_def split: prod.split bool.split)
  have r: "ws_db (record_outcome w err key s1) = ws_db s1" for err key s1
    by (simp add: record_outcome_def Let_def split: option.split)
  have st: "stmt_step\<^sup>*\<^sup>* d (fst (ws_db (snd (store_result env parse w args jb res s2))))" if "fst (ws_db s2) = d" for d args jb res s2
    using store_result_steps that by blast
  obtain x d fs where f: "FetchAsset (ca_AssetID (rj_Args j)) (ws_db s) = (x, d, fs)" by (rule prod_cases3)
  have d: "d = fst (ws_db s)" using f by (auto simp: FetchAsset_def pgquery_def split: list.splits option.splits)
  show ?thesis
    unfolding Work_def Let_def f d
    by (auto simp: r intro!: m st split: sum.split option.split)
qed

section \<open>Assets are kept\<close>

definition row_kept :: "asset_row \<Rightarrow> asset_row \<Rightarrow> bool" where
  "row_kept r r' \<longleftrightarrow> asset_key r' = asset_key r \<and> ar_id r' = ar_id r \<and> ar_state r' = ar_state r
     \<and> (ar_parent r \<noteq> None \<longrightarrow> ar_parent r' = ar_parent r) \<and> fst ` set (ar_attrs r) \<subseteq> fst ` set (ar_attrs r')"

definition rows_kept :: "asset_row list \<Rightarrow> asset_row list \<Rightarrow> bool" where
  "rows_kept t t' \<longleftrightarrow> (\<forall>r \<in> set t. \<exists>r' \<in> set t'. row_kept r r')"

lemma row_kept_refl [simp]: "row_kept r r"
  by (simp add: row_kept_def)

lemma row_kept_trans: "row_kept r r' \<Longrightarrow> row_kept r' r'' \<Longrightarrow> row_kept r r''"
  by (auto simp: row_kept_def)

lemma rows_kept_trans: "rows_kept t t' \<Longrightarrow> rows_kept t' t'' \<Longrightarrow> rows_kept t t''"
  unfolding rows_kept_def by (meson row_kept_trans)

lemma rows_kept_subset: "set t \<subseteq> set t' \<Longrightarrow> rows_kept t t'"
  unfolding rows_kept_def using row_kept_refl by blast

lemma rows_kept_update:
  assumes "\<And>r. p r \<Longrightarrow> row_kept r (f r)"
  shows "rows_kept t (update_where p f t)"
  unfolding rows_kept_def
proof
  fix r assume "r \<in> set t"
  then have "(if p r then f r else r) \<in> set (update_where p f t)" by (simp add: update_where_def)
  moreover have "row_kept r (if p r then f r else r)" using assms by simp
  ultimately show "\<exists>r' \<in> set (update_where p f t). row_kept r r'" by blast
qed

lemma keys_concat: "fst ` set (jsonb_concat a b) = fst ` set a \<union> fst ` set b"
  by (induction b arbitrary: a) (auto simp: jsonb_concat_def)

lemma row_kept_merge: "row_kept r (asset_merge now r new)"
  by (simp add: row_kept_def asset_merge_def asset_key_def keys_concat)

lemma rows_kept_merge: "rows_kept t (update_where p (\<lambda>r. asset_merge now r new) t)"
  by (rule rows_kept_update) (rule row_kept_merge)

lemma upsert_rows_kept:
  "upsert_rows asset_key (asset_merge now) guard news st = Some st' \<Longrightarrow> rows_kept (fst st) (fst st')"
proof (induction news arbitrary: st)
  case Nil
  then show ?case by (simp add: rows_kept_subset)
next
  case (Cons new news)
  then obtain st1 where 1: "upsert_row asset_key (asset_merge now) guard new st = Some st1"
    and rest: "upsert_rows asset_key (asset_merge now) guard news st1 = Some st'" by (auto split: option.splits)
  have "rows_kept (fst st) (fst st1)"
    using 1 by (auto simp: upsert_row_def intro: rows_kept_subset rows_kept_merge split: option.splits if_splits)
  with Cons.IH [OF rest] show ?case by (rule rows_kept_trans [rotated])
qed

lemma stmt_step_keeps: "stmt_step d d' \<Longrightarrow> rows_kept (db_assets d) (db_assets d')"
proof (induction rule: stmt_step.induct)
  case (upserts env args d d')
  then obtain rows ks where "upsert_rows asset_key (asset_merge (pg_now env)) (asset_guard (pg_now env)) rows (db_assets d, []) = Some (db_assets d', ks)"
    by (auto simp: upsert_stmt_def insert_on_conflict_def split: option.splits)
  from upsert_rows_kept [OF this] show ?case by simp
next
  case (merges env i delta d d')
  then show ?case
    by (auto simp: merge_stmt_def row_kept_def asset_key_def keys_concat intro!: rows_kept_update split: option.splits)
next
  case (sets_parent c p d d')
  then show ?case by (auto simp: parent_stmt_def row_kept_def asset_key_def intro!: rows_kept_update)
qed (simp add: rows_kept_subset)

lemma steps_keep: "stmt_step\<^sup>*\<^sup>* d d' \<Longrightarrow> rows_kept (db_assets d) (db_assets d')"
proof (induction rule: rtranclp_induct)
  case (step d1 d2)
  then show ?case using stmt_step_keeps rows_kept_trans by blast
qed (simp add: rows_kept_subset)

section \<open>Properties\<close>

text \<open>
  C24: whatever jobs of whichever workers handle afterwards, statement by statement in any interleaving and under
  any faults, every asset that was stored stays stored with its identity, id, state and parent, and its
  attributes keep their keys; and a job that is handled at once, in the midst of such an interleaving,
  continues it.
\<close>

theorem stored_assets_stay:
  assumes "stmt_step\<^sup>*\<^sup>* d (fst (ws_db s))" and "r \<in> set (db_assets d)"
  shows "\<exists>r' \<in> set (db_assets (fst (ws_db (snd (Work env parse run w deadline j s))))).
    asset_key r' = asset_key r \<and> ar_id r' = ar_id r \<and> ar_state r' = ar_state r
    \<and> (ar_parent r \<noteq> None \<longrightarrow> ar_parent r' = ar_parent r) \<and> fst ` set (ar_attrs r) \<subseteq> fst ` set (ar_attrs r')"
proof -
  have "stmt_step\<^sup>*\<^sup>* d (fst (ws_db (snd (Work env parse run w deadline j s))))"
    using assms(1) Work_steps by (rule rtranclp_trans)
  from steps_keep [OF this] assms(2) show ?thesis by (auto simp: rows_kept_def row_kept_def)
qed

theorem stored_assets_stay_witness:
  "\<exists>r \<in> set (db_assets (fst (ws_db (snd (Work pg0 (\<lambda>_. None) (\<lambda>_. Inr (result0 [asset0 ''x''])) worker0 None job0 state0))))).
     ar_id r = ''a'' \<and> asset_key r = (''s'', ''host'', ''h'')"
proof -
  have "row0 \<in> set (db_assets (fst (ws_db state0)))" by (simp add: state0_def)
  from stored_assets_stay [OF rtranclp.rtrancl_refl this, of pg0 "\<lambda>_. None" "\<lambda>_. Inr (result0 [asset0 ''x''])" worker0 None job0]
  show ?thesis by (simp add: row0_def asset_key_def) blast
qed

end
