(* ===== verification/Harness_Fakes.thy ===== *)
theory Harness_Fakes
  imports Json_Value "HOL-Library.Word" "HOL-Library.Signed_Division"
begin

text \<open>
  The fakes of the test harness (testing/wtest/runtime.go, testing/wtest/http.go): the canned resolver, the
  in-memory cache with its slices as references, the mock upstream server and the handlers it is given.
  A handler is what it calls on its \<open>http.ResponseWriter\<close>. Shown: the resolver and the server answer with
  what was registered last and log every call; the cache is isolated from the slices that are stored, but
  not from the slices it returns; a sequence of handlers repeats in order.
\<close>

section \<open>Registries\<close>

text \<open>
  What the resolver, the server and other stubs promise: reading a key gives what the latest operation on
  that key has written. Operations that write nothing, such as lookups, may come between.
\<close>

definition latest :: "('op \<Rightarrow> ('k \<times> 'v) option) \<Rightarrow> 'op list \<Rightarrow> 'k \<Rightarrow> 'v option" where
  "latest writes ops k = map_of (rev (List.map_filter writes ops)) k"

lemma latest_Nil [simp]: "latest writes [] k = None"
  by (simp add: latest_def List.map_filter_def)

lemma latest_snoc:
  "latest writes (ops @ [op]) k =
     (case writes op of None \<Rightarrow> latest writes ops k | Some (k', v) \<Rightarrow> if k = k' then Some v else latest writes ops k)"
  by (auto simp: latest_def List.map_filter_def split: option.split)

locale registry =
  fixes apply_op :: "'op \<Rightarrow> 's \<Rightarrow> 's" and reads :: "'s \<Rightarrow> 'k \<Rightarrow> 'v option" and writes :: "'op \<Rightarrow> ('k \<times> 'v) option"
  assumes reads_apply: "reads (apply_op op s) k =
    (case writes op of None \<Rightarrow> reads s k | Some (k', v) \<Rightarrow> if k = k' then Some v else reads s k)"
begin

lemma reads_latest:
  "reads (fold apply_op ops s) k = (case latest writes ops k of None \<Rightarrow> reads s k | Some v \<Rightarrow> Some v)"
  by (induction ops rule: rev_induct) (auto simp: latest_snoc reads_apply split: option.splits)

end

section \<open>The canned resolver\<close>

text \<open>A nil slice is \<open>None\<close>.\<close>

record fake_dns =
  fd_a :: "(string \<times> string list option) list"
  fd_aaaa :: "(string \<times> string list option) list"
  fd_cname :: "(string \<times> string) list"
  fd_calls :: "(string \<times> nat) list"

definition NewFakeDNS :: fake_dns where
  "NewFakeDNS = \<lparr>fd_a = [], fd_aaaa = [], fd_cname = [], fd_calls = []\<rparr>"

definition SetA :: "string \<Rightarrow> string list option \<Rightarrow> fake_dns \<Rightarrow> fake_dns" where
  "SetA host ips f = f\<lparr>fd_a := map_put (fd_a f) host ips\<rparr>"

definition SetAAAA :: "string \<Rightarrow> string list option \<Rightarrow> fake_dns \<Rightarrow> fake_dns" where
  "SetAAAA host ips f = f\<lparr>fd_aaaa := map_put (fd_aaaa f) host ips\<rparr>"

definition SetCNAME :: "string \<Rightarrow> string \<Rightarrow> fake_dns \<Rightarrow> fake_dns" where
  "SetCNAME host cname f = f\<lparr>fd_cname := map_put (fd_cname f) host cname\<rparr>"

definition fake_CallCount :: "fake_dns \<Rightarrow> string \<Rightarrow> nat" where
  "fake_CallCount f host = (case map_of (fd_calls f) host of None \<Rightarrow> 0 | Some n \<Rightarrow> n)"

definition count_call :: "string \<Rightarrow> fake_dns \<Rightarrow> fake_dns" where
  "count_call host f = f\<lparr>fd_calls := map_put (fd_calls f) host (fake_CallCount f host + 1)\<rparr>"

definition LookupA :: "string \<Rightarrow> fake_dns \<Rightarrow> string list option \<times> fake_dns" where
  "LookupA host f = (case map_of (fd_a f) host of None \<Rightarrow> None | Some out \<Rightarrow> out, count_call host f)"

definition LookupAAAA :: "string \<Rightarrow> fake_dns \<Rightarrow> string list option \<times> fake_dns" where
  "LookupAAAA host f = (case map_of (fd_aaaa f) host of None \<Rightarrow> None | Some out \<Rightarrow> out, count_call host f)"

definition fake_LookupCNAME :: "string \<Rightarrow> fake_dns \<Rightarrow> string \<times> fake_dns" where
  "fake_LookupCNAME host f = (case map_of (fd_cname f) host of None \<Rightarrow> [] | Some c \<Rightarrow> c, count_call host f)"

datatype fake_op =
    OpSetA string "string list option" | OpSetAAAA string "string list option" | OpSetCNAME string string
  | OpLookupA string | OpLookupAAAA string | OpLookupCNAME string

fun fake_step :: "fake_op \<Rightarrow> fake_dns \<Rightarrow> fake_dns" where
  "fake_step (OpSetA h ips) f = SetA h ips f"
| "fake_step (OpSetAAAA h ips) f = SetAAAA h ips f"
| "fake_step (OpSetCNAME h c) f = SetCNAME h c f"
| "fake_step (OpLookupA h) f = snd (LookupA h f)"
| "fake_step (OpLookupAAAA h) f = snd (LookupAAAA h f)"
| "fake_step (OpLookupCNAME h) f = snd (fake_LookupCNAME h f)"

fun sets_a :: "fake_op \<Rightarrow> (string \<times> string list option) option" where
  "sets_a (OpSetA h ips) = Some (h, ips)" | "sets_a _ = None"

fun sets_aaaa :: "fake_op \<Rightarrow> (string \<times> string list option) option" where
  "sets_aaaa (OpSetAAAA h ips) = Some (h, ips)" | "sets_aaaa _ = None"

fun sets_cname :: "fake_op \<Rightarrow> (string \<times> string) option" where
  "sets_cname (OpSetCNAME h c) = Some (h, c)" | "sets_cname _ = None"

fun looks_up :: "string \<Rightarrow> fake_op \<Rightarrow> bool" where
  "looks_up host (OpLookupA h) = (h = host)" | "looks_up host (OpLookupAAAA h) = (h = host)"
| "looks_up host (OpLookupCNAME h) = (h = host)" | "looks_up host _ = False"

lemmas fake_defs = SetA_def SetAAAA_def SetCNAME_def LookupA_def LookupAAAA_def fake_LookupCNAME_def count_call_def

interpretation fake_a: registry fake_step "\<lambda>f. map_of (fd_a f)" sets_a
proof
  fix op s k
  show "map_of (fd_a (fake_step op s)) k = (case sets_a op of None \<Rightarrow> map_of (fd_a s) k
      | Some (k', v) \<Rightarrow> if k = k' then Some v else map_of (fd_a s) k)" by (cases op) (simp_all add: fake_defs)
qed

interpretation fake_aaaa: registry fake_step "\<lambda>f. map_of (fd_aaaa f)" sets_aaaa
proof
  fix op s k
  show "map_of (fd_aaaa (fake_step op s)) k = (case sets_aaaa op of None \<Rightarrow> map_of (fd_aaaa s) k
      | Some (k', v) \<Rightarrow> if k = k' then Some v else map_of (fd_aaaa s) k)" by (cases op) (simp_all add: fake_defs)
qed

interpretation fake_cname: registry fake_step "\<lambda>f. map_of (fd_cname f)" sets_cname
proof
  fix op s k
  show "map_of (fd_cname (fake_step op s)) k = (case sets_cname op of None \<Rightarrow> map_of (fd_cname s) k
      | Some (k', v) \<Rightarrow> if k = k' then Some v else map_of (fd_cname s) k)" by (cases op) (simp_all add: fake_defs)
qed

lemma fake_calls: "fake_CallCount (fold fake_step ops f) host = fake_CallCount f host + length (filter (looks_up host) ops)"
proof (induction ops arbitrary: f)
  case (Cons op ops)
  then show ?case by (cases op) (simp_all add: fake_defs fake_CallCount_def split: option.split)
qed simp

section \<open>The in-memory cache\<close>

text \<open>
  Slices of bytes are references to cells, of the test or of the cache. \<open>Upsert\<close> copies its argument to a new
  cell; \<open>Lookup\<close> returns the cell that is stored.
\<close>

record fake_cache =
  fk_cells :: "nat \<Rightarrow> string"
  fk_next :: nat
  fk_store :: "(string \<times> nat) list"
  fk_hits :: nat
  fk_miss :: nat

definition fake_Lookup :: "string \<Rightarrow> fake_cache \<Rightarrow> nat option \<times> fake_cache" where
  "fake_Lookup key f =
     (case map_of (fk_store f) key of
        Some a \<Rightarrow> (Some a, f\<lparr>fk_hits := fk_hits f + 1\<rparr>)
      | None \<Rightarrow> (None, f\<lparr>fk_miss := fk_miss f + 1\<rparr>))"

definition fake_Upsert :: "string \<Rightarrow> nat \<Rightarrow> fake_cache \<Rightarrow> fake_cache" where
  "fake_Upsert key v f =
     f\<lparr>fk_cells := (fk_cells f)(fk_next f := fk_cells f v), fk_next := Suc (fk_next f),
       fk_store := map_put (fk_store f) key (fk_next f)\<rparr>"

definition fake_Stats :: "fake_cache \<Rightarrow> nat \<times> nat \<times> nat" where
  "fake_Stats f = (fk_hits f, fk_miss f, length (fk_store f))"

text \<open>What a test does: operations of the cache, new slices, and writes to slices it holds.\<close>

datatype cache_op = CLookup string | CUpsert string nat | CNew string | CWrite nat string

fun cache_step :: "cache_op \<Rightarrow> fake_cache \<Rightarrow> fake_cache" where
  "cache_step (CLookup key) f = snd (fake_Lookup key f)"
| "cache_step (CUpsert key v) f = fake_Upsert key v f"
| "cache_step (CNew bs) f = f\<lparr>fk_cells := (fk_cells f)(fk_next f := bs), fk_next := Suc (fk_next f)\<rparr>"
| "cache_step (CWrite a bs) f = f\<lparr>fk_cells := (fk_cells f)(a := bs)\<rparr>"

definition NewFakeCache :: "(nat \<Rightarrow> string) \<Rightarrow> nat \<Rightarrow> fake_cache" where
  "NewFakeCache cells n = \<lparr>fk_cells = cells, fk_next = n, fk_store = [], fk_hits = 0, fk_miss = 0\<rparr>"

definition cached_bytes :: "fake_cache \<Rightarrow> string \<Rightarrow> string option" where
  "cached_bytes f key = map_option (fk_cells f) (map_of (fk_store f) key)"

text \<open>No operation writes to a slice that the cache holds, which a test only gets from \<open>Lookup\<close>.\<close>

fun foreign_writes :: "cache_op list \<Rightarrow> fake_cache \<Rightarrow> bool" where
  "foreign_writes [] f = True"
| "foreign_writes (op # ops) f =
     ((case op of CWrite a bs \<Rightarrow> a \<notin> snd ` set (fk_store f) \<and> a < fk_next f | _ \<Rightarrow> True) \<and> foreign_writes ops (cache_step op f))"

text \<open>The bytes a key had when it was stored last.\<close>

fun stored_last :: "cache_op list \<Rightarrow> fake_cache \<Rightarrow> (string \<Rightarrow> string option) \<Rightarrow> string \<Rightarrow> string option" where
  "stored_last [] f m = m"
| "stored_last (op # ops) f m =
     stored_last ops (cache_step op f) (case op of CUpsert key v \<Rightarrow> m(key \<mapsto> fk_cells f v) | _ \<Rightarrow> m)"

definition cache_wf :: "fake_cache \<Rightarrow> bool" where
  "cache_wf f \<longleftrightarrow> go_map (fk_store f) \<and> (\<forall>a \<in> snd ` set (fk_store f). a < fk_next f)"

lemma map_put_values: "snd ` set (map_put m k v) \<subseteq> insert v (snd ` set m)"
  by (induction m k v rule: map_put.induct) auto

lemma cache_wf_step: "cache_wf f \<Longrightarrow> cache_wf (cache_step op f)"
  using map_put_values by (cases op) (fastforce simp: cache_wf_def fake_Lookup_def fake_Upsert_def split: option.split)+

lemma cached_step:
  assumes "cache_wf f" and "case op of CWrite a bs \<Rightarrow> a \<notin> snd ` set (fk_store f) | _ \<Rightarrow> True"
  shows "cached_bytes (cache_step op f) = (case op of CUpsert key v \<Rightarrow> (cached_bytes f)(key \<mapsto> fk_cells f v) | _ \<Rightarrow> cached_bytes f)"
proof -
  have held: "a \<in> snd ` set (fk_store f)" if "map_of (fk_store f) key = Some a" for key a
    using map_of_SomeD [OF that] by force
  then have "a < fk_next f" if "map_of (fk_store f) key = Some a" for key a using that assms(1) by (auto simp: cache_wf_def)
  with held show ?thesis
    using assms(2) by (cases op) (fastforce simp: fun_eq_iff cached_bytes_def fake_Lookup_def fake_Upsert_def map_option_case split: option.split)+
qed

lemma cache_run:
  assumes "cache_wf f" and "foreign_writes ops f"
  shows "cached_bytes (fold cache_step ops f) = stored_last ops f (cached_bytes f)"
  using assms
proof (induction ops arbitrary: f)
  case (Cons op ops)
  then show ?case using cache_wf_step [of f op] cached_step [of f op] by (auto split: cache_op.splits)
qed simp

lemma cache_lookups:
  "fk_hits (fold cache_step ops f) + fk_miss (fold cache_step ops f)
     = fk_hits f + fk_miss f + length (filter (\<lambda>op. \<exists>key. op = CLookup key) ops)"
proof (induction ops arbitrary: f)
  case (Cons op ops)
  then show ?case by (cases op) (simp_all add: fake_Lookup_def fake_Upsert_def split: option.split)
qed simp

section \<open>The mock upstream server\<close>

text \<open>What a handler calls on its \<open>http.ResponseWriter\<close>; \<open>http.Error\<close> is one call here.\<close>

datatype writer_call = SetHeader string string | WriteHeader int | WriteBody string | HttpError string int

text \<open>
  A request; its body is nil or the chunks that successive calls of \<open>Read\<close> would deliver.
  A registered handler may be nil.
\<close>

record mock_request =
  mq_Method :: string
  mq_Path :: string
  mq_Query :: string
  mq_Headers :: "(string \<times> string list) list"
  mq_Body :: "string list option"

type_synonym mock_handler = "mock_request \<Rightarrow> writer_call list"

record mock_call =
  mc_Method :: string
  mc_Path :: string
  mc_Query :: string
  mc_Headers :: "(string \<times> string list) list"
  mc_Body :: string

text \<open>Of the underlying \<open>httptest.Server\<close>: whether it was started and closed, and how often its closing was registered for the end of the test.\<close>

record mock_server =
  ms_srv :: bool
  ms_closed :: bool
  ms_cleanups :: nat
  ms_routes :: "(string \<times> mock_handler option) list"
  ms_default :: "mock_handler option"
  ms_calls :: "mock_call list"

definition MockUpstream :: mock_server where
  "MockUpstream = \<lparr>ms_srv = False, ms_closed = False, ms_cleanups = 0, ms_routes = [], ms_default = None, ms_calls = []\<rparr>"

definition route_key :: "string \<Rightarrow> string \<Rightarrow> string" where
  "route_key meth path = meth @ '' '' @ path"

definition mock_On :: "string \<Rightarrow> string \<Rightarrow> mock_handler option \<Rightarrow> mock_server \<Rightarrow> mock_server" where
  "mock_On meth path h m = m\<lparr>ms_routes := map_put (ms_routes m) (route_key meth path) h\<rparr>"

definition OnGET :: "string \<Rightarrow> mock_handler option \<Rightarrow> mock_server \<Rightarrow> mock_server" where
  "OnGET path h m = mock_On ''GET'' path h m"

definition OnPOST :: "string \<Rightarrow> mock_handler option \<Rightarrow> mock_server \<Rightarrow> mock_server" where
  "OnPOST path h m = mock_On ''POST'' path h m"

definition mock_Build :: "mock_server \<Rightarrow> mock_server" where
  "mock_Build m = (if ms_srv m then m else m\<lparr>ms_srv := True, ms_cleanups := Suc (ms_cleanups m)\<rparr>)"

text \<open>The URL is that of the started server, which the argument gives.\<close>

definition mock_URL :: "string \<Rightarrow> mock_server \<Rightarrow> string \<times> mock_server" where
  "mock_URL url m = (url, mock_Build m)"

definition mock_Close :: "mock_server \<Rightarrow> mock_server" where
  "mock_Close m = (if ms_srv m then m\<lparr>ms_closed := True\<rparr> else m)"

definition OnAny :: "mock_handler option \<Rightarrow> mock_server \<Rightarrow> mock_server" where
  "OnAny h m = m\<lparr>ms_default := h\<rparr>"

definition mock_Reset :: "mock_server \<Rightarrow> mock_server" where
  "mock_Reset m = m\<lparr>ms_calls := []\<rparr>"

definition mock_CallCount :: "mock_server \<Rightarrow> nat" where
  "mock_CallCount m = length (ms_calls m)"

text \<open>One \<open>Read\<close> into a buffer of 1 MiB, after which the body is closed: a handler finds it empty.\<close>

definition readBody :: "mock_request \<Rightarrow> string \<times> mock_request" where
  "readBody r =
     (case mq_Body r of
        None \<Rightarrow> ([], r)
      | Some chunks \<Rightarrow> (case chunks of [] \<Rightarrow> [] | c # _ \<Rightarrow> take (2 ^ 20) c, r\<lparr>mq_Body := Some []\<rparr>))"

definition dispatch :: "mock_request \<Rightarrow> mock_server \<Rightarrow> writer_call list \<times> mock_server" where
  "dispatch r m =
     (let (body, r) = readBody r;
          m = m\<lparr>ms_calls := ms_calls m @ [\<lparr>mc_Method = mq_Method r, mc_Path = mq_Path r, mc_Query = mq_Query r,
                mc_Headers = mq_Headers r, mc_Body = body\<rparr>]\<rparr>;
          h = (case map_of (ms_routes m) (route_key (mq_Method r) (mq_Path r)) of Some h \<Rightarrow> h | None \<Rightarrow> ms_default m)
      in (case h of None \<Rightarrow> [HttpError ''404 page not found'' 404] | Some h \<Rightarrow> h r, m))"

section \<open>Handlers\<close>

definition RespondJSON :: "int \<Rightarrow> gval \<Rightarrow> mock_handler" where
  "RespondJSON status body r =
     [SetHeader ''Content-Type'' ''application/json'', WriteHeader status]
     @ (case marshal body of None \<Rightarrow> [] | Some t \<Rightarrow> [WriteBody (t @ [CHR 0x0A])])"

definition RespondStatus :: "int \<Rightarrow> mock_handler" where
  "RespondStatus status r = [WriteHeader status]"

definition RespondString :: "int \<Rightarrow> string \<Rightarrow> mock_handler" where
  "RespondString status body r = WriteHeader status # (if body = [] then [] else [WriteBody body])"

definition RespondError :: "string \<Rightarrow> mock_handler" where
  "RespondError msg r = [HttpError msg 500]"

definition RespondHeader :: "int \<Rightarrow> string \<Rightarrow> string \<Rightarrow> mock_handler" where
  "RespondHeader status key v r = [SetHeader key v, WriteHeader status]"

text \<open>
  The handlers of a sequence, with its counter: a 64-bit \<open>int\<close>, so that an index made from it may
  become negative, which panics (\<open>None\<close>).
\<close>

definition seq_handler :: "mock_handler list \<Rightarrow> 64 word \<Rightarrow> mock_handler option \<times> 64 word" where
  "seq_handler handlers i =
     (if handlers = [] then (Some (RespondStatus 204), i)
      else let j = sint i smod int (length handlers) in
        (if j < 0 then None else Some (handlers ! nat j), i + 1))"

fun seq_answers :: "mock_handler list \<Rightarrow> 64 word \<Rightarrow> mock_request list \<Rightarrow> writer_call list option list" where
  "seq_answers handlers i [] = []"
| "seq_answers handlers i (r # rs) =
     map_option (\<lambda>h. h r) (fst (seq_handler handlers i)) # seq_answers handlers (snd (seq_handler handlers i)) rs"

section \<open>The bundle of fakes\<close>

record harness_runtime =
  hx_HTTP :: mock_server
  hx_DNS :: fake_dns
  hx_Cache :: fake_cache
  hx_cancelled :: bool

definition NewRuntime :: "(nat \<Rightarrow> string) \<Rightarrow> nat \<Rightarrow> harness_runtime" where
  "NewRuntime cells n =
     \<lparr>hx_HTTP = mock_Build MockUpstream, hx_DNS = NewFakeDNS, hx_Cache = NewFakeCache cells n, hx_cancelled = False\<rparr>"

definition harness_Close :: "harness_runtime \<Rightarrow> harness_runtime" where
  "harness_Close r = r\<lparr>hx_cancelled := True, hx_HTTP := mock_Close (hx_HTTP r)\<rparr>"

lemma harness_Close_twice: "harness_Close (harness_Close r) = harness_Close r"
  by (simp add: harness_Close_def mock_Close_def)

text \<open>Asking for the URL any number of times starts one server and registers one cleanup.\<close>

lemma mock_URL_starts_once: "mock_Build (mock_Build m) = mock_Build m"
  by (simp add: mock_Build_def)

section \<open>The server after any history\<close>

datatype mock_event = EvOn string string "mock_handler option" | EvOnAny "mock_handler option" | EvRequest mock_request | EvReset

fun mock_step :: "mock_event \<Rightarrow> mock_server \<Rightarrow> mock_server" where
  "mock_step (EvOn meth path h) m = mock_On meth path h m"
| "mock_step (EvOnAny h) m = OnAny h m"
| "mock_step (EvRequest r) m = snd (dispatch r m)"
| "mock_step EvReset m = mock_Reset m"

fun registers :: "mock_event \<Rightarrow> (string \<times> mock_handler option) option" where
  "registers (EvOn meth path h) = Some (route_key meth path, h)" | "registers _ = None"

fun registers_for :: "mock_event \<Rightarrow> ((string \<times> string) \<times> mock_handler option) option" where
  "registers_for (EvOn meth path h) = Some ((meth, path), h)" | "registers_for _ = None"

fun registers_any :: "mock_event \<Rightarrow> (unit \<times> mock_handler option) option" where
  "registers_any (EvOnAny h) = Some ((), h)" | "registers_any _ = None"

fun requests_since_reset :: "mock_event list \<Rightarrow> mock_request list \<Rightarrow> mock_request list" where
  "requests_since_reset [] rs = rs"
| "requests_since_reset (EvRequest r # es) rs = requests_since_reset es (rs @ [r])"
| "requests_since_reset (EvReset # es) rs = requests_since_reset es []"
| "requests_since_reset (_ # es) rs = requests_since_reset es rs"

definition logged :: "mock_request \<Rightarrow> mock_call" where
  "logged r = \<lparr>mc_Method = mq_Method r, mc_Path = mq_Path r, mc_Query = mq_Query r, mc_Headers = mq_Headers r, mc_Body = fst (readBody r)\<rparr>"

lemma readBody_fields [simp]:
  "mq_Method (snd (readBody r)) = mq_Method r" "mq_Path (snd (readBody r)) = mq_Path r"
  "mq_Query (snd (readBody r)) = mq_Query r" "mq_Headers (snd (readBody r)) = mq_Headers r"
  by (simp_all add: readBody_def split: option.split)

lemma dispatch_state: "snd (dispatch r m) = m\<lparr>ms_calls := ms_calls m @ [logged r]\<rparr>"
  by (simp add: dispatch_def logged_def Let_def case_prod_unfold)

lemma dispatch_answer:
  "fst (dispatch r m) =
     (case (case map_of (ms_routes m) (route_key (mq_Method r) (mq_Path r)) of Some h \<Rightarrow> h | None \<Rightarrow> ms_default m) of
        None \<Rightarrow> [HttpError ''404 page not found'' 404] | Some h \<Rightarrow> h (snd (readBody r)))"
  by (simp add: dispatch_def Let_def case_prod_unfold split: option.split)

interpretation mock_routes: registry mock_step "\<lambda>m. map_of (ms_routes m)" registers
proof
  fix op s k
  show "map_of (ms_routes (mock_step op s)) k = (case registers op of None \<Rightarrow> map_of (ms_routes s) k
      | Some (k', v) \<Rightarrow> if k = k' then Some v else map_of (ms_routes s) k)"
    by (cases op) (simp_all add: mock_On_def OnAny_def mock_Reset_def dispatch_state)
qed

interpretation mock_default: registry mock_step "\<lambda>m _. Some (ms_default m)" registers_any
proof
  fix op s and k :: unit
  show "Some (ms_default (mock_step op s)) = (case registers_any op of None \<Rightarrow> Some (ms_default s)
      | Some (k', v) \<Rightarrow> if k = k' then Some v else Some (ms_default s))"
    by (cases op) (simp_all add: mock_On_def OnAny_def mock_Reset_def dispatch_state)
qed

lemma mock_log: "ms_calls (fold mock_step es m) = map logged (requests_since_reset es rs)" if "ms_calls m = map logged rs"
  using that
proof (induction es arbitrary: m rs)
  case (Cons e es)
  then show ?case by (cases e) (simp_all add: mock_On_def OnAny_def mock_Reset_def dispatch_state)
qed simp

text \<open>A method has no space, so that the key of a route determines its method and path.\<close>

lemma route_key_inject:
  "CHR '' '' \<notin> set a \<Longrightarrow> CHR '' '' \<notin> set b \<Longrightarrow> route_key a p = route_key b q \<longleftrightarrow> a = b \<and> p = q"
proof (induction a arbitrary: b)
  case Nil
  then show ?case by (cases b) (auto simp: route_key_def)
next
  case (Cons c a)
  then show ?case by (cases b) (auto simp: route_key_def)
qed

lemma latest_route:
  assumes "\<forall>e \<in> set es. \<forall>meth path h. e = EvOn meth path h \<longrightarrow> CHR '' '' \<notin> set meth" and "CHR '' '' \<notin> set m"
  shows "latest registers es (route_key m p) = latest registers_for es (m, p)"
  using assms(1)
proof (induction es rule: rev_induct)
  case (snoc e es)
  then show ?case using assms(2) by (cases e) (auto simp: latest_snoc route_key_inject)
qed simp

section \<open>Properties\<close>

text \<open>
  After any sequence of calls the canned resolver answers with what was set last for the host, each record
  type on its own, and its call count is the number of lookups of the host.
\<close>

theorem fake_dns_answers:
  "fst (LookupA host (fold fake_step ops NewFakeDNS)) = (case latest sets_a ops host of None \<Rightarrow> None | Some ips \<Rightarrow> ips)
   \<and> fst (LookupAAAA host (fold fake_step ops NewFakeDNS)) = (case latest sets_aaaa ops host of None \<Rightarrow> None | Some ips \<Rightarrow> ips)
   \<and> fst (fake_LookupCNAME host (fold fake_step ops NewFakeDNS)) = (case latest sets_cname ops host of None \<Rightarrow> [] | Some c \<Rightarrow> c)
   \<and> fake_CallCount (fold fake_step ops NewFakeDNS) host = length (filter (looks_up host) ops)"
  unfolding LookupA_def LookupAAAA_def fake_LookupCNAME_def fst_conv
    fake_a.reads_latest fake_aaaa.reads_latest fake_cname.reads_latest fake_calls
  by (simp add: NewFakeDNS_def fake_CallCount_def split: option.split)

text \<open>
  The mock server answers a request with the handler registered last for its method and path, otherwise
  with the last default handler, otherwise (also when that handler is nil) with 404, and its log holds the
  requests since the last reset in order, whatever else was registered, called or reset before.
\<close>

theorem mock_server_answers:
  assumes "\<forall>e \<in> set es. \<forall>meth path h. e = EvOn meth path h \<longrightarrow> CHR '' '' \<notin> set meth"
    and "CHR '' '' \<notin> set (mq_Method r)"
  shows "ms_calls (fold mock_step es MockUpstream) = map logged (requests_since_reset es [])
    \<and> fst (dispatch r (fold mock_step es MockUpstream)) =
        (case (case latest registers_for es (mq_Method r, mq_Path r) of
                 Some h \<Rightarrow> h
               | None \<Rightarrow> (case latest registers_any es () of Some h \<Rightarrow> h | None \<Rightarrow> None)) of
           None \<Rightarrow> [HttpError ''404 page not found'' 404]
         | Some h \<Rightarrow> h (snd (readBody r)))"
proof -
  have "ms_default (fold mock_step es MockUpstream) = (case latest registers_any es () of Some h \<Rightarrow> h | None \<Rightarrow> None)"
    using mock_default.reads_latest [of es MockUpstream "()"] by (simp add: MockUpstream_def split: option.splits)
  moreover have "map_of (ms_routes (fold mock_step es MockUpstream)) (route_key (mq_Method r) (mq_Path r))
      = latest registers_for es (mq_Method r, mq_Path r)"
    using mock_routes.reads_latest [of es MockUpstream] latest_route [OF assms]
    by (simp add: MockUpstream_def split: option.splits)
  moreover have "ms_calls (fold mock_step es MockUpstream) = map logged (requests_since_reset es [])"
    by (rule mock_log) (simp add: MockUpstream_def)
  ultimately show ?thesis unfolding dispatch_answer by (simp split: option.split)
qed

definition request1 :: "string \<Rightarrow> string list \<Rightarrow> mock_request" where
  "request1 path chunks = \<lparr>mq_Method = ''GET'', mq_Path = path, mq_Query = [], mq_Headers = [], mq_Body = Some chunks\<rparr>"

theorem mock_server_answers_witness:
  "fst (dispatch (request1 ''/a'' []) (fold mock_step
      [EvOn ''GET'' ''/a'' (Some (RespondStatus 200)), EvRequest (request1 ''/b'' [''x'', ''y'']), EvOn ''GET'' ''/a'' (Some (RespondStatus 429))] MockUpstream))
    = [WriteHeader 429]"
  using mock_server_answers [of "[EvOn ''GET'' ''/a'' (Some (RespondStatus 200)), EvRequest (request1 ''/b'' [''x'', ''y'']),
      EvOn ''GET'' ''/a'' (Some (RespondStatus 429))]" "request1 ''/a'' []"]
  by (simp add: request1_def latest_def List.map_filter_def RespondStatus_def)

text \<open>The log keeps only what one \<open>Read\<close> delivers, and a handler cannot read the body at all.\<close>

lemma body_cut_and_consumed:
  "mc_Body (logged (request1 path [''x'', ''y''])) = ''x''"
  "mq_Body r = Some chunks \<Longrightarrow> mq_Body (snd (readBody r)) = Some []"
  by (simp_all add: logged_def readBody_def request1_def)

text \<open>
  What the cache holds for a key are the bytes the slice had when it was stored last, whatever the test
  writes to that slice or to others afterwards, unless it writes to a slice it got from the cache; hits and
  misses add up to the number of lookups.
\<close>

theorem fake_cache_isolated:
  assumes "foreign_writes ops (NewFakeCache cells n)"
  shows "cached_bytes (fold cache_step ops (NewFakeCache cells n)) key = stored_last ops (NewFakeCache cells n) Map.empty key
    \<and> fk_hits (fold cache_step ops (NewFakeCache cells n)) + fk_miss (fold cache_step ops (NewFakeCache cells n))
      = length (filter (\<lambda>op. \<exists>key. op = CLookup key) ops)"
proof -
  have "cache_wf (NewFakeCache cells n)" "cached_bytes (NewFakeCache cells n) = Map.empty"
    by (auto simp: cache_wf_def NewFakeCache_def cached_bytes_def)
  then show ?thesis
    using cache_run [OF _ assms] cache_lookups [of ops "NewFakeCache cells n"] by (simp add: NewFakeCache_def)
qed

theorem fake_cache_isolated_witness:
  "cached_bytes (fold cache_step [CUpsert ''k'' 0, CWrite 0 ''Xriginal''] (NewFakeCache (\<lambda>_. ''original'') 1)) ''k'' = Some ''original''"
  using fake_cache_isolated [of "[CUpsert ''k'' 0, CWrite 0 ''Xriginal'']" "\<lambda>_. ''original''" 1 "''k''"]
  by (simp add: NewFakeCache_def fake_Upsert_def)

text \<open>A slice that \<open>Lookup\<close> has returned is the stored one: writing to it changes the cache.\<close>

lemma lookup_returns_the_stored_slice:
  assumes "fake_Lookup key f = (Some a, f')"
  shows "cached_bytes (cache_step (CWrite a bs) f') key = Some bs"
  using assms by (auto simp: fake_Lookup_def cached_bytes_def split: option.splits)

text \<open>
  The requests to a sequence of handlers are answered by its handlers in order, starting over after the
  last, for the first 2^63 requests.
\<close>

lemma seq_answers_from:
  assumes "handlers \<noteq> []" and "n + length rs \<le> 2 ^ 63" and "k < length rs"
  shows "seq_answers handlers (word_of_nat n) rs ! k = Some ((handlers ! ((n + k) mod length handlers)) (rs ! k))"
  using assms(2,3)
proof (induction rs arbitrary: n k)
  case (Cons r rs)
  have s: "sint (word_of_nat n :: 64 word) = int n"
    using Cons.prems by (simp add: signed_of_nat signed_take_bit_int_eq_self)
  have j: "int n smod int (length handlers) = int (n mod length handlers)"
    using assms(1) by (simp add: signed_modulo_int_def sgn_if zmod_int)
  have h: "seq_handler handlers (word_of_nat n) = (Some (handlers ! (n mod length handlers)), word_of_nat (Suc n))"
    using assms(1) by (simp add: seq_handler_def Let_def s j nat_mod_distrib)
  show ?case
  proof (cases k)
    case 0
    then show ?thesis by (simp add: h)
  next
    case (Suc k')
    then show ?thesis using Cons.IH [of "Suc n" k'] Cons.prems by (simp add: h del: of_nat_Suc)
  qed
qed simp

theorem sequence_repeats:
  assumes "handlers \<noteq> []" and "length rs \<le> 2 ^ 63" and "k < length rs"
  shows "seq_answers handlers 0 rs ! k = Some ((handlers ! (k mod length handlers)) (rs ! k))"
  using seq_answers_from [of handlers 0 rs k] assms by simp

theorem sequence_repeats_witness:
  "seq_answers [RespondStatus 429, RespondStatus 200] 0 (replicate 4 (request1 ''/'' [])) ! 3 = Some [WriteHeader 200]"
proof -
  have "(3::nat) mod length [RespondStatus 429, RespondStatus 200] = 1" by (simp flip: numeral_2_eq_2)
  then show ?thesis
    using sequence_repeats [of "[RespondStatus 429, RespondStatus 200]" "replicate 4 (request1 ''/'' [])" 3]
    by (simp add: RespondStatus_def)
qed

end
