(* ===== verification/Harness_Jobs.thy ===== *)
theory Harness_Jobs
  imports Map_Store Tool
begin

text \<open>
  The job builder of the test harness (testing/wtest/job.go). Attributes are maps in the store of
  \<open>Map_Store\<close>, because what the builder copies and what it shares is the point of its copies: it copies the
  top level of the maps it is given and of the map it hands out. Shown: a built job has the attributes that
  the calls describe, and no later call of the builder changes it; nested maps stay those of the test.
\<close>

section \<open>The builder\<close>

text \<open>The job with the reference of its attributes beside it; the record's own field for them is not used.\<close>

record job_builder =
  jl_job :: job
  jl_attrs :: "nat option"

definition copy_entries :: "(string \<times> hval) list \<Rightarrow> (string \<times> hval) list \<Rightarrow> (string \<times> hval) list" where
  "copy_entries es m = fold (\<lambda>(k, v) m. map_put m k v) es m"

text \<open>Random identifiers and the clock are arguments.\<close>

definition MockJob :: "int \<Rightarrow> string \<Rightarrow> string \<Rightarrow> time \<Rightarrow> store \<Rightarrow> job_builder \<times> store" where
  "MockJob ident run_id asset_id now s =
     (let (a, s) = new_map [] s in
      (\<lparr>jl_job = \<lparr>jb_ID = ident, jb_RunID = run_id, jb_ScopeID = [], jb_Phase = ''test'',
          jb_Asset = \<lparr>as_ID = asset_id, as_ScopeID = [], as_Kind = ''host'', as_Value = [], as_ParentID = [], as_Attrs = None, as_State = []\<rparr>,
          jb_Priority = 2, jb_Deadline = now + 30 * Second, jb_TraceID = [], jb_ForceFresh = False, jb_APIKey = [], jb_APIKeyID = []\<rparr>,
        jl_attrs = Some a\<rparr>, s))"

definition with_asset :: "(asset \<Rightarrow> asset) \<Rightarrow> job_builder \<Rightarrow> job_builder" where
  "with_asset f b = b\<lparr>jl_job := (jl_job b)\<lparr>jb_Asset := f (jb_Asset (jl_job b))\<rparr>\<rparr>"

definition WithKind :: "string \<Rightarrow> job_builder \<Rightarrow> job_builder" where
  "WithKind kind = with_asset (\<lambda>a. a\<lparr>as_Kind := kind\<rparr>)"

definition WithValue :: "string \<Rightarrow> job_builder \<Rightarrow> job_builder" where
  "WithValue v = with_asset (\<lambda>a. a\<lparr>as_Value := v\<rparr>)"

definition WithAssetID :: "string \<Rightarrow> job_builder \<Rightarrow> job_builder" where
  "WithAssetID i = with_asset (\<lambda>a. a\<lparr>as_ID := i\<rparr>)"

definition WithParentID :: "string \<Rightarrow> job_builder \<Rightarrow> job_builder" where
  "WithParentID i = with_asset (\<lambda>a. a\<lparr>as_ParentID := i\<rparr>)"

definition WithScopeIDString :: "string \<Rightarrow> job_builder \<Rightarrow> job_builder" where
  "WithScopeIDString i b = with_asset (\<lambda>a. a\<lparr>as_ScopeID := i\<rparr>) (b\<lparr>jl_job := (jl_job b)\<lparr>jb_ScopeID := i\<rparr>\<rparr>)"

text \<open>A \<open>uuid.UUID\<close> is given by its text.\<close>

definition WithScopeID :: "uuid \<Rightarrow> job_builder \<Rightarrow> job_builder" where
  "WithScopeID i = WithScopeIDString i"

definition WithRunID :: "string \<Rightarrow> job_builder \<Rightarrow> job_builder" where
  "WithRunID i b = b\<lparr>jl_job := (jl_job b)\<lparr>jb_RunID := i\<rparr>\<rparr>"

definition WithPhase :: "string \<Rightarrow> job_builder \<Rightarrow> job_builder" where
  "WithPhase p b = b\<lparr>jl_job := (jl_job b)\<lparr>jb_Phase := p\<rparr>\<rparr>"

definition WithDeadline :: "time \<Rightarrow> job_builder \<Rightarrow> job_builder" where
  "WithDeadline t b = b\<lparr>jl_job := (jl_job b)\<lparr>jb_Deadline := t\<rparr>\<rparr>"

definition WithForceFresh :: "bool \<Rightarrow> job_builder \<Rightarrow> job_builder" where
  "WithForceFresh v b = b\<lparr>jl_job := (jl_job b)\<lparr>jb_ForceFresh := v\<rparr>\<rparr>"

definition WithPriority :: "int \<Rightarrow> job_builder \<Rightarrow> job_builder" where
  "WithPriority p b = b\<lparr>jl_job := (jl_job b)\<lparr>jb_Priority := p\<rparr>\<rparr>"

definition WithAttrs :: "nat option \<Rightarrow> job_builder \<Rightarrow> store \<Rightarrow> job_builder \<times> store" where
  "WithAttrs attrs b s =
     (let (c, s) = new_map (case attrs of None \<Rightarrow> [] | Some a \<Rightarrow> copy_entries (so_maps s a) []) s
      in (b\<lparr>jl_attrs := Some c\<rparr>, s))"

definition MergeAttrs :: "nat option \<Rightarrow> job_builder \<Rightarrow> store \<Rightarrow> job_builder \<times> store" where
  "MergeAttrs attrs b s =
     (let (c, s) = (case jl_attrs b of Some c \<Rightarrow> (c, s) | None \<Rightarrow> new_map [] s);
          es = (case attrs of None \<Rightarrow> [] | Some a \<Rightarrow> so_maps s a)
      in (b\<lparr>jl_attrs := Some c\<rparr>, s\<lparr>so_maps := (so_maps s)(c := copy_entries es (so_maps s c))\<rparr>))"

definition Build :: "job_builder \<Rightarrow> store \<Rightarrow> (job \<times> nat option) \<times> store" where
  "Build b s =
     (case jl_attrs b of
        None \<Rightarrow> ((jl_job b, None), s)
      | Some c \<Rightarrow> (let (a, s) = new_map (copy_entries (so_maps s c) []) s in ((jl_job b, Some a), s)))"

text \<open>The calls on a builder: one that touches only the job, or one of the two that take a map.\<close>

datatype builder_call = Edit "job_builder \<Rightarrow> job_builder" | Attrs "nat option" | Merge "nat option"

fun call_builder :: "builder_call \<Rightarrow> job_builder \<times> store \<Rightarrow> job_builder \<times> store" where
  "call_builder (Edit f) (b, s) = ((f b)\<lparr>jl_attrs := jl_attrs b\<rparr>, s)"
| "call_builder (Attrs m) (b, s) = WithAttrs m b s"
| "call_builder (Merge m) (b, s) = MergeAttrs m b s"

lemma edits_keep_attrs:
  "jl_attrs (with_asset f b) = jl_attrs b" "jl_attrs (WithRunID i b) = jl_attrs b" "jl_attrs (WithPhase p b) = jl_attrs b"
  "jl_attrs (WithDeadline t b) = jl_attrs b" "jl_attrs (WithForceFresh v b) = jl_attrs b" "jl_attrs (WithPriority n b) = jl_attrs b"
  "jl_attrs (WithScopeIDString i b) = jl_attrs b"
  by (simp_all add: with_asset_def WithRunID_def WithPhase_def WithDeadline_def WithForceFresh_def WithPriority_def WithScopeIDString_def)

text \<open>The maps a test hands over existed before the builder.\<close>

fun given_before :: "nat \<Rightarrow> builder_call \<Rightarrow> bool" where
  "given_before n (Attrs (Some a)) = (a < n)" | "given_before n (Merge (Some a)) = (a < n)" | "given_before n _ = True"

text \<open>The attributes that calls describe, over the maps of the test.\<close>

fun described :: "store \<Rightarrow> builder_call \<Rightarrow> (string \<Rightarrow> hval option) \<Rightarrow> string \<Rightarrow> hval option" where
  "described s (Attrs (Some a)) m = map_of (so_maps s a)"
| "described s (Attrs None) m = Map.empty"
| "described s (Merge (Some a)) m = m ++ map_of (so_maps s a)"
| "described s _ m = m"

section \<open>What the builder keeps\<close>

lemma copy_entries_simps [simp]:
  "copy_entries [] m = m" "copy_entries ((k, v) # es) m = copy_entries es (map_put m k v)"
  by (simp_all add: copy_entries_def)

lemma map_of_copy: "go_map es \<Longrightarrow> map_of (copy_entries es m) = map_of m ++ map_of es"
proof (induction es arbitrary: m)
  case (Cons e es)
  obtain k v where e: "e = (k, v)" by (cases e)
  have "map_of es k = None" using Cons.prems e by (simp add: map_of_eq_None_iff)
  moreover have "map_of (copy_entries es (map_put m k v)) = map_of (map_put m k v) ++ map_of es" using Cons e by simp
  ultimately show ?case by (auto simp: e fun_eq_iff map_add_def split: option.split)
qed simp

lemma map_put_entries: "snd ` set (map_put m k v) \<subseteq> insert v (snd ` set m)"
  by (induction m k v rule: map_put.induct) auto

lemma copy_entries_values: "snd ` set (copy_entries es m) \<subseteq> snd ` set m \<union> snd ` set es"
proof (induction es arbitrary: m)
  case (Cons e es)
  obtain k v where e: "e = (k, v)" by (cases e)
  then show ?case unfolding e copy_entries_simps
    using order_trans [OF Cons.IH [of "map_put m k v"] Un_mono [OF map_put_entries [of m k v] order_refl]] by auto
qed simp

definition refs_below :: "nat \<Rightarrow> (string \<times> hval) list \<Rightarrow> bool" where
  "refs_below n es \<longleftrightarrow> (\<forall>d. HRef d \<in> snd ` set es \<longrightarrow> d < n)"

lemma refs_below_Nil [simp]: "refs_below n []"
  by (simp add: refs_below_def)

lemma refs_below_copy: "refs_below n m \<Longrightarrow> refs_below n es \<Longrightarrow> refs_below n (copy_entries es m)"
  using copy_entries_values [of es m] unfolding refs_below_def by blast

text \<open>A store in which maps refer only to maps that exist and have distinct keys.\<close>

definition wf_store :: "store \<Rightarrow> bool" where
  "wf_store s \<longleftrightarrow> (\<forall>a < so_next s. refs_below (so_next s) (so_maps s a) \<and> go_map (so_maps s a))"

text \<open>
  The invariant of a builder made in the store \<open>s0\<close>: the maps of the test are as they were, and the map of the
  builder is a newer one whose entries refer to maps of the test only.
\<close>

definition builder_inv :: "store \<Rightarrow> (string \<Rightarrow> hval option) \<Rightarrow> job_builder \<times> store \<Rightarrow> bool" where
  "builder_inv s0 m bs \<longleftrightarrow> keeps s0 (snd bs)
     \<and> (\<exists>c. jl_attrs (fst bs) = Some c \<and> so_next s0 \<le> c \<and> c < so_next (snd bs)
          \<and> refs_below (so_next s0) (so_maps (snd bs) c) \<and> map_of (so_maps (snd bs) c) = m \<and> go_map (so_maps (snd bs) c))"

lemma go_map_copy: "go_map m \<Longrightarrow> go_map (copy_entries es m)"
  by (induction es arbitrary: m) auto

lemma MockJob_inv: "builder_inv s (\<lambda>_. None) (MockJob i r a now s)"
  by (auto simp: builder_inv_def MockJob_def new_map_def keeps_but_def refs_below_def)

lemma given_maps:
  assumes "wf_store s0" and "keeps s0 s" and "a < so_next s0"
  shows "so_maps s a = so_maps s0 a" "refs_below (so_next s0) (so_maps s0 a)" "go_map (so_maps s0 a)"
  using assms by (auto simp: wf_store_def keeps_but_def)

lemma call_builder_inv:
  assumes "wf_store s0" and "builder_inv s0 m (b, s)" and "given_before (so_next s0) op"
  shows "builder_inv s0 (described s0 op m) (call_builder op (b, s))"
proof -
  obtain c where c: "jl_attrs b = Some c" "so_next s0 \<le> c" "c < so_next s" "refs_below (so_next s0) (so_maps s c)"
    "map_of (so_maps s c) = m" "go_map (so_maps s c)" and k: "keeps s0 s"
    using assms(2) by (auto simp: builder_inv_def)
  have n: "so_next s0 \<le> so_next s" using k by (simp add: keeps_but_def)
  show ?thesis
  proof (cases op)
    case (Edit f)
    then show ?thesis using c k by (simp add: builder_inv_def)
  next
    case (Attrs x)
    then show ?thesis
      using assms(3) given_maps [OF assms(1) k] k n
      by (cases x) (auto simp: builder_inv_def WithAttrs_def new_map_def keeps_but_def map_of_copy refs_below_copy go_map_copy)
  next
    case (Merge x)
    then show ?thesis
      using assms(3) given_maps [OF assms(1) k] c k n
      by (cases x) (auto simp: builder_inv_def MergeAttrs_def keeps_but_def map_of_copy refs_below_copy go_map_copy)
  qed
qed

lemma calls_inv:
  assumes "wf_store s0" and "builder_inv s0 m bs" and "\<forall>op \<in> set ops. given_before (so_next s0) op"
  shows "builder_inv s0 (fold (described s0) ops m) (fold call_builder ops bs)"
  using assms(2,3)
proof (induction ops arbitrary: m bs)
  case (Cons op ops)
  obtain b s where "bs = (b, s)" by (rule prod.exhaust)
  then show ?case using Cons call_builder_inv [OF assms(1), of m b s op] by simp
qed simp

text \<open>Calls write to the current map of the builder only, which is the one it had or a new one.\<close>

lemma call_builder_frame:
  assumes "jl_attrs b = Some c" and "call_builder op (b, s) = (b', s')"
  shows "\<exists>c'. jl_attrs b' = Some c' \<and> keeps_but {c} s s' \<and> (c' = c \<or> so_next s \<le> c')"
  using assms by (cases op) (auto simp: WithAttrs_def MergeAttrs_def new_map_def keeps_but_def)

lemma calls_frame:
  assumes "jl_attrs b = Some c" and "fold call_builder ops (b, s) = (b', s')"
  shows "keeps_but {c} s s'"
  using assms
proof (induction ops arbitrary: b c s)
  case (Cons op ops)
  obtain b1 s1 where 1: "call_builder op (b, s) = (b1, s1)" by (rule prod.exhaust)
  obtain c1 where c1: "jl_attrs b1 = Some c1" "keeps_but {c} s s1" "c1 = c \<or> so_next s \<le> c1"
    using call_builder_frame [OF Cons.prems(1) 1] by blast
  have "keeps_but {c1} s1 s'" using Cons.IH [OF c1(1)] Cons.prems(2) 1 by simp
  with c1 show ?case by (intro keeps_trans [of "{c}" s s1 "{c1}" s']) auto
qed simp

text \<open>A path that stays in maps which two stores share leads to the same place in both.\<close>

lemma walk_agree:
  assumes "\<forall>a \<in> A. so_maps s' a = so_maps s a \<and> (\<forall>d. HRef d \<in> snd ` set (so_maps s a) \<longrightarrow> d \<in> A)" and "\<forall>d. x = HRef d \<longrightarrow> d \<in> A"
  shows "walk_store s' x p = walk_store s x p"
  using assms(2)
proof (induction p arbitrary: x)
  case (Cons seg segs)
  show ?case
  proof (cases x)
    case (HRef a)
    with Cons.prems have a: "a \<in> A" by simp
    then have eq: "so_maps s' a = so_maps s a" using assms(1) by simp
    have "walk_store s' v segs = walk_store s v segs" if "map_of (so_maps s a) seg = Some v" for v
    proof (rule Cons.IH)
      have "v \<in> snd ` set (so_maps s a)" using map_of_SomeD [OF that] by force
      then show "\<forall>d. v = HRef d \<longrightarrow> d \<in> A" using assms(1) a by blast
    qed
    then show ?thesis by (simp add: HRef eq split: option.split)
  qed simp
qed simp

section \<open>Properties\<close>

text \<open>
  C39: a built job has exactly the attributes that the calls before describe, with values that are those of the
  test's maps, and whatever is called on the builder afterwards, every path of the job's attributes reads
  as it did when the job was built.
\<close>

theorem built_job_is_stable:
  assumes "wf_store s0" and "MockJob i r a now s0 = bs" and "fold call_builder ops bs = (b, s)" and "Build b s = ((j, attrs), s1)"
    and "fold call_builder later (b, s1) = (b2, s2)" and "\<forall>op \<in> set ops. given_before (so_next s0) op"
  shows "\<exists>c. attrs = Some c \<and> map_of (so_maps s1 c) = fold (described s0) ops Map.empty
    \<and> (\<forall>p. walk_store s2 (HRef c) p = walk_store s1 (HRef c) p)"
proof -
  have "builder_inv s0 Map.empty bs" using MockJob_inv assms(2) by blast
  from calls_inv [OF assms(1) this assms(6)] obtain d where d: "jl_attrs b = Some d" "so_next s0 \<le> d" "d < so_next s"
    "refs_below (so_next s0) (so_maps s d)" "map_of (so_maps s d) = fold (described s0) ops Map.empty" "go_map (so_maps s d)" "keeps s0 s"
    by (auto simp: builder_inv_def assms(3))
  have at: "attrs = Some (so_next s)" and m1: "so_maps s1 = (so_maps s)(so_next s := copy_entries (so_maps s d) [])"
    and n1: "so_next s1 = Suc (so_next s)"
    using assms(4) d(1) by (auto simp: Build_def new_map_def)
  let ?c = "so_next s"
  have n: "so_next s0 \<le> so_next s" using d(7) by (simp add: keeps_but_def)
  have k: "keeps_but {d} s1 s2" by (rule calls_frame [OF d(1) assms(5)])
  let ?A = "insert ?c {a. a < so_next s0}"
  have "so_maps s2 e = so_maps s1 e \<and> (\<forall>h. HRef h \<in> snd ` set (so_maps s1 e) \<longrightarrow> h \<in> ?A)" if "e \<in> ?A" for e
  proof
    show "so_maps s2 e = so_maps s1 e" using k that d(2,3) n n1 by (auto simp: keeps_but_def)
    have "refs_below (so_next s0) (so_maps s1 e)"
      using that d(4) n given_maps [OF assms(1) d(7), of e] by (auto simp: m1 refs_below_copy)
    then show "\<forall>h. HRef h \<in> snd ` set (so_maps s1 e) \<longrightarrow> h \<in> ?A" by (auto simp: refs_below_def)
  qed
  then have "walk_store s2 (HRef ?c) p = walk_store s1 (HRef ?c) p" for p by (intro walk_agree [of ?A]) auto
  moreover have "map_of (so_maps s1 ?c) = fold (described s0) ops Map.empty" using d(5,6) by (simp add: m1 map_of_copy)
  ultimately show ?thesis using at by blast
qed

text \<open>A store of a test: a map with a nested one.\<close>

definition store1 :: store where
  "store1 = \<lparr>so_next = 2, so_maps = (\<lambda>_. [])(0 := [(''x'', HVal (GStr ''1''))], 1 := [(''n'', HRef 0)])\<rparr>"

theorem built_job_is_stable_witness:
  "\<exists>b s j c s1 b2 s2. fold call_builder [Attrs (Some 1)] (MockJob 1 ''r'' ''a'' 0 store1) = (b, s) \<and> Build b s = ((j, Some c), s1)
     \<and> fold call_builder [Merge (Some 0)] (b, s1) = (b2, s2) \<and> walk_store s2 (HRef c) [''x''] = walk_store s1 (HRef c) [''x'']"
proof -
  have wf: "wf_store store1" by (auto simp: wf_store_def store1_def refs_below_def less_Suc_eq numeral_2_eq_2)
  obtain b s where 1: "fold call_builder [Attrs (Some 1)] (MockJob 1 ''r'' ''a'' 0 store1) = (b, s)" by (rule prod.exhaust)
  obtain j attrs s1 where 2: "Build b s = ((j, attrs), s1)" by (metis prod.collapse)
  obtain b2 s2 where 3: "fold call_builder [Merge (Some 0)] (b, s1) = (b2, s2)" by (rule prod.exhaust)
  obtain c where "attrs = Some c" "\<forall>p. walk_store s2 (HRef c) p = walk_store s1 (HRef c) p"
    using built_job_is_stable [OF wf refl 1 2 3] by (auto simp: store1_def)
  with 1 2 3 show ?thesis by blast
qed

text \<open>
  The nested maps of a job stay those of the test, which can change the job through them.
\<close>

lemma nested_maps_are_shared:
  assumes "map_of (so_maps s c) k = Some (HRef d)" and "d \<noteq> c"
  shows "walk_store (put d k' v s) (HRef c) [k, k'] = Some v"
  using assms by (simp add: put_def)

end
