(* ===== verification/Harness_Asserts.thy ===== *)
theory Harness_Asserts
  imports Asset_Writer Health Secretbox Json_Roundtrip
begin

text \<open>
  The assertions of the test harness (testing/wtest/assert.go, testing/wtest/reload.go) as the verdict of a
  test; the texts of failures are left out. Go's comparison of interface values is written out, with its
  panic on maps and slices; of floats, other types and unexported struct fields it is a parameter. Shown: what the
  assertions let pass is what the runtime then does with the same value: the report it writes for an
  error, and the attributes it stores for an update.
\<close>

section \<open>Verdicts\<close>

datatype verdict = Pass | Fail | Panic

definition check :: "bool \<Rightarrow> verdict" where
  "check b = (if b then Pass else Fail)"

text \<open>
  \<open>==\<close> on two values of type \<open>any\<close>: different dynamic types are unequal, equal types that cannot be compared panic
  (\<open>None\<close>). \<open>other\<close> compares floats and values of the types that \<open>gval\<close> does not tell apart.
\<close>

fun opaque :: "gval \<Rightarrow> bool" where
  "opaque (GFloat t) = True" | "opaque (GTyped v) = True" | "opaque GBad = True" | "opaque _ = False"

fun iface_eq :: "(gval \<Rightarrow> gval \<Rightarrow> bool option) \<Rightarrow> gval \<Rightarrow> gval \<Rightarrow> bool option" where
  "iface_eq other (GList _) (GList _) = None"
| "iface_eq other (GMap _) (GMap _) = None"
| "iface_eq other v w = (if opaque v \<and> opaque w then other v w else Some (v = w))"

definition compare_got :: "(gval \<Rightarrow> gval \<Rightarrow> bool option) \<Rightarrow> gval option \<Rightarrow> gval \<Rightarrow> verdict" where
  "compare_got other got want =
     (case got of
        None \<Rightarrow> Fail
      | Some g \<Rightarrow> (case iface_eq other g want of None \<Rightarrow> Panic | Some b \<Rightarrow> check b))"

section \<open>Assertions on results\<close>

fun lookup_parts :: "gval \<Rightarrow> string list \<Rightarrow> gval option" where
  "lookup_parts cur [] = Some cur"
| "lookup_parts (GMap m) (p # ps) = (case map_of m p of None \<Rightarrow> None | Some v \<Rightarrow> lookup_parts v ps)"
| "lookup_parts _ (p # ps) = None"

definition lookupPath :: "gmap option \<Rightarrow> string \<Rightarrow> gval option" where
  "lookupPath root dottedPath =
     (case root of
        None \<Rightarrow> None
      | Some m \<Rightarrow> if dottedPath = [] then None else lookup_parts (GMap m) (split_on (CHR ''.'') dottedPath))"

definition AssertEmits :: "tool_result \<Rightarrow> string \<Rightarrow> string \<Rightarrow> verdict" where
  "AssertEmits res kind v = check (list_ex (\<lambda>a. as_Kind a = kind \<and> as_Value a = v) (re_NewAssets res))"

definition AssertEmitsKind :: "tool_result \<Rightarrow> string \<Rightarrow> verdict" where
  "AssertEmitsKind res kind = check (list_ex (\<lambda>a. as_Kind a = kind) (re_NewAssets res))"

definition AssertEmitsCount :: "tool_result \<Rightarrow> int \<Rightarrow> verdict" where
  "AssertEmitsCount res n = check (int (length (re_NewAssets res)) = n)"

definition AssertNoEmits :: "tool_result \<Rightarrow> verdict" where
  "AssertNoEmits res = check (length (re_NewAssets res) = 0)"

definition AssertFinding :: "tool_result \<Rightarrow> string \<Rightarrow> severity \<Rightarrow> verdict" where
  "AssertFinding res kind sev = check (list_ex (\<lambda>f. fi_Kind f = kind \<and> fi_Severity f = sev) (re_Findings res))"

definition AssertFindingCount :: "tool_result \<Rightarrow> int \<Rightarrow> verdict" where
  "AssertFindingCount res n = check (int (length (re_Findings res)) = n)"

definition AssertNoFindings :: "tool_result \<Rightarrow> verdict" where
  "AssertNoFindings res = check (length (re_Findings res) = 0)"

definition AssertAssetUpdate :: "(gval \<Rightarrow> gval \<Rightarrow> bool option) \<Rightarrow> tool_result \<Rightarrow> string \<Rightarrow> gval \<Rightarrow> verdict" where
  "AssertAssetUpdate other res path want = compare_got other (lookupPath (re_AssetUpdate res) path) want"

definition AssertAssetUpdatePresent :: "tool_result \<Rightarrow> string \<Rightarrow> verdict" where
  "AssertAssetUpdatePresent res path = check (lookupPath (re_AssetUpdate res) path \<noteq> None)"

definition AssertStat :: "(gval \<Rightarrow> gval \<Rightarrow> bool option) \<Rightarrow> tool_result \<Rightarrow> string \<Rightarrow> gval \<Rightarrow> verdict" where
  "AssertStat other res key want =
     compare_got other (case re_Stats res of None \<Rightarrow> None | Some m \<Rightarrow> map_of m key) want"

section \<open>Assertions on errors and health\<close>

definition AssertErrorClass :: "go_error option \<Rightarrow> string \<Rightarrow> verdict" where
  "AssertErrorClass err class =
     (case err of
        None \<Rightarrow> Fail
      | Some e \<Rightarrow>
          (case as_HealthError e of
             None \<Rightarrow> Fail
           | Some (c, m) \<Rightarrow> if class \<noteq> [] \<and> c \<noteq> class then Fail else Pass))"

definition AssertHealth :: "healthReport \<Rightarrow> string \<Rightarrow> string \<Rightarrow> verdict" where
  "AssertHealth hr status class = check (hr_Status hr = status \<and> (class \<noteq> [] \<longrightarrow> hr_Class hr = class))"

definition AssertHealthExtra :: "(gval \<Rightarrow> gval \<Rightarrow> bool option) \<Rightarrow> healthReport \<Rightarrow> string \<Rightarrow> gval \<Rightarrow> verdict" where
  "AssertHealthExtra other hr key want =
     compare_got other (case hr_Extra hr of None \<Rightarrow> None | Some m \<Rightarrow> map_of m key) want"

section \<open>Reload tables\<close>

text \<open>
  A table of reloads of one tool, whose state goes on from case to case. How a field is read by reflection and
  \<open>reflect.DeepEqual\<close> are parameters.
\<close>

record 'v reload_case =
  rc_Name :: string
  rc_Cfg :: "gmap option"
  rc_Field :: string
  rc_Want :: 'v
  rc_WantErr :: bool

definition reload_case_verdict ::
  "('s \<Rightarrow> string \<Rightarrow> 'v option) \<Rightarrow> ('v \<Rightarrow> 'v \<Rightarrow> bool) \<Rightarrow> 'v reload_case \<Rightarrow> go_error option \<Rightarrow> 's \<Rightarrow> verdict" where
  "reload_case_verdict readField deepEqual tc err tool =
     (let err_ok = (rc_WantErr tc \<longleftrightarrow> err \<noteq> None) in
      if rc_Field tc = [] then check err_ok
      else case readField tool (rc_Field tc) of
          None \<Rightarrow> Fail
        | Some got \<Rightarrow> check (err_ok \<and> deepEqual got (rc_Want tc)))"

fun ReloadCases ::
  "('s \<Rightarrow> gmap option \<Rightarrow> go_error option \<times> 's) \<Rightarrow> ('s \<Rightarrow> string \<Rightarrow> 'v option) \<Rightarrow> ('v \<Rightarrow> 'v \<Rightarrow> bool)
   \<Rightarrow> 'v reload_case list \<Rightarrow> 's \<Rightarrow> verdict list" where
  "ReloadCases reload readField deepEqual [] tool = []"
| "ReloadCases reload readField deepEqual (tc # tcs) tool =
     (let (err, tool') = reload tool (rc_Cfg tc) in
      reload_case_verdict readField deepEqual tc err tool' # ReloadCases reload readField deepEqual tcs tool')"

section \<open>Paths\<close>

lemma lookup_parts_is_walk: "lookup_parts = walkValue"
proof (intro ext)
  show "lookup_parts v p = walkValue v p" for v p
    by (induction v p rule: lookup_parts.induct) (auto split: option.split)
qed

lemma map_of_view:
  assumes "go_map m" and "list_all (\<lambda>kv. coerce_utf8 (fst kv) = fst kv) m"
  shows "map_of (map (\<lambda>kv. (coerce_utf8 (fst kv), snd kv)) (sort_key fst (map (\<lambda>kv. (fst kv, json_view (snd kv))) m))) k
    = map_option json_view (map_of m k)"
proof -
  let ?m = "map (\<lambda>kv. (fst kv, json_view (snd kv))) m"
  have "map (\<lambda>kv. (coerce_utf8 (fst kv), snd kv)) (sort_key fst ?m) = sort_key fst ?m"
    using assms(2) by (intro map_idI) (auto simp: list_all_iff)
  moreover have "distinct (map fst (sort_key fst ?m))" "distinct (map fst ?m)"
    using assms(1) by (simp_all add: map_fst_sort_key go_map_def o_def)
  then have "map_of (sort_key fst ?m) = map_of ?m" by (simp add: map_of_inject_set)
  ultimately show ?thesis by (simp add: map_of_map_snd)
qed

lemma walk_view:
  assumes "wf_val v" and "utf8_keys v" and "walkValue v p = Some w"
  shows "walkValue (json_view v) p = Some (json_view w)"
  using assms
proof (induction v p rule: walkValue.induct)
  case (2 m seg segs)
  obtain x where x: "map_of m seg = Some x" "walkValue x segs = Some w"
    using 2(4) by (auto split: option.splits)
  have "(seg, x) \<in> set m" using x(1) by (rule map_of_SomeD)
  then have "wf_val x" "utf8_keys x" using 2(2,3) by (auto simp: list_all_iff)
  from 2(1) [OF x(1) this x(2)] show ?case
    using map_of_view [of m seg] 2(2,3) x(1) by (simp add: list_all_iff)
qed auto

text \<open>Merging reads as the update along every path that starts in the update.\<close>

lemma walk_concat:
  assumes "go_map j" and "p \<noteq> []" and "walkValue (GMap j) p = Some w"
  shows "walkValue (GMap (jsonb_concat a j)) p = Some w"
proof -
  obtain seg segs where p: "p = seg # segs" using assms(2) by (cases p) auto
  obtain v where "map_of j seg = Some v" using assms(3) p by (auto split: option.splits)
  then show ?thesis using assms(3) by (simp add: p map_of_concat [OF assms(1)])
qed

definition merged_row :: "pg \<Rightarrow> gmap \<Rightarrow> asset_row \<Rightarrow> asset_row" where
  "merged_row env j r = r\<lparr>ar_attrs := jsonb_concat (ar_attrs r) j, ar_last_seen := pg_now env,
     ar_fingerprint := Some (pg_digest env (jsonb_concat (ar_attrs r) j))\<rparr>"

lemma MergeUpdate_ok:
  assumes "MergeUpdate env i (Some m) (d, fs) = (None, d', fs')" and "m \<noteq> []" and "marshal (GMap m) = Some t"
  shows "\<exists>j. pg_jsonb env t = Some j \<and> db_assets d' = map (\<lambda>r. if ar_id r = i then merged_row env j r else r) (db_assets d)"
proof -
  have "pgexec (\<lambda>d. case pg_jsonb env t of None \<Rightarrow> None
      | Some j \<Rightarrow> Some (d\<lparr>db_assets := update_where (\<lambda>r. ar_id r = i) (merged_row env j) (db_assets d)\<rparr>)) (d, fs) = (None, d', fs')"
    using assms unfolding MergeUpdate_def merged_row_def option.case by (simp del: marshal.simps)
  from pgexec_ok [OF this] show ?thesis by (auto simp: update_where_def split: option.splits)
qed

section \<open>Properties\<close>

text \<open>
  An error for which the assertion of a class passes is one for which the runtime, when a run ends with
  it, writes an unhealthy report of that class in the background; for every other error it writes none
  or one of another class.
\<close>

theorem asserted_class_is_reported:
  "AssertErrorClass err class = Pass \<longleftrightarrow>
     (\<exists>r. snd (recordRunOutcome err key c) = Some (r, key) \<and> hr_Status r = ''unhealthy'' \<and> (class = [] \<or> hr_Class r = class))"
  by (auto simp: AssertErrorClass_def recordRunOutcome_def Let_def split: option.splits if_splits)

text \<open>
  C36: when the assertion of a string in the update of a result passes and the update is merged without an error,
  every row of the consumed asset reads that string along the path, whatever its attributes were before
  (for updates that JSON can show, with keys and value in UTF-8, and a server that reads the strings of a
  JSON object without duplicate keys as they are; what it does with duplicate keys does not matter).
\<close>

theorem asserted_update_is_stored:
  assumes "AssertAssetUpdate other res path (GStr v) = Pass"
    and "re_AssetUpdate res = Some m" and "wf_val (GMap m)" and "utf8_keys (GMap m)" and "coerce_utf8 v = v"
    and "printable (GMap m)" and "nesting (GMap m) \<le> max_nesting"
    and jsonb: "\<And>t g j. json_parse t = Some (GMap g) \<Longrightarrow> wf_val (GMap g) \<Longrightarrow> pg_jsonb env t = Some j \<Longrightarrow>
      go_map j \<and> (\<forall>p s. walkValue (GMap g) p = Some (GStr s) \<longrightarrow> walkValue (GMap j) p = Some (GStr s))"
    and "MergeUpdate env i (re_AssetUpdate res) (d, fs) = (None, d', fs')" and "r \<in> set (db_assets d')" and "ar_id r = i"
  shows "lookupPath (Some (ar_attrs r)) path = Some (GStr v)"
proof -
  let ?p = "split_on (CHR ''.'') path"
  have "lookupPath (Some m) path = Some (GStr v)"
  proof (cases "lookupPath (Some m) path")
    case None
    then show ?thesis using assms(1,2) by (simp add: AssertAssetUpdate_def compare_got_def)
  next
    case (Some g)
    then show ?thesis
      using assms(1,2) by (cases g) (auto simp: AssertAssetUpdate_def compare_got_def check_def split: if_splits)
  qed
  then have path: "path \<noteq> []" and w: "walkValue (GMap m) ?p = Some (GStr v)"
    by (auto simp: lookupPath_def lookup_parts_is_walk split: if_splits)
  have pne: "?p \<noteq> []" by (cases path) (auto split: list.split)
  have "m \<noteq> []" using w pne by (cases ?p) auto
  obtain t where t: "marshal (GMap m) = Some t" using printable_marshal [OF assms(6)] by blast
  obtain g where g: "json_view (GMap m) = GMap g" by simp
  have "json_parse t = Some (GMap g)" using json_roundtrip [OF t assms(6,7)] g by simp
  moreover obtain j where j: "pg_jsonb env t = Some j" and d': "db_assets d' = map (\<lambda>r. if ar_id r = i then merged_row env j r else r) (db_assets d)"
    using MergeUpdate_ok [OF assms(9) [unfolded assms(2)] \<open>m \<noteq> []\<close> t] by blast
  moreover have "walkValue (GMap g) ?p = Some (GStr v)"
    using walk_view [OF assms(3,4) w] assms(5) g by simp
  moreover have "wf_val (GMap g)" using wf_view [OF assms(3,4)] g by simp
  ultimately have "go_map j" "walkValue (GMap j) ?p = Some (GStr v)" using jsonb by blast+
  then have "walkValue (GMap (jsonb_concat a j)) ?p = Some (GStr v)" for a using walk_concat [OF _ pne] by blast
  moreover obtain r0 where "r = (if ar_id r0 = i then merged_row env j r0 else r0)" using assms(10) unfolding d' set_map by blast
  with assms(11) have "r = merged_row env j r0" by (cases "ar_id r0 = i") simp_all
  then have "ar_attrs r = jsonb_concat (ar_attrs r0) j" by (simp add: merged_row_def)
  ultimately show ?thesis using path by (simp add: lookupPath_def lookup_parts_is_walk)
qed

text \<open>
  A server that keeps the last of several members with one key, as \<open>jsonb\<close> does, an update and a row for the witness.
\<close>

definition pg2 :: pg where
  "pg2 = pg1\<lparr>pg_jsonb := \<lambda>t. case json_parse t of Some (GMap g) \<Rightarrow> unmarshal_map Some t | _ \<Rightarrow> None\<rparr>"

lemma all_some_members:
  "all_some (map (\<lambda>kv. map_option (Pair (fst kv)) (f (snd kv))) m) = Some kvs \<Longrightarrow>
   map fst kvs = map fst m \<and> map_of kvs k = (case map_of m k of None \<Rightarrow> None | Some v \<Rightarrow> f v)"
  by (induction m arbitrary: kvs) (auto split: option.splits)

lemma walk_to_any:
  "wf_val v \<Longrightarrow> to_any num v = Some w \<Longrightarrow> walkValue v p = Some (GStr s) \<Longrightarrow> walkValue w p = Some (GStr s)"
proof (induction v p arbitrary: w rule: walkValue.induct)
  case (2 m seg segs)
  obtain kvs where kvs: "all_some (map (\<lambda>kv. map_option (Pair (fst kv)) (to_any num (snd kv))) m) = Some kvs" "w = GMap (as_map kvs [])"
    using 2(3) by auto
  note mem = all_some_members [OF kvs(1)]
  have w: "w = GMap kvs" using kvs(2) mem 2(2) as_map_append [of "[]" kvs] by (simp add: go_map_def)
  obtain x where x: "map_of m seg = Some x" "walkValue x segs = Some (GStr s)" using 2(4) by (auto split: option.splits)
  have "fst ` set kvs = fst ` set m" using arg_cong [OF conjunct1 [OF mem], of set] by simp
  moreover have "seg \<in> fst ` set m" using map_of_SomeD [OF x(1)] by (metis fst_conv imageI)
  ultimately have "map_of kvs seg \<noteq> None" by (simp only: map_of_eq_None_iff not_not)
  then obtain y where y: "to_any num x = Some y" "map_of kvs seg = Some y" using mem [of seg] x(1) by auto
  have "wf_val x" using 2(2) map_of_SomeD [OF x(1)] by (auto simp: list_all_iff)
  from 2(1) [OF x(1) this y(1) x(2)] show ?case by (simp add: w y(2))
qed auto

lemma pg2_reads:
  assumes "json_parse t = Some (GMap g)" and "wf_val (GMap g)" and "pg_jsonb pg2 t = Some j"
  shows "go_map j \<and> (\<forall>p s. walkValue (GMap g) p = Some (GStr s) \<longrightarrow> walkValue (GMap j) p = Some (GStr s))"
proof -
  have j: "to_any Some (GMap g) = Some (GMap j)"
    using assms(1,3) by (auto simp: pg2_def unmarshal_map_def split: option.splits gval.splits)
  then have "go_map j" by (auto simp: go_map_as_map)
  then show ?thesis using walk_to_any [OF assms(2) j] by blast
qed

definition update2 :: gmap where
  "update2 = [(''tm'', GMap [(''ip'', GStr ''x'')])]"

definition result2 :: tool_result where
  "result2 = \<lparr>re_NewAssets = [], re_Findings = [], re_AssetUpdate = Some update2, re_Stats = None, re_SecretFeedback = None\<rparr>"

definition row2 :: asset_row where
  "row2 = \<lparr>ar_id = ''i'', ar_scope = ''s'', ar_kind = ''host'', ar_value = ''h'', ar_parent = None, ar_attrs = [(''tm'', GNil)],
     ar_fingerprint = None, ar_state = [], ar_last_seen = 0\<rparr>"

theorem asserted_update_is_stored_witness:
  "\<exists>d r. MergeUpdate pg2 ''i'' (Some update2) (empty_db\<lparr>db_assets := [row2]\<rparr>, []) = (None, d, [])
    \<and> db_assets d = [r] \<and> lookupPath (Some (ar_attrs r)) ''tm.ip'' = Some (GStr ''x'')"
proof -
  have u: "coerce_utf8 ''tm'' = ''tm''" "coerce_utf8 ''ip'' = ''ip''" "coerce_utf8 ''x'' = ''x''" by code_simp+
  have ok: "AssertAssetUpdate (\<lambda>_ _. None) result2 ''tm.ip'' (GStr ''x'') = Pass" by code_simp
  have p: "printable (GMap update2)" "nesting (GMap update2) \<le> max_nesting" "wf_val (GMap update2)" "utf8_keys (GMap update2)"
    by (simp_all add: update2_def u max_nesting_def)
  obtain t where t: "marshal (GMap update2) = Some t" using printable_marshal [OF p(1)] by blast
  have "json_parse t = Some (GMap update2)" using json_roundtrip [OF t p(1,2)] by (simp add: update2_def u)
  then have j: "pg_jsonb pg2 t = Some update2" by (simp add: pg2_def update2_def unmarshal_map_def as_map_Cons)
  let ?d = "empty_db\<lparr>db_assets := [row2]\<rparr>"
  have "update2 \<noteq> []" by (simp add: update2_def)
  then obtain d where d: "MergeUpdate pg2 ''i'' (Some update2) (?d, []) = (None, d, [])"
    using t j by (simp add: MergeUpdate_def del: marshal.simps)
  from MergeUpdate_ok [OF d \<open>update2 \<noteq> []\<close> t] obtain r where r: "db_assets d = [r]" "ar_id r = ''i''"
    by (auto simp: merged_row_def row2_def)
  have "lookupPath (Some (ar_attrs r)) ''tm.ip'' = Some (GStr ''x'')"
    by (rule asserted_update_is_stored [OF ok, of update2 pg2 "''i''" ?d "[]" d "[]"])
      (use p u d r pg2_reads in \<open>simp_all add: result2_def del: wf_val.simps utf8_keys.simps printable.simps nesting.simps\<close>)
  with d r show ?thesis by blast
qed

text \<open>
  Comparing two maps or two slices panics, so that no assertion of such a value passes.
\<close>

lemma composite_values_panic:
  "AssertAssetUpdate other res path (GMap m) \<noteq> Pass" "AssertAssetUpdate other res path (GList vs) \<noteq> Pass"
  "lookupPath (re_AssetUpdate res) path = Some (GMap m') \<Longrightarrow> AssertAssetUpdate other res path (GMap m) = Panic"
proof -
  have "iface_eq other g (GMap m) \<noteq> Some True" "iface_eq other g (GList vs) \<noteq> Some True" for g by (cases g; simp)+
  then show "AssertAssetUpdate other res path (GMap m) \<noteq> Pass" "AssertAssetUpdate other res path (GList vs) \<noteq> Pass"
    by (auto simp: AssertAssetUpdate_def compare_got_def check_def split: option.split)
qed (simp add: AssertAssetUpdate_def compare_got_def)

end
