(* ===== verification/Spec2Isabelle.thy ===== *)
theory Spec2Isabelle
  imports Breaker Dedup Fingerprint_Pool River_Adapter Config_Sharing Dns Proxy_Client Source_Cache Mtls Serve
    Health_Race Shared_Assets Harness_Fakes Harness_Jobs Harness_Asserts
begin

text \<open>
  A verification library for the worker SDK: the Go packages under src/worker and src/sdk that turn a
  tool with one method \<open>Run\<close> into a worker of the platform.

  \<^bold>\<open>The program.\<close> \<open>Serve\<close> (worker/serve.go) loads a manifest and starts the runtime (worker/runtime.go), which
  registers the worker in Postgres, opens admin endpoints, keeps a heartbeat, reports health
  (worker/health.go), assembles the tool's configuration from manifest, override, secrets and lists, and
  consumes jobs. Each job goes through the queue adapter (worker/river_adapter.go): the asset is
  fetched, an API key resolved (worker/apikeys.go), the tool run, and its result written by the asset
  writer (worker/asset_writer.go). Beside the runtime stand libraries that tools call: a proxy client
  with a circuit breaker (sdk/proxyclient), a caching DNS resolver (sdk/dns), the opening of sealed
  config fields (sdk/secretbox), an archive of recovered sources (sdk/sourcecache), an mTLS client
  (sdk/mtls) and tracing (sdk/tracing), and a harness for the tests of tools (testing/wtest).

  \<^bold>\<open>The theories.\<close>
  \<^item> \<open>Prelude\<close>: Go's strings, durations, instants and maps. Instants and durations are integers in
    nanoseconds; the difference of instants saturates as in package \<open>time\<close>.
  \<^item> \<open>Json_Value\<close>, \<open>Json_Parse\<close>, \<open>Http\<close>, \<open>Base64\<close>, \<open>Sha256\<close>, \<open>Aes_Gcm\<close>: what the source uses of the standard library, written out.
    A dynamic value is a tree whose maps are association lists in one iteration order; facts about code
    that ranges over a map are stated for every order. AES-GCM interprets the locale \<open>aead\<close>.
  \<^item> \<open>Json_Roundtrip\<close>, \<open>Json_Struct\<close>, \<open>Json_Indent\<close>, \<open>Json_Doc\<close>: what \<open>json.Marshal\<close> writes is read back as the value, up to
    what JSON can show of it, also when it is indented; how structs are written and how a decoder fills them.
  \<^item> \<open>Sql\<close>, \<open>Database\<close>: upserts and updates over tables as lists of rows, and a connection on which any
    statement may fail before or after it took effect, given by a list of faults. The locale
    \<open>upsert_table\<close> is interpreted for the tables of assets, health, sources and workers.
  \<^item> \<open>Tool\<close>, \<open>Manifest\<close>: the records of the contract, the classes of errors, the manifest and its validation.
  \<^item> \<open>Asset_Writer\<close>: single and batched upserts with the text of the generated query, merges and
    fingerprints. A batch without duplicates does what single upserts do; identities stay unique under
    every fault; placeholders are numbered right and fit their buffer (chunks of 500 rows need numbers
    below 10^12, the buffer's size, which the lemmas derive); a duplicate makes a batch fail.
  \<^item> \<open>Fingerprint_Pool\<close>: concurrent fingerprints with pooled hashers and buffers, as a step relation whose invariant
    keeps the calls apart.
  \<^item> \<open>Dedup\<close>, \<open>Health\<close>, \<open>Api_Keys\<close>: the dedup hash, whose input determines the finding, health counters at 32 bits and the row they
    lead to, key resolution and feedback.
  \<^item> \<open>Metrics\<close>, \<open>River_Adapter\<close>: one job from dispatch to answer, with its calls into the metrics library. Acknowledged
    jobs have stored their assets, failed runs have written nothing, a retried persist converges, an answer
    is given unless the library refuses a label, and metrics and health counters count the same runs.
  \<^item> \<open>Health_Race\<close>, \<open>Shared_Assets\<close>: what holds when jobs run in parallel. The atomic operations on the counters and the
    reports in the background are steps of a relation, which linearizes; the statements of any workers are
    steps on the assets, none of which is lost.
  \<^item> \<open>Secretbox\<close>, \<open>Config\<close>: round trip and authenticity of envelopes, what every path of the effective
    configuration reads as.
  \<^item> \<open>Map_Store\<close>, \<open>Config_Sharing\<close>: the reload with Go's maps as references into a store, and the listener that makes
    one at every notification. What is handed to the tool is what \<open>Config\<close> computes (a refinement); the maps
    it shares with the manifest are written, so the manifest itself changes, as described exactly.
  \<^item> \<open>Runtime\<close>, \<open>Tracing\<close>, \<open>Once\<close>, \<open>Once_Read\<close>, \<open>Serve\<close>: registration and heartbeats, the order of boot and shutdown as a
    trace of actions, the modes of the entry point, what the one-shot mode reads and prints, what a program that
    decodes the printed text gets, and how the process ends.
  \<^item> \<open>Breaker\<close>, \<open>Proxy_Client\<close>: the breaker refines a specification by lists of failure instants (locale
    \<open>probe_gate\<close> for its probes); routing after any history of calls; Start, refresher and Close as an
    inductive step relation, with its invariant and, for weakly fair infinite runs, the end of what Close waits for.
  \<^item> \<open>Dns_Cache\<close>, \<open>Dns_Wire\<close>, \<open>Dns\<close>: the linked list with its index refines a recency list (locale \<open>ttl_cache\<close>); cached
    answers are fresh; what the service encodes is what the caller gets; when the fallback is asked.
  \<^item> \<open>Source_Cache\<close>, \<open>Mtls\<close>: the archive returns what was stored; the client the process uses.
  \<^item> \<open>Harness_Fakes\<close>, \<open>Harness_Jobs\<close>, \<open>Harness_Asserts\<close>: the test harness (testing/wtest). Its fakes interpret the locale
    \<open>registry\<close>; a built job is isolated from its builder; what an assertion accepts is what the runtime
    reports or stores.

  At the end of this theory stand properties that span components: the queues a worker advertises are the
  ones it serves, and when jobs get keys of the pool.

  \<^bold>\<open>State and effects.\<close> A struct is a record, and an operation maps the state to its answer and the new state.
  Errors are values of a sum; a panic is a value of its own (an outer \<open>None\<close>, or a constructor). Every loop is
  a terminating function, so no fuel is used. Calls under one mutex are atomic, and concurrent callers are a
  sequence of such calls; where code interleaves between critical sections or atomic operations (Start and Close,
  the health counters, the statements of jobs) the steps are separate.

  \<^bold>\<open>Parameters.\<close> Left open, as arguments of the definitions: the tool,
  \<open>uuid.Parse\<close>, the YAML decoder, how a float64 is read and printed, how addresses and timestamps are
  parsed and timestamps printed, whether a tool answers nil or an empty slice, the label values the metrics library accepts, gunzip, the HTTP round trip, the system resolver, \<open>url.Parse\<close>,
  certificate and key files, reflection, the queue client, the clock, random bytes, the environment, and what Postgres
  decides (reading \<open>jsonb\<close>, digests, ids, collation, its clock).

  \<^bold>\<open>Simplifications.\<close> One value of the database's clock serves all statements of one environment, so a batch and the
  single upserts it is compared with, or a first attempt and its retry, are compared at one instant; only
  \<open>last_seen\<close> depends on it. The id of a new row is a function of its identity, where the database draws one.
  Text columns accept every text, counters of the health row are unbounded, and ids of keys come from parsed
  uuids, so their cast does not fail. Errors are chains: joined errors, which the SDK does not make, are not
  looked into. The DNS cache reads its clock once before and once after the upstream answers, and a lookup is one step. While \<open>serve_loop\<close> waits for
  the cancellation the database is left alone: jobs, heartbeats and reports have their own definitions. The
  manifest of the admin endpoint shows an empty list as null, as for a list the YAML does not mention.

  \<^bold>\<open>Not modelled.\<close> The observed seconds and the exposition of metrics, spans, log lines, the tuning of
  connection pools, deadlines of contexts, triggers of the database, the messages of
  \<open>die\<close> and of failed assertions. \<open>BulkRunner\<close> is declared but never
  called by the SDK.
\<close>

section \<open>The registered worker serves the queues it advertises\<close>

lemma run_registers:
  assumes "newRuntime hostname rb opts = Inr rt" and "runtime_Run su rt (d, fs) = (err, acts, rt', d', fs')"
    and "StartConsumer \<in> set acts"
  shows "\<exists>r. lookup wk_instance (db_workers d') (rn_instance rt) = Some r \<and> wk_queues r = phaseNames (rn_manifest rt)"
proof -
  have fresh: "fresh_runtime rt" by (rule newRuntime_fresh [OF assms(1)])
  obtain e acts1 rt1 d1 fs1 where up: "run_up su rt (d, fs) = (e, acts1, rt1, d1, fs1)" by (metis prod_cases5)
  have "StartConsumer \<in> set acts1 \<and> d' = d1"
  proof (cases e)
    case (Some e')
    with assms(2,3) up show ?thesis by (simp add: runtime_Run_def)
  next
    case None
    with run_up_cases [OF up fresh] have a: "acts1 = boot_order"
      and rt1: "rt1 = rt\<lparr>rn_pool := True, rn_admin := True, rn_rc := True\<rparr>" by auto
    obtain acts2 where "serve_loop su rt1 (d1, fs1) = (err, acts2, rt', d', fs')"
      using assms(2) up None by (auto simp: runtime_Run_def split: prod.splits)
    from serve_loop_facts [OF this] fresh a rt1 show ?thesis by (simp add: fresh_runtime_def boot_order_def)
  qed
  then obtain fs2 where reg: "registerWorker (su_pg su) (su_hostname su) (rt\<lparr>rn_pool := True\<rparr>) (d, fs) = (None, d', fs2)"
    using up by (auto simp: run_up_def Let_def split: option.splits prod.splits sum.splits)
  obtain mj meta where "d' = d\<lparr>db_workers := upsert1 wk_instance (worker_merge (pg_now (su_pg su))) (\<lambda>_ _. True)
      (register_row (su_pg su) (rt\<lparr>rn_pool := True\<rparr>) mj meta) (db_workers d)\<rparr>"
    using registerWorker_ok [OF reg] by blast
  then show ?thesis by (simp add: register_lookup register_row_def worker_merge_def split: option.split)
qed

text \<open>
  C27: when a runtime with a validated manifest starts its consumer, the row it has registered advertises
  exactly the queues it listens on, each has at least one slot, and the worker behind them takes the jobs
  of each; this holds under every fault of the connection.
\<close>

theorem run_serves_advertised_queues:
  assumes "newRuntime hostname rb opts = Inr rt" and "runtime_Run su rt (d, fs) = (err, acts, rt', d', fs')"
    and "StartConsumer \<in> set acts" and "fst (Validate (rn_manifest rt)) = None"
  shows "\<exists>r w. lookup wk_instance (db_workers d') (rn_instance rt) = Some r
    \<and> set (wk_queues r) = fst ` set (consumer_queues (rn_manifest rt))
    \<and> consumer_worker (tl_Name (rn_tool rt)) rv (rn_manifest rt) = Some w
    \<and> (\<forall>q \<in> set (wk_queues r). (cw_phase w = [] \<or> cw_phase w = q)
         \<and> (\<exists>n \<ge> 1. map_of (consumer_queues (rn_manifest rt)) q = Some n))"
proof -
  let ?m = "rn_manifest rt"
  obtain r where r: "lookup wk_instance (db_workers d') (rn_instance rt) = Some r" "wk_queues r = phaseNames ?m"
    using run_registers [OF assms(1-3)] by blast
  have keys: "fst ` set (fold (\<lambda>p q. map_put q (ph_Name p) (queueParallelism p)) ps q0) = ph_Name ` set ps \<union> fst ` set q0" for ps q0
    by (induction ps arbitrary: q0) auto
  have queues: "fst ` set (consumer_queues ?m) = set (phaseNames ?m)"
    by (simp add: consumer_queues_def keys phaseNames_def)
  obtain p ps where "mf_Phases ?m = p # ps" using assms(4) by (cases "mf_Phases ?m") (auto simp: Validate_def Let_def split: if_splits)
  then obtain w where w: "consumer_worker (tl_Name (rn_tool rt)) rv ?m = Some w" by (cases ps) (simp_all add: consumer_worker_def)
  have "(cw_phase w = [] \<or> cw_phase w = q) \<and> (\<exists>n \<ge> 1. map_of (consumer_queues ?m) q = Some n)" if "q \<in> set (phaseNames ?m)" for q
    using that registered_phases_accepted [OF assms(4), of _ "tl_Name (rn_tool rt)" rv] w by (fastforce simp: phaseNames_def)
  with r queues w show ?thesis by auto
qed

theorem run_serves_advertised_queues_witness:
  "\<exists>acts rt' d' fs' r. runtime_Run surroundings0 runtime0 (empty_db, []) = (Some TransientErr, acts, rt', d', fs')
     \<and> lookup wk_instance (db_workers d') (rn_instance runtime0) = Some r \<and> set (wk_queues r) = {''a''}"
proof -
  have m: "rn_manifest runtime0 = manifest0 [phase0 ''a'']"
    by (simp add: runtime0_def newRuntime_def ropts0_def)
  have t: "tl_ReloadConfig (rn_tool runtime0) = None"
    by (simp add: runtime0_def newRuntime_def ropts0_def tool0_def)
  obtain acts rt' d' fs' where run: "runtime_Run surroundings0 runtime0 (empty_db, []) = (Some TransientErr, acts, rt', d', fs')"
    and started: "StartConsumer \<in> set acts"
    by (simp add: runtime_Run_def run_up_def surroundings0_def register0 start_consumer_of_def startConsumer_def Let_def
        serve_loop_def t shutdown_def)
      (simp add: runtime0_def newRuntime_def ropts0_def tool0_def)
  have valid: "fst (Validate (rn_manifest runtime0)) = None" by (simp add: m valid0)
  have "fst ` set (consumer_queues (rn_manifest runtime0)) = {''a''}" by (simp add: m consumer_queues_def manifest0_def phase0_def)
  with run_serves_advertised_queues [OF newRuntime0 run started valid] run show ?thesis by metis
qed

section \<open>Keys of the pool\<close>

lemma run_key:
  assumes "newRuntime hostname rb opts = Inr rt" and "runtime_Run su rt st = (err, acts, rt', st')"
    and "tl_ReloadConfig (rn_tool rt) = None \<or> mf_Secrets (rn_manifest rt) = [] \<or> (\<exists>e. LoadKeyFromEnv (su_getenv su) = Inl e)"
  shows "rn_secretsKey rt' = None"
proof -
  have fresh: "fresh_runtime rt" and none: "rn_secretsKey rt = None"
    using newRuntime_fresh [OF assms(1)] assms(1) by (auto simp: newRuntime_def split: if_splits option.splits)
  obtain e acts1 rt1 st1 where up: "run_up su rt st = (e, acts1, rt1, st1)" by (metis prod_cases4)
  have key: "rn_secretsKey rt1 = None" "rn_tool rt1 = rn_tool rt" "rn_manifest rt1 = rn_manifest rt"
    using up none by (auto simp: run_up_def Let_def split: option.splits prod.splits sum.splits)
  have "rn_secretsKey rt2 = None" if sl: "serve_loop su rt1 st1 = (err, acts2, rt2, st2)" for acts2 rt2 st2
  proof (cases "tl_ReloadConfig (rn_tool rt)")
    case None
    with sl key show ?thesis by (auto simp: serve_loop_def shutdown_def Let_def split: if_splits)
  next
    case (Some f)
    obtain e' k s where a: "applyConfig (su_num su) (su_gunzip su) (su_getenv su) (Some f) (rn_manifest rt) None st1 = (e', k, s)"
      by (metis prod_cases3)
    have "k = None"
      using a Some assms(3) by (auto simp: applyConfig_def effective_config_def decryptSecrets_def Let_def split: if_splits)
    with sl key Some a show ?thesis by (auto simp: serve_loop_def shutdown_def Let_def split: if_splits)
  qed
  with assms(2) up key show ?thesis by (auto simp: runtime_Run_def split: option.splits prod.splits)
qed

text \<open>
  C38: the key that opens the entries of the API-key pool is only ever loaded for the secrets of the tool's
  own configuration. A worker whose tool takes no configuration, whose manifest declares no secrets or
  whose process lacks the key handles every job as if the job named no key of the pool, even when the
  entry is stored in the clear.
\<close>

theorem pool_keys_need_declared_secrets:
  assumes "newRuntime hostname rb opts = Inr rt" and "runtime_Run su rt st = (err, acts, rt', st')"
    and "tl_ReloadConfig (rn_tool rt) = None \<or> mf_Secrets (rn_manifest rt) = [] \<or> (\<exists>e. LoadKeyFromEnv (su_getenv su) = Inl e)"
    and "cw_rt w = Some \<lparr>rt_pool = rn_pool rt', rt_secretsKey = rn_secretsKey rt'\<rparr>"
  shows "Work env parse run w deadline j s
    = Work env parse run w deadline (j\<lparr>rj_Args := (rj_Args j)\<lparr>ca_APIKeyID := None\<rparr>\<rparr>) s"
proof -
  let ?args = "(rj_Args j)\<lparr>ca_APIKeyID := None\<rparr>"
  have rk: "resolve_key w args jb st2 = (jb, st2)" for args jb st2
    using assms(4) run_key [OF assms(1-3)] by (auto simp: resolve_key_def fetchAPIKeyValue_def split: option.split)
  have bj: "build_job (j\<lparr>rj_Args := ?args\<rparr>) a dl = build_job j a dl" for a dl by (simp add: build_job_def)
  have sr: "store_result env parse w ?args jb res = store_result env parse w (rj_Args j) jb res" for jb res
  proof -
    have e: "persist_merge env ?args res = persist_merge env (rj_Args j) res" "persist_assets env parse ?args res = persist_assets env parse (rj_Args j) res"
      by (simp_all add: fun_eq_iff persist_merge_def persist_assets_def)
    show ?thesis unfolding fun_eq_iff store_result_def persist_def e by simp
  qed
  have ra: "rj_Args (j\<lparr>rj_Args := ?args\<rparr>) = ?args" "ca_Phase ?args = ca_Phase (rj_Args j)" "ca_AssetID ?args = ca_AssetID (rj_Args j)"
    by simp_all
  show ?thesis unfolding Work_def ra rk bj sr ..
qed

theorem pool_keys_need_declared_secrets_witness:
  "\<exists>err acts rt' st'. runtime_Run surroundings0 runtime0 (empty_db, []) = (err, acts, rt', st')
     \<and> Work pg3 (\<lambda>_. None) (\<lambda>_. Inl TransientErr) (worker0\<lparr>cw_rt := Some \<lparr>rt_pool = rn_pool rt', rt_secretsKey = rn_secretsKey rt'\<rparr>\<rparr>)
           None (job0\<lparr>rj_Args := args0\<lparr>ca_APIKeyID := Some ''k''\<rparr>\<rparr>) state0
       = Work pg3 (\<lambda>_. None) (\<lambda>_. Inl TransientErr) (worker0\<lparr>cw_rt := Some \<lparr>rt_pool = rn_pool rt', rt_secretsKey = rn_secretsKey rt'\<rparr>\<rparr>)
           None (job0\<lparr>rj_Args := args0\<lparr>ca_APIKeyID := None\<rparr>\<rparr>) state0"
proof -
  obtain err acts rt' st' where run: "runtime_Run surroundings0 runtime0 (empty_db, []) = (err, acts, rt', st')" by (metis prod_cases4)
  have "tl_ReloadConfig (rn_tool runtime0) = None" by (simp add: runtime0_def newRuntime_def ropts0_def tool0_def)
  with pool_keys_need_declared_secrets [OF newRuntime0 run, of "worker0\<lparr>cw_rt := Some \<lparr>rt_pool = rn_pool rt', rt_secretsKey = rn_secretsKey rt'\<rparr>\<rparr>"
      pg3 "\<lambda>_. None" "\<lambda>_. Inl TransientErr" None "job0\<lparr>rj_Args := args0\<lparr>ca_APIKeyID := Some ''k''\<rparr>\<rparr>" state0] run
  show ?thesis by (simp del: runtime.simps) 
qed

end
